(* ===== verification/Miroir_Prelude.thy ===== *)
theory Miroir_Prelude
  imports Main "HOL-Library.AList" "HOL-Library.List_Lexorder" "HOL-Library.Char_ord"
begin

text \<open>
  Shared vocabulary of the development: the Go constructs every component uses (maps, the
  fixed-width integer types, error returns), the ``lowest unused number'' loop that the
  repository repeats for DRBD node ids, replication ports and device minors, and the generic
  list facts the component proofs rest on.
\<close>

named_theorems miroir_defs \<open>definitions that component proofs unfold together\<close>

unbundle bit_operations_syntax

section \<open>Go values\<close>

text \<open>
  A Go map with string keys is an association list: iteration visits the list, lookup is
  \<^const>\<open>map_of\<close>, assignment is \<^const>\<open>AList.update\<close>. Go leaves the iteration order open, so
  a property of code that iterates over a map is stated for every order of the list.
\<close>

type_synonym 'v gomap = "(string \<times> 'v) list"

definition has_key :: "'v gomap \<Rightarrow> string \<Rightarrow> bool" where
  "has_key m k \<longleftrightarrow> map_of m k \<noteq> None"

definition gomap_ok :: "'v gomap \<Rightarrow> bool" where
  "gomap_ok m \<longleftrightarrow> distinct (map fst m)"

text \<open>The signed 32- and 64-bit integer types: arithmetic is computed on the integers and cut
  back to the type's range.\<close>

definition int32 :: "int \<Rightarrow> int" where
  "int32 x = signed_take_bit 31 x"

definition int64 :: "int \<Rightarrow> int" where
  "int64 x = signed_take_bit 63 x"

lemma int64_id [simp]: "- (2 ^ 63) \<le> x \<Longrightarrow> x < 2 ^ 63 \<Longrightarrow> int64 x = x"
  by (simp add: int64_def signed_take_bit_int_eq_self)

lemma int64_range: "- (2 ^ 63) \<le> int64 x \<and> int64 x < 2 ^ 63"
  unfolding int64_def
  using signed_take_bit_int_greater_eq_minus_exp [of 63 x] signed_take_bit_int_less_exp [of 63 x]
  by simp

lemma int32_id [simp]: "- (2 ^ 31) \<le> x \<Longrightarrow> x < 2 ^ 31 \<Longrightarrow> int32 x = x"
  by (simp add: int32_def signed_take_bit_int_eq_self)

text \<open>Clearing the low bits of a two's-complement integer rounds it down to a multiple.\<close>

lemma and_not_mask_int: "(x::int) AND NOT (2 ^ n - 1) = x - x mod 2 ^ n"
proof -
  have "NOT x AND (x AND mask n) = 0"
    by (simp add: and.assoc [symmetric])
  then have "x - (x AND mask n) = x AND NOT (x AND mask n)"
    by (rule disjunctive_diff_eq_and_not)
  also have "\<dots> = x AND NOT (mask n)"
    by (rule bit_eqI) (auto simp: bit_simps)
  finally show ?thesis
    unfolding take_bit_eq_mod [symmetric] take_bit_eq_mask by (simp add: mask_eq_exp_minus_1)
qed

section \<open>The lowest unused number\<close>

text \<open>
  \<^verbatim>\<open>id := base; for used[id] { id++ }\<close>: the loop that picks DRBD node ids, replication
  ports and device minors. The counters are 32-bit; the lemma \<open>lowest_free_bound\<close> bounds the
  result by the number of taken values, so the counter reaches the end of its range only where
  there are that many.
\<close>

lemma length_filter_above:
  "(m::int) \<in> set used \<Longrightarrow> length (filter (\<lambda>x. m + 1 \<le> x) used) < length (filter (\<lambda>x. m \<le> x) used)"
proof (induction used)
  case (Cons a used)
  have "length (filter (\<lambda>x. m + 1 \<le> x) used) \<le> length (filter (\<lambda>x. m \<le> x) used)"
    by (induction used) auto
  with Cons show ?case by auto
qed simp

function lowest_free :: "int list \<Rightarrow> int \<Rightarrow> int" where
  "lowest_free used m = (if m \<in> set used then lowest_free used (m + 1) else m)"
  by pat_completeness auto
termination
  by (relation "measure (\<lambda>(used, m). length (filter (\<lambda>x. m \<le> x) used))")
    (auto simp: length_filter_above)

declare lowest_free.simps [simp del]

lemma lowest_free_notin: "lowest_free used m \<notin> set used"
proof (induction used m rule: lowest_free.induct)
  case (1 used m)
  then show ?case by (cases "m \<in> set used") (auto simp: lowest_free.simps [of used m])
qed

lemma lowest_free_ge: "m \<le> lowest_free used m"
proof (induction used m rule: lowest_free.induct)
  case (1 used m)
  then show ?case by (cases "m \<in> set used") (auto simp: lowest_free.simps [of used m])
qed

lemma lowest_free_least: "m \<le> i \<Longrightarrow> i < lowest_free used m \<Longrightarrow> i \<in> set used"
proof (induction used m rule: lowest_free.induct)
  case (1 used m)
  then show ?case
    by (cases "m \<in> set used"; cases "i = m") (auto simp: lowest_free.simps [of used m])
qed

text \<open>
  The contract of such an allocator, over any state that knows the numbers in use: what it picks
  is at or above the base, unused, and no smaller number would do.
\<close>

locale number_allocator =
  fixes in_use :: "'s \<Rightarrow> int list"
    and base :: int
    and pick :: "'s \<Rightarrow> int"
  assumes pick_ge: "base \<le> pick s"
    and pick_unused: "pick s \<notin> set (in_use s)"
    and pick_least: "base \<le> i \<Longrightarrow> i < pick s \<Longrightarrow> i \<in> set (in_use s)"
begin

lemma pick_bound: "pick s \<le> base + int (length (in_use s))"
proof -
  have "{base..<pick s} \<subseteq> set (in_use s)"
    using pick_least by auto
  then have "card {base..<pick s} \<le> card (set (in_use s))"
    by (intro card_mono) auto
  also have "\<dots> \<le> length (in_use s)" by (rule card_length)
  finally show ?thesis using pick_ge [of s] by simp
qed

lemma pick_int32:
  assumes "- (2 ^ 31) \<le> base" and "base + int (length (in_use s)) < 2 ^ 31"
  shows "int32 (pick s) = pick s"
  using pick_bound [of s] pick_ge [of s] assms by (intro int32_id) auto

lemma pick_determined:
  assumes "set (in_use s) = set (in_use t)"
  shows "pick s = pick t"
  using pick_ge [of s] pick_ge [of t] pick_unused [of s] pick_unused [of t]
    pick_least [of "pick t" s] pick_least [of "pick s" t] assms by force

end

interpretation lowest: number_allocator "\<lambda>used. used" base "\<lambda>used. lowest_free used base" for base
  by unfold_locales (auto simp: lowest_free_ge lowest_free_notin intro: lowest_free_least)

section \<open>Lists\<close>

lemma filter_map_keep: "(\<And>x. x \<in> set xs \<Longrightarrow> P (f x) = P x) \<Longrightarrow> filter P (map f xs) = map f (filter P xs)"
  by (induction xs) auto

lemma filter_other: "a \<notin> f ` set xs \<Longrightarrow> filter (\<lambda>x. f x \<noteq> a) xs = xs"
  by (induction xs) auto

lemma length_filter_all: "length (filter P xs) = length xs \<longleftrightarrow> (\<forall>x\<in>set xs. P x)"
  by (metis filter_id_conv length_filter_less less_irrefl)

lemma map_list_update_same:
  "i < length xs \<Longrightarrow> f y = f (xs ! i) \<Longrightarrow> map f (xs[i := y]) = map f xs"
  by (metis list_update_id map_update)

lemma sorted_hd_least: "sorted (x # xs) \<Longrightarrow> y \<in> set (x # xs) \<Longrightarrow> x \<le> y"
  by auto

lemma find_SomeD: "find P xs = Some x \<Longrightarrow> x \<in> set xs \<and> P x"
  by (auto simp: find_Some_iff)

lemma find_NoneD: "find P xs = None \<Longrightarrow> x \<in> set xs \<Longrightarrow> \<not> P x"
  by (auto simp: find_None_iff)

lemma find_exists: "x \<in> set xs \<Longrightarrow> P x \<Longrightarrow> \<exists>y. find P xs = Some y"
  by (induction xs) auto

text \<open>A stable result: sorting forgets the order in which a map was iterated.\<close>

lemma sort_set_cong:
  "distinct xs \<Longrightarrow> distinct ys \<Longrightarrow> set xs = set ys \<Longrightarrow> sort xs = sort (ys :: 'a::linorder list)"
  by (metis sorted_list_of_set.idem_if_sorted_distinct sorted_list_of_set_sort_remdups
      distinct_remdups_id set_sort sorted_sort)

end
