(* ===== verification/Api_Types.thy ===== *)
theory Api_Types
  imports Miroir_Prelude
begin

text \<open>
  The custom resources of \<^verbatim>\<open>api/v1alpha1\<close>: MiroirVolume, MiroirNode and MiroirSnapshot with
  their spec and status records, the accessor methods, the schema limits and the CEL rules the
  API server checks on every write (\<open>admit_create\<close>, \<open>admit_update\<close>). Only the fields of the
  Kubernetes object metadata and core types the code reads are kept. Times are nanoseconds on one
  clock; a nil \<^verbatim>\<open>*metav1.Time\<close> is \<^const>\<open>None\<close>. A string field that is omitted when empty reads
  as \<open>''''\<close>, so the rules' \<^verbatim>\<open>has(x)\<close> is \<open>x \<noteq> ''''\<close> for it.
\<close>

type_synonym gotime = int
type_synonym duration = int

section \<open>Volumes\<close>

datatype BackendType = BackendUnset | BackendLVMThin | BackendZFS | BackendLoopfile

datatype QuorumPolicy = QuorumUnset | QuorumLastManStanding | QuorumFreeze

datatype VolumePhase = PhaseUnset | VolumeCreating | VolumeReady | VolumeDegraded | VolumeFailed

record Replica =
  r_node :: string
  r_backend :: BackendType
  r_pool :: string
  r_nodeID :: int
  r_address :: string
  r_fullSync :: bool
  r_diskless :: bool

text \<open>The Go zero value, which the composite literals of the source fill in.\<close>

definition bare_replica :: "string \<Rightarrow> Replica" where
  "bare_replica n = \<lparr>r_node = n, r_backend = BackendUnset, r_pool = '''', r_nodeID = 0,
     r_address = '''', r_fullSync = False, r_diskless = False\<rparr>"

record VolumeClient =
  c_node :: string
  c_nodeID :: int
  c_address :: string
  c_addedAt :: "gotime option"

record DRBDSpec =
  d_port :: int
  d_sharedSecret :: string
  d_bitmapGranularityBytes :: int

record VolumeSource =
  src_snapshotName :: string
  src_padForMetadata :: bool

record ExportSpec =
  e_fsType :: string

record MiroirVolumeSpec =
  sizeBytes :: int
  replicas :: "Replica list"
  quorumPolicy :: QuorumPolicy
  drbd :: "DRBDSpec option"
  source :: "VolumeSource option"
  allowRemoteAccess :: bool
  clients :: "VolumeClient list"
  export :: "ExportSpec option"

record WritebackError =
  we_since :: gotime
  we_record :: string

record ReplicaStatus =
  st_deviceCreated :: bool
  st_devicePath :: string
  st_sizeBytes :: int
  st_drbdMinor :: int
  st_diskState :: string
  st_connected :: bool
  st_splitBrain :: bool
  st_diskless :: bool
  st_pool :: string
  st_discardGranularityBytes :: int
  st_diskFailed :: bool
  st_message :: string
  st_primarySince :: "gotime option"
  st_lastVerifyTime :: "gotime option"
  st_lastVerifyOutOfSyncBytes :: "int option"
  st_verifyStartedAt :: "gotime option"
  st_lastProbedAt :: "gotime option"
  st_writebackError :: "WritebackError option"

definition zero_status :: ReplicaStatus where
  "zero_status = \<lparr>st_deviceCreated = False, st_devicePath = '''', st_sizeBytes = 0,
     st_drbdMinor = 0, st_diskState = '''', st_connected = False, st_splitBrain = False,
     st_diskless = False, st_pool = '''', st_discardGranularityBytes = 0, st_diskFailed = False,
     st_message = '''', st_primarySince = None, st_lastVerifyTime = None,
     st_lastVerifyOutOfSyncBytes = None, st_verifyStartedAt = None, st_lastProbedAt = None,
     st_writebackError = None\<rparr>"

text \<open>Kubernetes status conditions, keyed by type in the order of the list.\<close>

record Condition =
  cond_type :: string
  cond_status :: bool
  cond_reason :: string
  cond_message :: string

record MiroirVolumeStatus =
  phase :: VolumePhase
  readyReplicas :: string
  perNode :: "ReplicaStatus gomap"
  exportAddress :: "string option"
  formatted :: bool
  activated :: bool
  conditions :: "Condition list"

record MiroirVolume =
  vname :: string
  labels :: "string gomap"
  finalizers :: "string list"
  deletionTimestamp :: "gotime option"
  spec :: MiroirVolumeSpec
  status :: MiroirVolumeStatus

definition DiskfulReplicas :: "MiroirVolumeSpec \<Rightarrow> Replica list" where
  "DiskfulReplicas s = filter (\<lambda>r. \<not> r_diskless r) (replicas s)"

definition FirstDiskfulReplica :: "MiroirVolumeSpec \<Rightarrow> Replica option" where
  "FirstDiskfulReplica s = find (\<lambda>r. \<not> r_diskless r) (replicas s)"

definition ClientForNode :: "MiroirVolumeSpec \<Rightarrow> string \<Rightarrow> VolumeClient option" where
  "ClientForNode s node = find (\<lambda>c. c_node c = node) (clients s)"

text \<open>\<^verbatim>\<open>vol.Status.PerNode[node]\<close> without the presence flag yields the zero status.\<close>

definition status_of :: "MiroirVolume \<Rightarrow> string \<Rightarrow> ReplicaStatus" where
  "status_of v n = (case map_of (perNode (status v)) n of Some st \<Rightarrow> st | None \<Rightarrow> zero_status)"

lemma FirstDiskfulReplica_eq:
  "FirstDiskfulReplica s = (case DiskfulReplicas s of [] \<Rightarrow> None | r # _ \<Rightarrow> Some r)"
proof -
  have "find P xs = (case filter P xs of [] \<Rightarrow> None | r # _ \<Rightarrow> Some r)" for P and xs :: "Replica list"
    by (induction xs) auto
  then show ?thesis by (simp add: FirstDiskfulReplica_def DiskfulReplicas_def)
qed

section \<open>Nodes and snapshots\<close>

definition DefaultPoolName :: string where
  "DefaultPoolName = ''default''"

record LVMThinPool =
  lvm_device :: string
  lvm_poolSize :: string

record ZFSPool =
  zfs_dataset :: string
  zfs_compression :: string
  zfs_volBlockSize :: string

record LoopfilePool =
  loop_baseDir :: string

record MiroirNodePool =
  np_name :: string
  np_lvmthin :: "LVMThinPool option"
  np_zfs :: "ZFSPool option"
  np_loopfile :: "LoopfilePool option"

record MiroirNodeSpec =
  ns_zone :: string
  ns_address :: string
  ns_autoEvict :: "bool option"
  ns_pools :: "MiroirNodePool list"

record MiroirNodePoolStatus =
  ps_name :: string
  ps_capacityBytes :: int
  ps_allocatedBytes :: int

record MiroirNodeStatus =
  mns_pools :: "MiroirNodePoolStatus list"
  mns_observedAt :: "gotime option"
  mns_conditions :: "Condition list"

record MiroirNode =
  mn_name :: string
  mn_labels :: "string gomap"
  mn_spec :: MiroirNodeSpec
  mn_status :: MiroirNodeStatus

definition nodeStatusPool :: "MiroirNodeStatus \<Rightarrow> string \<Rightarrow> MiroirNodePoolStatus option" where
  "nodeStatusPool s name =
     (let name = (if name = '''' then DefaultPoolName else name)
      in find (\<lambda>p. ps_name p = name) (mns_pools s))"

datatype SnapshotNodeState = SnapshotPending | SnapshotSuspended | SnapshotDone | SnapshotError

record MiroirSnapshot =
  sn_name :: string
  sn_uid :: string
  sn_ownerKinds :: "(string \<times> string) list"
  sn_volumeName :: string
  sn_group :: string
  sn_readyToUse :: bool
  sn_perNode :: "SnapshotNodeState gomap"
  sn_sizeBytes :: int
  sn_sourceFormatted :: bool
  sn_ioSuspended :: bool
  sn_suspendedAt :: "gotime option"
  sn_finalizers :: "string list"
  sn_deletionTimestamp :: "gotime option"

record MiroirSnapshotGroup =
  g_name :: string
  g_finalizers :: "string list"
  g_deletionTimestamp :: "gotime option"
  g_snapshotNames :: "string list"
  g_readyToUse :: bool
  g_perLeg :: "SnapshotNodeState gomap"
  g_ioSuspended :: bool
  g_suspendedAt :: "gotime option"

text \<open>The part of a core Node object the code reads: labels, addresses, conditions. A Kubernetes
  condition status is one of three strings.\<close>

datatype ConditionStatus = ConditionTrue | ConditionFalse | ConditionUnknown

record KNode =
  kn_name :: string
  kn_addresses :: "(string \<times> string) list"
  kn_conditions :: "(string \<times> ConditionStatus) list"
  kn_labels :: "string gomap"
  kn_annotations :: "string gomap"

datatype api_error = NotFound | Conflict | AlreadyExists | Invalid | OtherError

end
