(* ===== verification/Go_Strings.thy ===== *)
theory Go_Strings
  imports Miroir_Prelude
begin

text \<open>
  The string functions of Go's standard library the repository calls: \<^verbatim>\<open>strconv.Itoa\<close> and
  \<^verbatim>\<open>Atoi\<close>/\<^verbatim>\<open>ParseInt\<close>, the \<^verbatim>\<open>strings\<close> helpers (prefix and suffix cuts, splitting, joining,
  trimming), and \<^verbatim>\<open>net.ParseIP\<close> with \<^verbatim>\<open>IP.String\<close> and \<^verbatim>\<open>IP.To4\<close>. Strings are byte strings, so
  comparison and sorting are bytewise as in Go.
\<close>

section \<open>Prefixes, splitting, trimming\<close>

definition has_prefix :: "string \<Rightarrow> string \<Rightarrow> bool" where
  "has_prefix s p \<longleftrightarrow> take (length p) s = p"

definition has_suffix :: "string \<Rightarrow> string \<Rightarrow> bool" where
  "has_suffix s p \<longleftrightarrow> length p \<le> length s \<and> drop (length s - length p) s = p"

definition cut_prefix :: "string \<Rightarrow> string \<Rightarrow> string option" where
  "cut_prefix s p = (if has_prefix s p then Some (drop (length p) s) else None)"

definition cut_suffix :: "string \<Rightarrow> string \<Rightarrow> string option" where
  "cut_suffix s p = (if has_suffix s p then Some (take (length s - length p) s) else None)"

definition trim_suffix :: "string \<Rightarrow> string \<Rightarrow> string" where
  "trim_suffix s p = (case cut_suffix s p of Some t \<Rightarrow> t | None \<Rightarrow> s)"

definition contains :: "string \<Rightarrow> string \<Rightarrow> bool" where
  "contains s p \<longleftrightarrow> list_ex (\<lambda>i. has_prefix (drop i s) p) [0..<length s + 1]"

text \<open>\<^verbatim>\<open>strings.Split\<close> on a one-character separator.\<close>

fun split_on :: "char \<Rightarrow> string \<Rightarrow> string list" where
  "split_on c [] = [[]]"
| "split_on c (x # xs) =
     (case split_on c xs of
        [] \<Rightarrow> [[]]
      | w # ws \<Rightarrow> if x = c then [] # w # ws else (x # w) # ws)"

fun join :: "string \<Rightarrow> string list \<Rightarrow> string" where
  "join sep [] = []"
| "join sep [w] = w"
| "join sep (w # v # ws) = w @ sep @ join sep (v # ws)"

text \<open>ASCII white space, as \<^verbatim>\<open>strings.Fields\<close> and \<^verbatim>\<open>strings.TrimSpace\<close> treat it.\<close>

definition is_space :: "char \<Rightarrow> bool" where
  "is_space c \<longleftrightarrow> of_char c \<in> set [9, 10, 11, 12, 13, 32 :: nat]"

definition trim_space :: "string \<Rightarrow> string" where
  "trim_space s = rev (dropWhile is_space (rev (dropWhile is_space s)))"

fun fields_acc :: "string \<Rightarrow> string \<Rightarrow> string list" where
  "fields_acc w [] = (if w = [] then [] else [rev w])"
| "fields_acc w (x # xs) =
     (if is_space x then (if w = [] then fields_acc [] xs else rev w # fields_acc [] xs)
      else fields_acc (x # w) xs)"

definition fields :: "string \<Rightarrow> string list" where
  "fields s = fields_acc [] s"

text \<open>\<^verbatim>\<open>strings.Cut\<close> at the first occurrence of a one-character separator.\<close>

definition cut_at :: "char \<Rightarrow> string \<Rightarrow> (string \<times> string) option" where
  "cut_at c s = (let w = takeWhile (\<lambda>x. x \<noteq> c) s
     in if length w < length s then Some (w, drop (length w + 1) s) else None)"

lemma has_prefix_append [simp]: "has_prefix (p @ s) p"
  by (simp add: has_prefix_def)

lemma cut_prefix_append [simp]: "cut_prefix (p @ s) p = Some s"
  by (simp add: cut_prefix_def)

lemma cut_prefix_Some: "cut_prefix s p = Some t \<longleftrightarrow> s = p @ t"
  by (auto simp: cut_prefix_def has_prefix_def split: if_splits)
    (metis append_take_drop_id)

lemma cut_suffix_append [simp]: "cut_suffix (s @ p) p = Some s"
  by (simp add: cut_suffix_def has_suffix_def)

lemma split_on_nonempty: "split_on c s \<noteq> []"
  by (induction s) (auto split: list.splits)

lemma split_on_word: "c \<notin> set w \<Longrightarrow> split_on c (w @ c # s) = w # split_on c s"
proof (induction w)
  case Nil
  then show ?case using split_on_nonempty [of c s] by (auto split: list.splits)
next
  case (Cons a w)
  then show ?case by auto
qed

lemma split_on_last: "c \<notin> set w \<Longrightarrow> split_on c w = [w]"
  by (induction w) auto

section \<open>Decimal numbers\<close>

definition digit_char :: "nat \<Rightarrow> char" where
  "digit_char d = char_of (48 + d)"

definition digit_val :: "char \<Rightarrow> nat option" where
  "digit_val c = (let n = of_char c in if 48 \<le> n \<and> n \<le> 57 then Some (n - 48) else None)"

fun show_nat :: "nat \<Rightarrow> string" where
  "show_nat n = (if n < 10 then [digit_char n] else show_nat (n div 10) @ [digit_char (n mod 10)])"

declare show_nat.simps [simp del]

definition itoa :: "int \<Rightarrow> string" where
  "itoa x = (if x < 0 then CHR ''-'' # show_nat (nat (- x)) else show_nat (nat x))"

definition read_digits :: "string \<Rightarrow> nat option" where
  "read_digits s = (if s = [] then None else
     fold (\<lambda>c acc. case (acc, digit_val c) of (Some n, Some d) \<Rightarrow> Some (10 * n + d) | _ \<Rightarrow> None)
       s (Some 0))"

text \<open>\<^verbatim>\<open>strconv.ParseInt(s, 10, bits)\<close>; \<^verbatim>\<open>Atoi\<close> is the 64-bit case.\<close>

definition parse_int :: "nat \<Rightarrow> string \<Rightarrow> int option" where
  "parse_int bits s =
     (let (neg, ds) = (case s of
          c # cs \<Rightarrow> if c = CHR ''-'' then (True, cs) else if c = CHR ''+'' then (False, cs) else (False, s)
        | [] \<Rightarrow> (False, s))
      in case read_digits ds of
           None \<Rightarrow> None
         | Some n \<Rightarrow>
             (let x = (if neg then - int n else int n)
              in if - (2 ^ (bits - 1)) \<le> x \<and> x < 2 ^ (bits - 1) then Some x else None))"

definition atoi :: "string \<Rightarrow> int option" where
  "atoi s = parse_int 64 s"

lemma digit_val_char: "d < 10 \<Longrightarrow> digit_val (digit_char d) = Some d"
  by (simp add: digit_val_def digit_char_def Let_def)

lemma show_nat_nonempty: "show_nat n \<noteq> []"
  by (subst show_nat.simps) simp

lemma show_nat_digits: "c \<in> set (show_nat n) \<Longrightarrow> digit_val c \<noteq> None"
proof (induction n rule: show_nat.induct)
  case (1 n)
  then show ?case
    by (cases "n < 10") (auto simp: show_nat.simps [of n] digit_val_char)
qed

lemma digit_not_sign: "digit_val c \<noteq> None \<Longrightarrow> c \<noteq> CHR ''-'' \<and> c \<noteq> CHR ''+''"
  by (auto simp: digit_val_def Let_def split: if_splits)

lemma digit_not_space: "digit_val c \<noteq> None \<Longrightarrow> \<not> is_space c"
  by (auto simp: digit_val_def is_space_def Let_def split: if_splits)

lemma read_digits_show_nat: "read_digits (show_nat n) = Some n"
proof -
  let ?f = "\<lambda>c acc. case (acc, digit_val c) of (Some n, Some d) \<Rightarrow> Some (10 * n + d) | _ \<Rightarrow> None"
  have "fold ?f (show_nat n) (Some 0) = Some n"
  proof (induction n rule: show_nat.induct)
    case (1 n)
    show ?case
    proof (cases "n < 10")
      case True
      then show ?thesis by (simp add: show_nat.simps [of n] digit_val_char)
    next
      case False
      then show ?thesis using 1 by (simp add: show_nat.simps [of n] digit_val_char)
    qed
  qed
  then show ?thesis using show_nat_nonempty [of n] by (simp add: read_digits_def)
qed

lemma parse_int_itoa:
  assumes "- (2 ^ (bits - 1)) \<le> x" and "x < 2 ^ (bits - 1)"
  shows "parse_int bits (itoa x) = Some x"
proof (cases "x < 0")
  case True
  with assms show ?thesis
    by (simp add: parse_int_def itoa_def read_digits_show_nat)
next
  case False
  obtain c cs where c: "show_nat (nat x) = c # cs"
    using show_nat_nonempty [of "nat x"] by (cases "show_nat (nat x)") auto
  then have "c \<noteq> CHR ''-'' \<and> c \<noteq> CHR ''+''"
    using show_nat_digits [of c "nat x"] digit_not_sign by simp
  with False assms c show ?thesis
    using read_digits_show_nat [of "nat x"] by (simp add: parse_int_def itoa_def)
qed

section \<open>IP addresses\<close>

text \<open>
  A parsed address is its eight 16-bit groups; an IPv4 address has the form
  \<open>0:0:0:0:0:ffff:hhhh:llll\<close>, as the 16-byte \<^verbatim>\<open>net.IP\<close> has. \<^verbatim>\<open>ParseIP\<close> refuses zones.
\<close>

type_synonym ip = "int list"

definition hex_val :: "char \<Rightarrow> int option" where
  "hex_val c = (let n = of_char c :: int in
     if 48 \<le> n \<and> n \<le> 57 then Some (n - 48)
     else if 97 \<le> n \<and> n \<le> 102 then Some (n - 87)
     else if 65 \<le> n \<and> n \<le> 70 then Some (n - 55) else None)"

definition read_hex :: "string \<Rightarrow> int" where
  "read_hex s = fold (\<lambda>c n. case hex_val c of Some d \<Rightarrow> 16 * n + d | None \<Rightarrow> n) s 0"

definition parse_octet :: "string \<Rightarrow> int option" where
  "parse_octet s = (if 1 < length s \<and> hd s = CHR ''0'' then None else
     case read_digits s of Some n \<Rightarrow> if int n \<le> 255 then Some (int n) else None | None \<Rightarrow> None)"

definition parse_ipv4 :: "string \<Rightarrow> ip option" where
  "parse_ipv4 s =
     (case map parse_octet (split_on CHR ''.'' s) of
        [Some a, Some b, Some c, Some d] \<Rightarrow> Some [0, 0, 0, 0, 0, 65535, 256 * a + b, 256 * c + d]
      | _ \<Rightarrow> None)"

text \<open>The end of the IPv6 parser: everything consumed, and a double colon stands for at least one
  zero group.\<close>

definition ipv6_finish :: "string \<Rightarrow> int list \<Rightarrow> nat option \<Rightarrow> ip option" where
  "ipv6_finish s acc ell =
     (if s \<noteq> [] then None
      else if length acc < 8 then
        (case ell of None \<Rightarrow> None
         | Some e \<Rightarrow> Some (take e acc @ replicate (8 - length acc) 0 @ drop e acc))
      else if ell \<noteq> None then None else Some acc)"

primrec ipv6_groups :: "nat \<Rightarrow> string \<Rightarrow> int list \<Rightarrow> nat option \<Rightarrow> ip option" where
  "ipv6_groups 0 s acc ell = ipv6_finish s acc ell"
| "ipv6_groups (Suc k) s acc ell =
     (let hex = takeWhile (\<lambda>c. hex_val c \<noteq> None) s; rest = drop (length hex) s
      in if hex = [] \<or> 4 < length hex then None
         else if rest \<noteq> [] \<and> hd rest = CHR ''.'' then
           (if ell = None \<and> length acc \<noteq> 6 \<or> 8 < length acc + 2 then None
            else case parse_ipv4 s of
                   None \<Rightarrow> None
                 | Some g \<Rightarrow> ipv6_finish [] (acc @ drop 6 g) ell)
         else
           (let acc = acc @ [read_hex hex]
            in case rest of
                 [] \<Rightarrow> ipv6_finish [] acc ell
               | c # s' \<Rightarrow>
                   if c \<noteq> CHR '':'' \<or> s' = [] then None
                   else if hd s' = CHR '':'' then
                     (if ell \<noteq> None then None
                      else if tl s' = [] then ipv6_finish [] acc (Some (length acc))
                      else ipv6_groups k (tl s') acc (Some (length acc)))
                   else ipv6_groups k s' acc ell))"

definition parse_ipv6 :: "string \<Rightarrow> ip option" where
  "parse_ipv6 s =
     (if has_prefix s ''::'' then
        (if drop 2 s = [] then Some (replicate 8 0) else ipv6_groups 8 (drop 2 s) [] (Some 0))
      else ipv6_groups 8 s [] None)"

definition ParseIP :: "string \<Rightarrow> ip option" where
  "ParseIP s =
     (case find (\<lambda>c. c \<in> set [CHR ''.'', CHR '':'', CHR ''%'']) s of
        Some c \<Rightarrow>
          if c = CHR ''.'' then parse_ipv4 s
          else if c = CHR '':'' then (if CHR ''%'' \<in> set s then None else parse_ipv6 s)
          else None
      | None \<Rightarrow> None)"

definition To4 :: "ip \<Rightarrow> bool" where
  "To4 g \<longleftrightarrow> take 6 g = [0, 0, 0, 0, 0, 65535]"

definition hex_char :: "int \<Rightarrow> char" where
  "hex_char d = char_of (if d < 10 then 48 + d else 87 + d)"

function show_hex :: "int \<Rightarrow> string" where
  "show_hex n = (if n < 16 then [hex_char n] else show_hex (n div 16) @ [hex_char (n mod 16)])"
  by pat_completeness auto
termination by (relation "measure nat") auto

declare show_hex.simps [simp del]

text \<open>The leftmost longest run of at least two zero groups, as a start and an end.\<close>

definition zero_run :: "ip \<Rightarrow> (nat \<times> nat) option" where
  "zero_run g = fold (\<lambda>i best.
     let l = length (takeWhile (\<lambda>x. x = 0) (drop i g))
     in if 2 \<le> l \<and> (case best of None \<Rightarrow> True | Some (a, b) \<Rightarrow> b - a < l) then Some (i, i + l) else best)
     [0..<8] None"

definition ip_string :: "ip \<Rightarrow> string" where
  "ip_string g =
     (if To4 g then
        join ''.'' (map itoa [g ! 6 div 256, g ! 6 mod 256, g ! 7 div 256, g ! 7 mod 256])
      else case zero_run g of
        None \<Rightarrow> join '':'' (map show_hex g)
      | Some (a, b) \<Rightarrow> join '':'' (map show_hex (take a g)) @ ''::'' @ join '':'' (map show_hex (drop b g)))"

end
