(* ===== verification/Nodemap.thy ===== *)
theory Nodemap
  imports Api_Types Go_Strings
begin

text \<open>
  \<^verbatim>\<open>internal/nodemap\<close>: the fold of the MiroirNode resources into the placement map, the
  address-conflict rule across nodes, pool lookup, the one spare-picking policy that tie-breaker
  placement and auto-evict share, and the resolution of replication addresses. The read of a
  core Node object is an argument: it answers with the object or an API error.
\<close>

section \<open>The map\<close>

record Pool =
  pool_backend :: BackendType
  pool_device :: string
  pool_zfsDataset :: string
  pool_zfsVolBlockSize :: string
  pool_zfsCompression :: string
  pool_thinPoolSize :: string
  pool_baseDir :: string

definition zero_pool :: Pool where
  "zero_pool = \<lparr>pool_backend = BackendUnset, pool_device = '''', pool_zfsDataset = '''',
     pool_zfsVolBlockSize = '''', pool_zfsCompression = '''', pool_thinPoolSize = '''',
     pool_baseDir = ''''\<rparr>"

record Node =
  nd_zone :: string
  nd_address :: string
  nd_autoEvict :: "bool option"
  nd_addressConflict :: bool
  nd_pools :: "Pool gomap"

definition zero_node :: Node where
  "zero_node = \<lparr>nd_zone = '''', nd_address = '''', nd_autoEvict = None,
     nd_addressConflict = False, nd_pools = []\<rparr>"

type_synonym nodemap = "Node gomap"

text \<open>\<^verbatim>\<open>m[name]\<close> in Go: the zero node where the name is absent.\<close>

definition node_at :: "nodemap \<Rightarrow> string \<Rightarrow> Node" where
  "node_at m n = (case map_of m n of Some nd \<Rightarrow> nd | None \<Rightarrow> zero_node)"

definition pool_of_block :: "MiroirNodePool \<Rightarrow> Pool option" where
  "pool_of_block p =
     (case np_lvmthin p of
        Some l \<Rightarrow> Some (zero_pool\<lparr>pool_backend := BackendLVMThin, pool_device := lvm_device l,
                      pool_thinPoolSize := lvm_poolSize l\<rparr>)
      | None \<Rightarrow>
     (case np_zfs p of
        Some z \<Rightarrow> Some (zero_pool\<lparr>pool_backend := BackendZFS, pool_zfsDataset := zfs_dataset z,
                      pool_zfsCompression := zfs_compression z,
                      pool_zfsVolBlockSize := zfs_volBlockSize z\<rparr>)
      | None \<Rightarrow>
     (case np_loopfile p of
        Some l \<Rightarrow> Some (zero_pool\<lparr>pool_backend := BackendLoopfile, pool_baseDir := loop_baseDir l\<rparr>)
      | None \<Rightarrow> None)))"

definition FromSpec :: "MiroirNodeSpec \<Rightarrow> Node" where
  "FromSpec s =
     \<lparr>nd_zone = ns_zone s, nd_address = ns_address s, nd_autoEvict = ns_autoEvict s,
      nd_addressConflict = False,
      nd_pools = foldl (\<lambda>ps p. case pool_of_block p of
                     Some pool \<Rightarrow> AList.update (np_name p) pool ps
                   | None \<Rightarrow> ps) [] (ns_pools s)\<rparr>"

definition ConflictKey :: "string \<Rightarrow> string" where
  "ConflictKey address = (case ParseIP address of Some ip \<Rightarrow> ip_string ip | None \<Rightarrow> address)"

text \<open>The two passes of \<^verbatim>\<open>FromNodes\<close>: collect the nodes and the owners of every address key, then
  mark the nodes of every key with two owners or more.\<close>

definition add_owner :: "string \<Rightarrow> string \<Rightarrow> string list gomap \<Rightarrow> string list gomap" where
  "add_owner key name owners =
     AList.update key ((case map_of owners key of Some ns \<Rightarrow> ns | None \<Rightarrow> []) @ [name]) owners"

definition collect_node ::
    "nodemap \<times> string list gomap \<Rightarrow> MiroirNode \<Rightarrow> nodemap \<times> string list gomap" where
  "collect_node = (\<lambda>(m, owners) item.
     let node = FromSpec (mn_spec item); key = ConflictKey (nd_address node)
     in (AList.update (mn_name item) node m,
         if key \<noteq> '''' then add_owner key (mn_name item) owners else owners))"

definition mark_conflict :: "nodemap \<Rightarrow> string \<Rightarrow> nodemap" where
  "mark_conflict m name = AList.update name ((node_at m name)\<lparr>nd_addressConflict := True\<rparr>) m"

definition FromNodes :: "MiroirNode list \<Rightarrow> nodemap" where
  "FromNodes items =
     (let (m, owners) = foldl collect_node ([], []) items
      in foldl (\<lambda>m (key, names). if length names < 2 then m else foldl mark_conflict m names)
           m owners)"

section \<open>Lookups\<close>

definition PoolOrDefault :: "string \<Rightarrow> string" where
  "PoolOrDefault pool = (if pool = '''' then DefaultPoolName else pool)"

definition map_Pool :: "nodemap \<Rightarrow> string \<Rightarrow> string \<Rightarrow> Pool option" where
  "map_Pool m node pool = map_of (nd_pools (node_at m node)) (PoolOrDefault pool)"

definition Placeable :: "nodemap \<Rightarrow> string \<Rightarrow> bool" where
  "Placeable m node = (case map_of m node of Some n \<Rightarrow> \<not> nd_addressConflict n | None \<Rightarrow> False)"

definition AutoEvictAllowed :: "nodemap \<Rightarrow> string \<Rightarrow> bool" where
  "AutoEvictAllowed m node =
     (case map_of m node of
        Some n \<Rightarrow> (case nd_autoEvict n of None \<Rightarrow> True | Some b \<Rightarrow> b)
      | None \<Rightarrow> False)"

definition zfsVolBlockSizes :: "int gomap" where
  "zfsVolBlockSizes = [(''4K'', 4096), (''8K'', 8192), (''16K'', 16384), (''32K'', 32768),
     (''64K'', 65536), (''128K'', 131072)]"

definition ZFSVolBlockSizeBytes :: "Pool \<Rightarrow> int" where
  "ZFSVolBlockSizeBytes p =
     (let k = (if pool_zfsVolBlockSize p = '''' then ''4K'' else pool_zfsVolBlockSize p)
      in case map_of zfsVolBlockSizes k of Some n \<Rightarrow> n | None \<Rightarrow> 0)"

section \<open>Spare nodes\<close>

text \<open>\<^verbatim>\<open>usedNodes\<close> and \<^verbatim>\<open>usedZones\<close> are Go sets (maps to bool); a nil \<^verbatim>\<open>keep\<close> is the constant
  true. The empty string is the answer ``no node''.\<close>

definition PickSpare :: "nodemap \<Rightarrow> string list \<Rightarrow> string list \<Rightarrow> (string \<Rightarrow> bool) \<Rightarrow> string" where
  "PickSpare m usedNodes usedZones keep =
     (let spare = sort (filter (\<lambda>n. n \<notin> set usedNodes \<and> Placeable m n \<and> keep n) (map fst m))
      in case find (\<lambda>n. let z = nd_zone (node_at m n) in z = '''' \<or> z \<notin> set usedZones) spare of
           Some n \<Rightarrow> n
         | None \<Rightarrow> (case spare of n # _ \<Rightarrow> n | [] \<Rightarrow> ''''))"

definition TieBreakerNode :: "nodemap \<Rightarrow> Replica list \<Rightarrow> string" where
  "TieBreakerNode m reps =
     PickSpare m (map r_node reps)
       (filter (\<lambda>z. z \<noteq> '''') (map (\<lambda>r. nd_zone (node_at m (r_node r))) reps)) (\<lambda>_. True)"

section \<open>Replication addresses\<close>

datatype addr_error = ErrAddressConflict | GetNodeError api_error | NoInternalIP

definition ReplicationAddress ::
    "nodemap \<Rightarrow> (string \<Rightarrow> api_error + KNode) \<Rightarrow> string \<Rightarrow> addr_error + string" where
  "ReplicationAddress m getNode name =
     (if nd_addressConflict (node_at m name) then Inl ErrAddressConflict
      else if nd_address (node_at m name) \<noteq> '''' then Inr (nd_address (node_at m name))
      else case getNode name of
             Inl e \<Rightarrow> Inl (GetNodeError e)
           | Inr node \<Rightarrow>
               (case find (\<lambda>a. fst a = ''InternalIP'') (kn_addresses node) of
                  Some a \<Rightarrow> Inr (snd a)
                | None \<Rightarrow> Inl NoInternalIP))"

section \<open>The fold of the topology\<close>

definition item_key :: "MiroirNode \<Rightarrow> string" where
  "item_key i = ConflictKey (ns_address (mn_spec i))"

definition owner_names :: "MiroirNode list \<Rightarrow> string \<Rightarrow> string list" where
  "owner_names items k = map mn_name (filter (\<lambda>i. item_key i = k) items)"

text \<open>Two nodes conflict when they name the same endpoint, however it is spelled.\<close>

definition conflicted :: "MiroirNode list \<Rightarrow> MiroirNode \<Rightarrow> bool" where
  "conflicted items i \<longleftrightarrow> item_key i \<noteq> '''' \<and>
     (\<exists>j\<in>set items. mn_name j \<noteq> mn_name i \<and> item_key j = item_key i)"

lemma FromSpec_address [simp]: "nd_address (FromSpec s) = ns_address s"
  by (simp add: FromSpec_def)

lemma FromSpec_no_conflict [simp]: "nd_addressConflict (FromSpec s) = False"
  by (simp add: FromSpec_def)

lemma collect_node_simp:
  "collect_node (m, ow) i =
     (AList.update (mn_name i) (FromSpec (mn_spec i)) m,
      if item_key i \<noteq> [] then add_owner (item_key i) (mn_name i) ow else ow)"
  by (simp add: collect_node_def Let_def item_key_def)

lemma collect_owners:
  "map_of (snd (foldl collect_node ([], []) items)) k =
     (if k = '''' \<or> owner_names items k = [] then None else Some (owner_names items k))"
proof (induction items arbitrary: k rule: rev_induct)
  case Nil
  show ?case by (simp add: owner_names_def)
next
  case (snoc i items)
  obtain m ow where mo: "foldl collect_node ([], []) items = (m, ow)" by fastforce
  have app: "owner_names (items @ [i]) k = owner_names items k @ (if item_key i = k then [mn_name i] else [])"
    by (simp add: owner_names_def)
  have old: "map_of ow k' = (if k' = [] \<or> owner_names items k' = [] then None else Some (owner_names items k'))" for k'
    using snoc mo by simp
  show ?case
    by (cases "item_key i = k"; cases "item_key i = []")
      (simp_all add: mo collect_node_simp add_owner_def app update_conv' old)
qed

lemma collect_owner_keys_distinct:
  "distinct (map fst (snd (foldl collect_node ([], []) items)))"
proof (induction items rule: rev_induct)
  case (snoc i items)
  obtain m ow where mo: "foldl collect_node ([], []) items = (m, ow)" by fastforce
  with snoc show ?case
    by (simp add: collect_node_simp add_owner_def distinct_update)
qed simp

lemma collect_nodes:
  assumes "distinct (map mn_name items)"
  shows "map_of (fst (foldl collect_node ([], []) items)) n =
     map_option (\<lambda>i. FromSpec (mn_spec i)) (find (\<lambda>i. mn_name i = n) items)"
  using assms
proof (induction items rule: rev_induct)
  case (snoc i items)
  obtain m ow where mo: "foldl collect_node ([], []) items = (m, ow)" by fastforce
  have fa: "find P (xs @ [x]) = (case find P xs of Some y \<Rightarrow> Some y | None \<Rightarrow> if P x then Some x else None)"
    for P and xs and x :: MiroirNode
    by (induction xs) auto
  show ?case
  proof (cases "mn_name i = n")
    case True
    with snoc.prems have "find (\<lambda>j. mn_name j = n) items = None"
      by (auto simp: find_None_iff intro: rev_image_eqI)
    with True mo show ?thesis by (simp add: collect_node_simp update_conv' fa)
  next
    case False
    with snoc mo show ?thesis
      by (simp add: collect_node_simp update_conv' fa split: option.split)
  qed
qed simp

lemma map_of_mark_conflicts:
  "set ns \<subseteq> dom (map_of m) \<Longrightarrow> map_of (foldl mark_conflict m ns) n =
     map_option (\<lambda>nd. if n \<in> set ns then nd\<lparr>nd_addressConflict := True\<rparr> else nd) (map_of m n)"
proof (induction ns arbitrary: m)
  case (Cons x ns)
  have m': "map_of (mark_conflict m x) =
      (map_of m)(x \<mapsto> (node_at m x)\<lparr>nd_addressConflict := True\<rparr>)"
    by (simp add: mark_conflict_def update_conv')
  then have "set ns \<subseteq> dom (map_of (mark_conflict m x))"
    using Cons.prems by auto
  note IH = Cons.IH [OF this]
  from Cons.prems obtain nd where "map_of m x = Some nd" by auto
  then show ?case using IH m' by (auto simp: node_at_def)
qed (simp add: option.map_ident)

lemma map_of_mark_owners:
  "(\<And>k names. (k, names) \<in> set ow \<Longrightarrow> set names \<subseteq> dom (map_of m)) \<Longrightarrow>
   map_of (foldl (\<lambda>m (key, names). if length names < 2 then m else foldl mark_conflict m names) m ow) n =
     map_option (\<lambda>nd. if (\<exists>(k, names)\<in>set ow. 2 \<le> length names \<and> n \<in> set names)
        then nd\<lparr>nd_addressConflict := True\<rparr> else nd) (map_of m n)"
proof (induction ow arbitrary: m)
  case (Cons p ow)
  obtain k names where p: "p = (k, names)" by fastforce
  show ?case
  proof (cases "length names < 2")
    case True
    then have "(\<exists>(k, names)\<in>set (p # ow). 2 \<le> length names \<and> n \<in> set names) \<longleftrightarrow>
        (\<exists>(k, names)\<in>set ow. 2 \<le> length names \<and> n \<in> set names)" by (auto simp: p)
    moreover have "\<And>k names. (k, names) \<in> set ow \<Longrightarrow> set names \<subseteq> dom (map_of m)"
      using Cons.prems by auto
    ultimately show ?thesis using True Cons.IH [of m] by (simp add: p)
  next
    case False
    let ?m = "foldl mark_conflict m names"
    have sub: "set names \<subseteq> dom (map_of m)" using Cons.prems p by auto
    note mk = map_of_mark_conflicts [OF sub]
    have "dom (map_of ?m) = dom (map_of m)" by (auto simp: mk)
    with Cons.prems have "\<And>k names. (k, names) \<in> set ow \<Longrightarrow> set names \<subseteq> dom (map_of ?m)"
      by auto
    note IH = Cons.IH [OF this]
    show ?thesis using False by (cases "map_of m n") (auto simp: p IH mk)
  qed
qed (simp add: option.map_ident)

lemma owners_conflicted:
  assumes "distinct (map mn_name items)" and "i \<in> set items"
  shows "(\<exists>k. k \<noteq> '''' \<and> 2 \<le> length (owner_names items k) \<and> mn_name i \<in> set (owner_names items k))
     \<longleftrightarrow> conflicted items i"
proof
  assume "\<exists>k. k \<noteq> '''' \<and> 2 \<le> length (owner_names items k) \<and> mn_name i \<in> set (owner_names items k)"
  then obtain k where k: "k \<noteq> ''''" "2 \<le> length (owner_names items k)"
      "mn_name i \<in> set (owner_names items k)" by auto
  have inj: "inj_on mn_name (set items)" using assms(1) by (simp add: distinct_map)
  from k(3) obtain j where "j \<in> set items" "mn_name j = mn_name i" "item_key j = k"
    by (auto simp: owner_names_def)
  with inj assms(2) have ik: "item_key i = k" by (metis inj_onD)
  have "distinct (owner_names items k)"
    using assms(1) inj by (auto simp: owner_names_def distinct_map intro: inj_on_subset)
  then have card: "card (set (owner_names items k)) = length (owner_names items k)"
    by (rule distinct_card)
  have "set (owner_names items k) \<noteq> {mn_name i}"
  proof
    assume "set (owner_names items k) = {mn_name i}"
    with card k(2) show False by simp
  qed
  with k(3) obtain n where n: "n \<in> set (owner_names items k)" "n \<noteq> mn_name i" by blast
  then obtain j where "j \<in> set items" "mn_name j = n" "item_key j = k"
    unfolding owner_names_def by auto
  with k(1) ik n(2) show "conflicted items i" unfolding conflicted_def by blast
next
  assume "conflicted items i"
  then obtain j where j: "item_key i \<noteq> ''''" "j \<in> set items" "mn_name j \<noteq> mn_name i"
      "item_key j = item_key i" unfolding conflicted_def by blast
  let ?ns = "owner_names items (item_key i)"
  have "{mn_name i, mn_name j} \<subseteq> set ?ns"
    using j assms(2) unfolding owner_names_def by simp
  then have "card {mn_name i, mn_name j} \<le> card (set ?ns)"
    by (intro card_mono) auto
  also have "\<dots> \<le> length ?ns" by (rule card_length)
  finally have "2 \<le> length ?ns" using j(3) by simp
  with j(1) \<open>{mn_name i, mn_name j} \<subseteq> set ?ns\<close>
  show "\<exists>k. k \<noteq> '''' \<and> 2 \<le> length (owner_names items k) \<and> mn_name i \<in> set (owner_names items k)"
    by blast
qed

lemma FromNodes_lookup:
  assumes dist: "distinct (map mn_name items)"
  shows "map_of (FromNodes items) n =
     map_option (\<lambda>i. (FromSpec (mn_spec i))\<lparr>nd_addressConflict := conflicted items i\<rparr>)
       (find (\<lambda>i. mn_name i = n) items)"
proof -
  obtain m ow where mo: "foldl collect_node ([], []) items = (m, ow)" by fastforce
  have m: "map_of m n = map_option (\<lambda>i. FromSpec (mn_spec i)) (find (\<lambda>i. mn_name i = n) items)" for n
    using collect_nodes [OF dist] mo by simp
  have mem: "(k, names) \<in> set ow \<longleftrightarrow> k \<noteq> '''' \<and> names \<noteq> [] \<and> names = owner_names items k" for k names
  proof -
    have "(k, names) \<in> set ow \<longleftrightarrow> map_of ow k = Some names"
      using collect_owner_keys_distinct [of items] mo by simp
    also have "map_of ow k = (if k = [] \<or> owner_names items k = [] then None else Some (owner_names items k))"
      using collect_owners [of items k] mo by simp
    finally show ?thesis by (auto split: if_splits)
  qed
  have "map_of (FromNodes items) n =
      map_option (\<lambda>nd. if (\<exists>(k, names)\<in>set ow. 2 \<le> length names \<and> n \<in> set names)
        then nd\<lparr>nd_addressConflict := True\<rparr> else nd) (map_of m n)"
    unfolding FromNodes_def mo Let_def prod.case
  proof (rule map_of_mark_owners)
    fix k names
    assume "(k, names) \<in> set ow"
    then have "names = owner_names items k" by (simp add: mem)
    then show "set names \<subseteq> dom (map_of m)"
      by (auto simp: m owner_names_def intro!: find_exists)
  qed
  also have "(\<exists>(k, names)\<in>set ow. 2 \<le> length names \<and> n \<in> set names) \<longleftrightarrow>
      (\<exists>k. k \<noteq> '''' \<and> 2 \<le> length (owner_names items k) \<and> n \<in> set (owner_names items k))"
  proof -
    have "(\<exists>(k, names)\<in>set ow. 2 \<le> length names \<and> n \<in> set names) \<longleftrightarrow>
        (\<exists>k names. (k, names) \<in> set ow \<and> 2 \<le> length names \<and> n \<in> set names)" by auto
    then show ?thesis unfolding mem by auto
  qed
  finally have eq: "map_of (FromNodes items) n =
      map_option (\<lambda>nd. if (\<exists>k. k \<noteq> '''' \<and> 2 \<le> length (owner_names items k) \<and> n \<in> set (owner_names items k))
        then nd\<lparr>nd_addressConflict := True\<rparr> else nd) (map_of m n)" .
  show ?thesis
  proof (cases "find (\<lambda>i. mn_name i = n) items")
    case (Some i)
    then have "i \<in> set items" "mn_name i = n" by (auto dest: find_SomeD)
    then show ?thesis
      using eq Some owners_conflicted [OF dist, of i] m by (auto simp: FromSpec_def)
  qed (auto simp: m eq)
qed

text \<open>
  C38. Conflict marking: with unique node names, a node of the folded topology is exactly the
  flattened spec of its resource, and it is marked conflicted, hence excluded from placement,
  exactly when its replication address is set and another node's address canonicalizes to the
  same key.
\<close>

theorem FromNodes_marks_conflicts:
  assumes "distinct (map mn_name items)" and "i \<in> set items"
  shows "map_of (FromNodes items) (mn_name i) =
       Some ((FromSpec (mn_spec i))\<lparr>nd_addressConflict := conflicted items i\<rparr>) \<and>
     (Placeable (FromNodes items) (mn_name i) \<longleftrightarrow> \<not> conflicted items i)"
proof -
  obtain j where j: "find (\<lambda>j. mn_name j = mn_name i) items = Some j"
    using find_exists [of i items "\<lambda>j. mn_name j = mn_name i"] assms(2) by auto
  then have "j \<in> set items" "mn_name j = mn_name i" by (auto dest: find_SomeD)
  with assms have "j = i" by (meson distinct_map inj_onD)
  with j show ?thesis
    using FromNodes_lookup [OF assms(1), of "mn_name i"] by (simp add: Placeable_def)
qed

definition example_node :: "string \<Rightarrow> string \<Rightarrow> MiroirNode" where
  "example_node name addr = \<lparr>mn_name = name, mn_labels = [],
     mn_spec = \<lparr>ns_zone = '''', ns_address = addr, ns_autoEvict = None, ns_pools = []\<rparr>,
     mn_status = \<lparr>mns_pools = [], mns_observedAt = None, mns_conditions = []\<rparr>\<rparr>"

theorem FromNodes_marks_conflicts_witness:
  "\<not> Placeable (FromNodes [example_node ''a'' ''fd00::1'', example_node ''b'' ''fd00:0:0:0:0:0:0:1'']) ''a''"
proof -
  let ?items = "[example_node ''a'' ''fd00::1'', example_node ''b'' ''fd00:0:0:0:0:0:0:1'']"
  have d: "distinct (map mn_name ?items)" by (simp add: example_node_def)
  have k: "ConflictKey ''fd00::1'' = ''fd00::1''" by code_simp
  have k': "ConflictKey ''fd00:0:0:0:0:0:0:1'' = ''fd00::1''" by code_simp
  have "conflicted ?items (example_node ''a'' ''fd00::1'')"
    by (simp add: conflicted_def item_key_def example_node_def k k')
  then show ?thesis
    using FromNodes_marks_conflicts [OF d, of "example_node ''a'' ''fd00::1''"]
    by (simp add: example_node_def)
qed

section \<open>The spare-picking policy\<close>

text \<open>
  What the callers of \<^const>\<open>PickSpare\<close> rely on. A node qualifies when it is eligible, unused and
  passes the caller's filter; the pick is the least node in the order that puts a free zone first
  and the name second. The empty name stands for no pick.
\<close>

locale spare_policy =
  fixes eligible :: "string \<Rightarrow> bool"
    and zone_of :: "string \<Rightarrow> string"
    and pick :: "string list \<Rightarrow> string list \<Rightarrow> (string \<Rightarrow> bool) \<Rightarrow> string"
  assumes pick_sound:
      "pick used zones keep \<noteq> [] \<Longrightarrow> eligible (pick used zones keep) \<and>
         pick used zones keep \<notin> set used \<and> keep (pick used zones keep)"
    and pick_prefers:
      "pick used zones keep \<noteq> [] \<Longrightarrow> eligible n \<Longrightarrow> n \<notin> set used \<Longrightarrow> keep n \<Longrightarrow>
         zone_of n = [] \<or> zone_of n \<notin> set zones \<Longrightarrow>
         (zone_of (pick used zones keep) = [] \<or> zone_of (pick used zones keep) \<notin> set zones) \<and>
         pick used zones keep \<le> n"
begin

text \<open>A pick in a taken zone means every qualifying node is in one.\<close>

lemma pick_taken_zone:
  assumes "pick used zones keep \<noteq> []" and "zone_of (pick used zones keep) \<noteq> []"
    and "zone_of (pick used zones keep) \<in> set zones"
    and "eligible n" and "n \<notin> set used" and "keep n"
  shows "zone_of n \<in> set zones"
  using pick_prefers [of used zones keep n] assms by auto

lemma pick_unused: "pick used zones keep \<noteq> [] \<Longrightarrow> pick used zones keep \<notin> set used"
  using pick_sound by blast

end

lemma find_sorted_least:
  "sorted xs \<Longrightarrow> find P xs = Some x \<Longrightarrow> y \<in> set xs \<Longrightarrow> P y \<Longrightarrow> x \<le> y"
  by (induction xs) (auto split: if_splits)

lemma Placeable_key: "Placeable m n \<Longrightarrow> n \<in> set (map fst m)"
  by (auto simp: Placeable_def split: option.splits dest!: map_of_SomeD intro: rev_image_eqI)

definition spare_names :: "nodemap \<Rightarrow> string list \<Rightarrow> (string \<Rightarrow> bool) \<Rightarrow> string list" where
  "spare_names m used keep = sort (filter (\<lambda>n. n \<notin> set used \<and> Placeable m n \<and> keep n) (map fst m))"

definition free_zone :: "nodemap \<Rightarrow> string list \<Rightarrow> string \<Rightarrow> bool" where
  "free_zone m zones n \<longleftrightarrow> nd_zone (node_at m n) = [] \<or> nd_zone (node_at m n) \<notin> set zones"

lemma spare_names_set: "n \<in> set (spare_names m used keep) \<longleftrightarrow> Placeable m n \<and> n \<notin> set used \<and> keep n"
  using Placeable_key [of m n] by (auto simp: spare_names_def)

lemma sorted_spare_names: "sorted (spare_names m used keep)"
  by (simp add: spare_names_def)

lemma PickSpare_eq:
  "PickSpare m used zones keep =
    (case find (free_zone m zones) (spare_names m used keep) of
       Some n \<Rightarrow> n | None \<Rightarrow> (case spare_names m used keep of n # _ \<Rightarrow> n | [] \<Rightarrow> []))"
proof -
  have "(\<lambda>n. let z = nd_zone (node_at m n) in z = [] \<or> z \<notin> set zones) = free_zone m zones"
    by (simp add: fun_eq_iff free_zone_def Let_def)
  then show ?thesis by (simp only: PickSpare_def spare_names_def Let_def)
qed

lemma PickSpare_in:
  "PickSpare m used zones keep \<in> set (spare_names m used keep) \<or>
   PickSpare m used zones keep = [] \<and> spare_names m used keep = []"
proof (cases "find (free_zone m zones) (spare_names m used keep)")
  case None
  then show ?thesis
    by (cases "spare_names m used keep") (simp_all add: PickSpare_eq)
next
  case (Some n)
  then show ?thesis using find_SomeD [OF Some] by (simp add: PickSpare_eq)
qed

lemma PickSpare_member:
  assumes "PickSpare m used zones keep \<noteq> []"
  shows "Placeable m (PickSpare m used zones keep) \<and> PickSpare m used zones keep \<notin> set used \<and>
    keep (PickSpare m used zones keep)"
  using PickSpare_in [of m used zones keep] assms by (simp add: spare_names_set)

lemma PickSpare_free_zone:
  assumes "Placeable m n" "n \<notin> set used" "keep n" and "free_zone m zones n"
  shows "free_zone m zones (PickSpare m used zones keep) \<and> PickSpare m used zones keep \<le> n"
proof -
  have n: "n \<in> set (spare_names m used keep)" using assms by (simp add: spare_names_set)
  with assms(4) obtain x where x: "find (free_zone m zones) (spare_names m used keep) = Some x"
    using find_exists by metis
  then have "PickSpare m used zones keep = x" by (simp add: PickSpare_eq)
  moreover have "x \<le> n" by (rule find_sorted_least [OF sorted_spare_names x n assms(4)])
  ultimately show ?thesis using find_SomeD [OF x] by simp
qed

interpretation spare: spare_policy "Placeable m" "\<lambda>n. nd_zone (node_at m n)" "PickSpare m" for m
  using PickSpare_member PickSpare_free_zone [unfolded free_zone_def] by unfold_locales blast+

lemma PickSpare_complete:
  assumes "[] \<notin> set (map fst m)"
  shows "PickSpare m used zones keep = [] \<longleftrightarrow> \<not> (\<exists>n. Placeable m n \<and> n \<notin> set used \<and> keep n)"
proof -
  have "[] \<notin> set (spare_names m used keep)"
    using assms Placeable_key [of m "[]"] by (auto simp: spare_names_set)
  then have "PickSpare m used zones keep = [] \<longleftrightarrow> spare_names m used keep = []"
    using PickSpare_in [of m used zones keep] by auto
  also have "\<dots> \<longleftrightarrow> set (spare_names m used keep) = {}" by simp
  also have "\<dots> \<longleftrightarrow> \<not> (\<exists>n. Placeable m n \<and> n \<notin> set used \<and> keep n)"
    unfolding set_eq_iff spare_names_set by blast
  finally show ?thesis .
qed

definition leg_zones :: "nodemap \<Rightarrow> Replica list \<Rightarrow> string set" where
  "leg_zones m reps = set (filter (\<lambda>z. z \<noteq> []) (map (\<lambda>r. nd_zone (node_at m (r_node r))) reps))"

lemma tie_breaker_spare:
  assumes "[] \<notin> set (map fst m)"
  shows "(TieBreakerNode m reps = [] \<longleftrightarrow> (\<forall>n. Placeable m n \<longrightarrow> n \<in> set (map r_node reps))) \<and>
    (TieBreakerNode m reps \<noteq> [] \<longrightarrow>
      Placeable m (TieBreakerNode m reps) \<and> TieBreakerNode m reps \<notin> set (map r_node reps))"
  unfolding TieBreakerNode_def
  using PickSpare_complete [OF assms, of "map r_node reps" _ "\<lambda>_. True"]
    PickSpare_member [of m "map r_node reps" _ "\<lambda>_. True"] by auto


definition example_topology :: nodemap where
  "example_topology =
     [(''c'', zero_node\<lparr>nd_zone := ''z1''\<rparr>), (''a'', zero_node\<lparr>nd_zone := ''z1''\<rparr>),
      (''b'', zero_node\<lparr>nd_zone := ''z2''\<rparr>), (''d'', zero_node\<lparr>nd_zone := ''z3''\<rparr>)]"


text \<open>Go iterates over the map in any order: the pick does not depend on it.\<close>

lemma PickSpare_order_independent:
  assumes "gomap_ok m" and "gomap_ok m'" and "map_of m = map_of m'"
  shows "PickSpare m used zones keep = PickSpare m' used zones keep"
proof -
  have p: "Placeable m = Placeable m'" and a: "node_at m = node_at m'"
    by (auto simp: Placeable_def node_at_def assms(3) fun_eq_iff)
  have "set (map fst m) = set (map fst m')"
    using arg_cong [OF assms(3), of dom] by (simp add: dom_map_of_conv_image_fst)
  then have "sort (filter (\<lambda>n. n \<notin> set used \<and> Placeable m' n \<and> keep n) (map fst m)) =
      sort (filter (\<lambda>n. n \<notin> set used \<and> Placeable m' n \<and> keep n) (map fst m'))"
    using assms(1,2) by (intro sort_set_cong) (auto simp: gomap_ok_def)
  then show ?thesis by (simp add: PickSpare_def p a)
qed

end
