(* ===== verification/Volume_Admission.thy ===== *)
theory Volume_Admission
  imports Api_Types
begin

text \<open>
  What the API server admits for a MiroirVolume: the schema limits of the fields and the CEL
  rules of \<^verbatim>\<open>MiroirVolumeSpec\<close>, one definition per rule. A rule that mentions \<open>oldSelf\<close> is
  checked on updates only. The controllers never see a spec that breaks these rules, and a write
  that would break one is refused; that the controllers' own writes are never refused is proved
  in the component theories.
\<close>

section \<open>Schema limits\<close>

definition schema_drbd :: "DRBDSpec \<Rightarrow> bool" where
  "schema_drbd d \<longleftrightarrow> 1024 \<le> d_port d \<and> d_port d \<le> 65535 \<and> length (d_sharedSecret d) \<le> 64 \<and>
     d_bitmapGranularityBytes d \<in> set [0, 4096, 8192, 16384, 32768, 65536, 131072, 262144, 524288, 1048576]"

definition schema_export :: "ExportSpec \<Rightarrow> bool" where
  "schema_export e \<longleftrightarrow> e_fsType e \<in> set [''ext4'', ''xfs'']"

definition schema_spec :: "MiroirVolumeSpec \<Rightarrow> bool" where
  "schema_spec s \<longleftrightarrow> 1 \<le> sizeBytes s \<and>
     1 \<le> length (replicas s) \<and> length (replicas s) \<le> 3 \<and> length (clients s) \<le> 2 \<and>
     (case drbd s of None \<Rightarrow> True | Some d \<Rightarrow> schema_drbd d) \<and>
     (case export s of None \<Rightarrow> True | Some e \<Rightarrow> schema_export e)"

section \<open>CEL rules\<close>

definition has_drbd :: "MiroirVolumeSpec \<Rightarrow> bool" where
  "has_drbd s \<longleftrightarrow> drbd s \<noteq> None"

definition cel_pool :: "Replica \<Rightarrow> string" where
  "cel_pool r = (if r_pool r \<noteq> '''' then r_pool r else ''default'')"

definition rule_replica_count :: "MiroirVolumeSpec \<Rightarrow> bool" where
  "rule_replica_count s \<longleftrightarrow>
     (if has_drbd s then 2 \<le> length (replicas s) \<and> length (replicas s) \<le> 3
      else length (replicas s) = 1)"

definition rule_two_diskful :: "MiroirVolumeSpec \<Rightarrow> bool" where
  "rule_two_diskful s \<longleftrightarrow>
     (if has_drbd s then 2 \<le> length (filter (\<lambda>r. \<not> r_diskless r) (replicas s)) else True)"

definition rule_diskless_needs_drbd :: "MiroirVolumeSpec \<Rightarrow> bool" where
  "rule_diskless_needs_drbd s \<longleftrightarrow>
     (if \<not> has_drbd s then \<not> list_ex r_diskless (replicas s) else True)"

definition rule_first_diskful :: "MiroirVolumeSpec \<Rightarrow> bool" where
  "rule_first_diskful s \<longleftrightarrow> (case replicas s of [] \<Rightarrow> True | r # _ \<Rightarrow> \<not> r_diskless r)"

definition rule_no_disk_loss :: "MiroirVolumeSpec \<Rightarrow> MiroirVolumeSpec \<Rightarrow> bool" where
  "rule_no_disk_loss old s \<longleftrightarrow>
     list_all (\<lambda>r. list_all (\<lambda>o'. r_node o' \<noteq> r_node r \<or> r_diskless o' \<or> \<not> r_diskless r)
       (replicas old)) (replicas s)"

definition rule_pool_immutable :: "MiroirVolumeSpec \<Rightarrow> MiroirVolumeSpec \<Rightarrow> bool" where
  "rule_pool_immutable old s \<longleftrightarrow>
     list_all (\<lambda>r. list_all (\<lambda>o'. r_node o' \<noteq> r_node r \<or> r_diskless o' \<or> r_address o' = '''' \<or>
         cel_pool o' = cel_pool r)
       (replicas old)) (replicas s)"

definition rule_pool_uniform :: "MiroirVolumeSpec \<Rightarrow> bool" where
  "rule_pool_uniform s \<longleftrightarrow>
     list_all (\<lambda>r. r_diskless r \<or> r_address r = '''' \<or>
       list_all (\<lambda>o'. r_diskless o' \<or> r_address o' = '''' \<or> cel_pool r = cel_pool o')
         (replicas s)) (replicas s)"

definition rule_drbd_kept :: "MiroirVolumeSpec \<Rightarrow> MiroirVolumeSpec \<Rightarrow> bool" where
  "rule_drbd_kept old s \<longleftrightarrow> has_drbd s = has_drbd old"

definition rule_clients_need_drbd :: "MiroirVolumeSpec \<Rightarrow> bool" where
  "rule_clients_need_drbd s \<longleftrightarrow> clients s = [] \<or> has_drbd s"

definition rule_client_off_replica :: "MiroirVolumeSpec \<Rightarrow> bool" where
  "rule_client_off_replica s \<longleftrightarrow>
     list_all (\<lambda>c. \<not> list_ex (\<lambda>r. r_node r = c_node c) (replicas s)) (clients s)"

definition rule_client_xor_export :: "MiroirVolumeSpec \<Rightarrow> bool" where
  "rule_client_xor_export s \<longleftrightarrow> clients s = [] \<or> export s = None"

definition rule_export_kept :: "MiroirVolumeSpec \<Rightarrow> MiroirVolumeSpec \<Rightarrow> bool" where
  "rule_export_kept old s \<longleftrightarrow> (export s \<noteq> None) = (export old \<noteq> None)"

definition rule_export_freeze :: "MiroirVolumeSpec \<Rightarrow> bool" where
  "rule_export_freeze s \<longleftrightarrow> \<not> (export s \<noteq> None \<and> has_drbd s) \<or> quorumPolicy s = QuorumFreeze"

definition rule_replica_nodes_unique :: "MiroirVolumeSpec \<Rightarrow> bool" where
  "rule_replica_nodes_unique s \<longleftrightarrow>
     list_all (\<lambda>r. length (filter (\<lambda>o'. r_node o' = r_node r) (replicas s)) = 1) (replicas s)"

definition rule_client_nodes_unique :: "MiroirVolumeSpec \<Rightarrow> bool" where
  "rule_client_nodes_unique s \<longleftrightarrow>
     list_all (\<lambda>c. length (filter (\<lambda>o'. c_node o' = c_node c) (clients s)) = 1) (clients s)"

definition rule_port_immutable :: "MiroirVolumeSpec \<Rightarrow> MiroirVolumeSpec \<Rightarrow> bool" where
  "rule_port_immutable old s \<longleftrightarrow>
     (case (drbd s, drbd old) of (Some d, Some d') \<Rightarrow> d_port d = d_port d' | _ \<Rightarrow> True)"

definition rule_source_immutable :: "MiroirVolumeSpec \<Rightarrow> MiroirVolumeSpec \<Rightarrow> bool" where
  "rule_source_immutable old s \<longleftrightarrow>
     (case (source s, source old) of
        (Some a, Some b) \<Rightarrow> src_snapshotName a = src_snapshotName b \<and>
           src_padForMetadata a = src_padForMetadata b
      | (None, None) \<Rightarrow> True
      | _ \<Rightarrow> False)"

definition rule_fsType_immutable :: "MiroirVolumeSpec \<Rightarrow> MiroirVolumeSpec \<Rightarrow> bool" where
  "rule_fsType_immutable old s \<longleftrightarrow>
     (case (export s, export old) of (Some a, Some b) \<Rightarrow> e_fsType a = e_fsType b | _ \<Rightarrow> True)"

definition rule_size_monotone :: "MiroirVolumeSpec \<Rightarrow> MiroirVolumeSpec \<Rightarrow> bool" where
  "rule_size_monotone old s \<longleftrightarrow> sizeBytes old \<le> sizeBytes s"

text \<open>The rules over one version of the spec, and over a version and its predecessor.\<close>

definition admit_create :: "MiroirVolumeSpec \<Rightarrow> bool" where
  "admit_create s \<longleftrightarrow> schema_spec s \<and> rule_replica_count s \<and> rule_two_diskful s \<and>
     rule_diskless_needs_drbd s \<and> rule_first_diskful s \<and> rule_pool_uniform s \<and>
     rule_clients_need_drbd s \<and> rule_client_off_replica s \<and> rule_client_xor_export s \<and>
     rule_export_freeze s \<and> rule_replica_nodes_unique s \<and> rule_client_nodes_unique s"

definition admit_transition :: "MiroirVolumeSpec \<Rightarrow> MiroirVolumeSpec \<Rightarrow> bool" where
  "admit_transition old s \<longleftrightarrow> rule_no_disk_loss old s \<and> rule_pool_immutable old s \<and>
     rule_drbd_kept old s \<and> rule_export_kept old s \<and> rule_port_immutable old s \<and>
     rule_source_immutable old s \<and> rule_fsType_immutable old s \<and> rule_size_monotone old s"

definition admit_update :: "MiroirVolumeSpec \<Rightarrow> MiroirVolumeSpec \<Rightarrow> bool" where
  "admit_update old s \<longleftrightarrow> admit_create s \<and> admit_transition old s"

section \<open>What the rules say\<close>

lemma exactly_one_iff_distinct:
  "list_all (\<lambda>x. length (filter (\<lambda>y. f y = f x) xs) = 1) xs \<longleftrightarrow> distinct (map f xs)"
proof (induction xs)
  case (Cons a xs)
  show ?case
  proof (cases "f a \<in> f ` set xs")
    case True
    then obtain b where "b \<in> set xs" "f b = f a" by auto
    then have "length (filter (\<lambda>y. f y = f a) xs) \<noteq> 0"
      by (auto simp: filter_empty_conv)
    with True show ?thesis by auto
  next
    case False
    then have "length (filter (\<lambda>y. f y = f a) xs) = 0"
      by (auto simp: filter_empty_conv intro: rev_image_eqI)
    moreover from False have "length (filter (\<lambda>y. f y = f x) (a # xs)) =
        length (filter (\<lambda>y. f y = f x) xs)" if "x \<in> set xs" for x
      using that by (auto intro: rev_image_eqI)
    ultimately show ?thesis using Cons False by (auto simp: list_all_iff)
  qed
qed simp

lemma rule_replica_nodes_unique_iff:
  "rule_replica_nodes_unique s \<longleftrightarrow> distinct (map r_node (replicas s))"
  unfolding rule_replica_nodes_unique_def by (rule exactly_one_iff_distinct)

lemma rule_client_nodes_unique_iff:
  "rule_client_nodes_unique s \<longleftrightarrow> distinct (map c_node (clients s))"
  unfolding rule_client_nodes_unique_def by (rule exactly_one_iff_distinct)

lemmas admit_rule_defs = schema_spec_def rule_replica_count_def rule_two_diskful_def
  rule_diskless_needs_drbd_def rule_first_diskful_def rule_pool_uniform_def
  rule_clients_need_drbd_def rule_client_off_replica_def rule_client_xor_export_def
  rule_export_freeze_def

lemmas transition_rule_defs = rule_no_disk_loss_def rule_pool_immutable_def rule_drbd_kept_def
  rule_export_kept_def rule_port_immutable_def rule_source_immutable_def
  rule_fsType_immutable_def rule_size_monotone_def

text \<open>
  The view of a replicated spec the controllers work with: what \<^const>\<open>admit_create\<close> says about the
  legs of a volume with a DRBD layer, free of the list combinators of the rules.
\<close>

definition pools_agree :: "Replica list \<Rightarrow> bool" where
  "pools_agree rs \<longleftrightarrow>
     (\<forall>r\<in>set rs. \<forall>r'\<in>set rs. \<not> r_diskless r \<longrightarrow> \<not> r_diskless r' \<longrightarrow> r_address r \<noteq> '''' \<longrightarrow>
        r_address r' \<noteq> '''' \<longrightarrow> cel_pool r = cel_pool r')"

definition legs_ok :: "Replica list \<Rightarrow> VolumeClient list \<Rightarrow> bool" where
  "legs_ok rs cs \<longleftrightarrow> 2 \<le> length (filter (\<lambda>r. \<not> r_diskless r) rs) \<and> length rs \<le> 3 \<and>
     \<not> r_diskless (hd rs) \<and> length cs \<le> 2 \<and>
     distinct (map r_node rs @ map c_node cs) \<and> pools_agree rs"

definition frame_ok :: "MiroirVolumeSpec \<Rightarrow> bool" where
  "frame_ok s \<longleftrightarrow> 1 \<le> sizeBytes s \<and> (case drbd s of None \<Rightarrow> True | Some d \<Rightarrow> schema_drbd d) \<and>
     (case export s of None \<Rightarrow> True | Some e \<Rightarrow> schema_export e) \<and> (export s \<noteq> None \<longrightarrow> quorumPolicy s = QuorumFreeze)"

lemma pools_agree_mono: "pools_agree rs \<Longrightarrow> set rs' \<subseteq> set rs \<Longrightarrow> pools_agree rs'"
  unfolding pools_agree_def by blast

lemma pools_agree_passive:
  assumes "pools_agree rs" and "r_diskless t \<or> r_address t = ''''" and "set rs' \<subseteq> insert t (set rs)"
  shows "pools_agree rs'"
  unfolding pools_agree_def using assms unfolding pools_agree_def by blast

lemma admit_create_drbd:
  assumes "has_drbd s"
  shows "admit_create s \<longleftrightarrow> legs_ok (replicas s) (clients s) \<and> frame_ok s \<and>
     (clients s = [] \<or> export s = None)"
proof -
  have len: "2 \<le> length (filter (\<lambda>r. \<not> r_diskless r) rs) \<Longrightarrow> 2 \<le> length rs" for rs
    using length_filter_le [of "\<lambda>r. \<not> r_diskless r" rs] by linarith
  have hd: "rs \<noteq> [] \<Longrightarrow> (case rs of [] \<Rightarrow> True | r # _ \<Rightarrow> \<not> r_diskless r) = (\<not> r_diskless (hd rs))" for rs
    by (cases rs) auto
  show ?thesis
  proof (cases "2 \<le> length (filter (\<lambda>r. \<not> r_diskless r) (replicas s))")
    case True
    then have "2 \<le> length (replicas s)" by (rule len)
    moreover from this have "replicas s \<noteq> []" by auto
    ultimately show ?thesis using assms True hd [of "replicas s"]
      by (auto simp: admit_create_def admit_rule_defs rule_replica_nodes_unique_iff
          rule_client_nodes_unique_iff legs_ok_def pools_agree_def frame_ok_def list_all_iff list_ex_iff)
  next
    case False
    with assms show ?thesis by (auto simp: admit_create_def rule_two_diskful_def legs_ok_def)
  qed
qed

end
