(* ===== verification/Constants.thy ===== *)
theory Constants
  imports Api_Types Go_Strings
begin

text \<open>
  \<^verbatim>\<open>internal/constants\<close>: the names and limits several components share, and the two functions
  that write and read a volume's PVC-reference labels. Durations are nanoseconds.
\<close>

definition StatsStaleAfter :: duration where
  "StatsStaleAfter = 5 * 60 * 10 ^ 9"

definition DriverName :: string where
  "DriverName = ''miroir.home-operations.com''"

definition TopologyKey :: string where
  "TopologyKey = ''miroir.home-operations.com/node''"

definition FinalizerPrefix :: string where
  "FinalizerPrefix = ''miroir.home-operations.com/teardown-''"

definition CloneSnapshotPrefix :: string where
  "CloneSnapshotPrefix = ''clone-''"

definition ParamReplicas :: string where
  "ParamReplicas = ''miroir.home-operations.com/replicas''"

definition ParamQuorum :: string where
  "ParamQuorum = ''miroir.home-operations.com/quorum''"

definition ParamAllowRemoteAccess :: string where
  "ParamAllowRemoteAccess = ''miroir.home-operations.com/allowRemoteVolumeAccess''"

definition ParamBitmapGranularity :: string where
  "ParamBitmapGranularity = ''miroir.home-operations.com/bitmapGranularity''"

definition ParamPool :: string where
  "ParamPool = ''miroir.home-operations.com/pool''"

definition LabelPVCName :: string where
  "LabelPVCName = ''miroir.home-operations.com/pvc-name''"

definition LabelPVCNamespace :: string where
  "LabelPVCNamespace = ''miroir.home-operations.com/pvc-namespace''"

text \<open>\<^verbatim>\<open>m[k]\<close> on a map of strings: the empty string where the key is absent.\<close>

definition str_at :: "string gomap \<Rightarrow> string \<Rightarrow> string" where
  "str_at m k = (case map_of m k of Some v \<Rightarrow> v | None \<Rightarrow> '''')"

definition PVCRef :: "string \<Rightarrow> string gomap \<Rightarrow> string \<times> string" where
  "PVCRef volumeName ls =
     (let v = str_at ls LabelPVCName
      in if v \<noteq> '''' then (v, str_at ls LabelPVCNamespace) else (volumeName, ''''))"

definition PVCRefLabels :: "string \<Rightarrow> string \<Rightarrow> string gomap option" where
  "PVCRefLabels name namespace =
     (if name = '''' \<or> namespace = '''' \<or> 63 < length name then None
      else Some [(LabelPVCName, name), (LabelPVCNamespace, namespace)])"

text \<open>\<^verbatim>\<open>maps.Copy(dst, src)\<close>.\<close>

definition maps_copy :: "'v gomap \<Rightarrow> 'v gomap \<Rightarrow> 'v gomap" where
  "maps_copy dst src = foldl (\<lambda>m (k, v). AList.update k v m) dst src"

lemma PVCRef_stamped:
  assumes "PVCRefLabels name ns = Some ls"
  shows "PVCRef vol (maps_copy ls0 ls) = (name, ns)"
  using assms
  by (auto simp: PVCRefLabels_def maps_copy_def PVCRef_def str_at_def update_conv'
      LabelPVCName_def LabelPVCNamespace_def split: if_splits)

end
