(* ===== verification/Legs.thy ===== *)
theory Legs
  imports Nodemap Volume_Admission Constants "HOL-Library.Multiset"
begin

text \<open>
  The legs of a volume as the membership controllers see them: every replica and every client leg
  is a DRBD peer with a node, an address once it is completed, and a node id. This theory holds
  the predicates and the node-id allocator of \<^verbatim>\<open>internal/membership\<close> that all four reconcilers
  share, and the invariant on node ids that their writes keep.
\<close>

section \<open>Shared helpers of the reconcilers\<close>

definition hasLegOn :: "MiroirVolumeSpec \<Rightarrow> string \<Rightarrow> bool" where
  "hasLegOn s node \<longleftrightarrow> list_ex (\<lambda>r. r_node r = node) (replicas s) \<or> ClientForNode s node \<noteq> None"

definition incompleteChange :: "MiroirVolumeSpec \<Rightarrow> bool" where
  "incompleteChange s \<longleftrightarrow> list_ex (\<lambda>r. r_address r = '''') (replicas s) \<or>
     list_ex (\<lambda>c. c_address c = '''') (clients s)"

definition volumePool :: "MiroirVolumeSpec \<Rightarrow> string" where
  "volumePool s =
     (case find (\<lambda>r. \<not> r_diskless r \<and> r_address r \<noteq> '''') (replicas s) of
        Some r \<Rightarrow> PoolOrDefault (r_pool r)
      | None \<Rightarrow>
     (case FirstDiskfulReplica s of
        Some r \<Rightarrow> PoolOrDefault (r_pool r)
      | None \<Rightarrow> PoolOrDefault ''''))"

text \<open>The reasons of \<^verbatim>\<open>poolRoom\<close>; \<^const>\<open>None\<close> is the empty string, room for a full sync. The
  figures are non-negative 64-bit values, so their difference does not wrap.\<close>

datatype room_reason = NoPoolStats | StaleStats | NoStatsForPool string | InsufficientSpace string

definition poolRoom :: "gotime \<Rightarrow> MiroirNode option \<Rightarrow> string \<Rightarrow> int \<Rightarrow> room_reason option" where
  "poolRoom now mn pool want =
     (case mn of
        None \<Rightarrow> Some NoPoolStats
      | Some n \<Rightarrow>
     (case mns_observedAt (mn_status n) of
        None \<Rightarrow> Some StaleStats
      | Some t \<Rightarrow>
          if StatsStaleAfter < now - t then Some StaleStats
          else (case nodeStatusPool (mn_status n) pool of
                  None \<Rightarrow> Some (NoStatsForPool pool)
                | Some st \<Rightarrow>
                    if ps_capacityBytes st - ps_allocatedBytes st < want
                    then Some (InsufficientSpace pool) else None)))"

text \<open>The bare entries \<^verbatim>\<open>Replica{Node: n}\<close> that stand for the client nodes where a tie-breaker is
  picked.\<close>

definition legs_with_clients :: "MiroirVolumeSpec \<Rightarrow> Replica list" where
  "legs_with_clients s = replicas s @ map (\<lambda>c. bare_replica (c_node c)) (clients s)"

definition convertTieBreaker ::
    "Replica list \<Rightarrow> nat \<Rightarrow> BackendType \<Rightarrow> string \<Rightarrow> Replica list" where
  "convertTieBreaker rs idx backend pool =
     rs[idx := (rs ! idx)\<lparr>r_diskless := False, r_backend := backend, r_pool := pool, r_fullSync := True\<rparr>]"

section \<open>Node ids\<close>

definition used_ids :: "MiroirVolumeSpec \<Rightarrow> string \<Rightarrow> int list" where
  "used_ids s self =
     map r_nodeID (filter (\<lambda>o'. r_node o' \<noteq> self \<and> r_address o' \<noteq> '''') (replicas s)) @
     map c_nodeID (filter (\<lambda>o'. c_node o' \<noteq> self \<and> c_address o' \<noteq> '''') (clients s))"

definition nextNodeID :: "MiroirVolumeSpec \<Rightarrow> string \<Rightarrow> int" where
  "nextNodeID s self = lowest_free (used_ids s self) 0"

interpretation node_ids: number_allocator "\<lambda>(s, self). used_ids s self" 0
  "\<lambda>(s, self). nextNodeID s self"
  by unfold_locales
    (auto simp: nextNodeID_def lowest_free_ge lowest_free_notin intro: lowest_free_least)

text \<open>A leg as a triple of node, node id and address; the ids of the completed legs.\<close>

type_synonym leg = "string \<times> int \<times> string"

definition spec_legs :: "MiroirVolumeSpec \<Rightarrow> leg list" where
  "spec_legs s = map (\<lambda>r. (r_node r, r_nodeID r, r_address r)) (replicas s) @
     map (\<lambda>c. (c_node c, c_nodeID c, c_address c)) (clients s)"

definition completed_ids :: "leg list \<Rightarrow> int list" where
  "completed_ids ls = map (fst \<circ> snd) (filter (\<lambda>l. snd (snd l) \<noteq> '''') ls)"

text \<open>The invariant of the resource configuration: no two completed legs share a DRBD node id,
  and every id is small enough for DRBD's sixteen slots.\<close>

definition ids_ok :: "MiroirVolumeSpec \<Rightarrow> bool" where
  "ids_ok s \<longleftrightarrow> distinct (completed_ids (spec_legs s)) \<and>
     list_all (\<lambda>i. 0 \<le> i \<and> i < 16) (completed_ids (spec_legs s))"

lemma spec_legs_nodes: "map fst (spec_legs s) = map r_node (replicas s) @ map c_node (clients s)"
  by (simp add: spec_legs_def)

lemma used_ids_legs: "used_ids s self = completed_ids (filter (\<lambda>l. fst l \<noteq> self) (spec_legs s))"
  by (simp add: used_ids_def completed_ids_def spec_legs_def filter_map comp_def conj_commute)

lemma completed_ids_split:
  "completed_ids (xs @ ys) = completed_ids xs @ completed_ids ys"
  "completed_ids [] = []"
  "completed_ids (l # ls) = (if snd (snd l) = '''' then [] else [fst (snd l)]) @ completed_ids ls"
  by (auto simp: completed_ids_def)

text \<open>Completing one leg with an id unused by the legs on other nodes keeps the ids distinct.\<close>

lemma completed_ids_update:
  assumes nodes: "distinct (map fst ls)" and i: "i < length ls"
    and dist: "distinct (completed_ids ls)"
    and fresh: "snd l = (d, a)" "fst l = fst (ls ! i)"
    and unused: "d \<notin> set (completed_ids (filter (\<lambda>x. fst x \<noteq> fst l) ls))"
  shows "distinct (completed_ids (ls[i := l]))"
proof -
  let ?pre = "take i ls" and ?post = "drop (Suc i) ls"
  have ls: "ls = ?pre @ ls ! i # ?post" using i by (rule id_take_nth_drop)
  have "distinct (map fst (?pre @ ls ! i # ?post))" using nodes ls by metis
  then have "filter (\<lambda>x. fst x \<noteq> fst (ls ! i)) (?pre @ ls ! i # ?post) = ?pre @ ?post"
    by (simp add: filter_other)
  then have "filter (\<lambda>x. fst x \<noteq> fst l) ls = ?pre @ ?post" using ls fresh(2) by metis
  then have u: "d \<notin> set (completed_ids ?pre) \<and> d \<notin> set (completed_ids ?post)"
    using unused by (simp add: completed_ids_split)
  have "distinct (completed_ids (?pre @ ls ! i # ?post))" using dist ls by metis
  then have "distinct (completed_ids ?pre @ completed_ids ?post)"
    by (auto simp: completed_ids_split)
  then have "distinct (completed_ids (?pre @ l # ?post))"
    using u fresh(1) by (auto simp: completed_ids_split)
  then show ?thesis using i by (simp add: upd_conv_take_nth_drop)
qed

lemma completed_ids_small:
  "length (completed_ids ls) \<le> length ls"
  by (simp add: completed_ids_def)

lemma nextNodeID_fresh:
  "nextNodeID s self \<notin> set (completed_ids (filter (\<lambda>l. fst l \<noteq> self) (spec_legs s)))"
  using node_ids.pick_unused [of "(s, self)"] by (simp add: used_ids_legs)

lemma nextNodeID_bounds: "0 \<le> nextNodeID s self \<and> nextNodeID s self \<le> int (length (spec_legs s))"
proof -
  have "length (used_ids s self) \<le> length (spec_legs s)"
    unfolding used_ids_legs
    using completed_ids_small [of "filter (\<lambda>l. fst l \<noteq> self) (spec_legs s)"]
      length_filter_le [of "\<lambda>l. fst l \<noteq> self" "spec_legs s"] by linarith
  then show ?thesis
    using node_ids.pick_bound [of "(s, self)"] node_ids.pick_ge [of "(s, self)"] by simp
qed

text \<open>Dropping legs, or adding legs without an address, keeps the invariant.\<close>

lemma distinct_mset_le:
  assumes "mset ys \<subseteq># mset xs" and "distinct xs"
  shows "distinct ys"
proof -
  have "count (mset ys) a = (if a \<in> set ys then 1 else 0)" for a
  proof (cases "a \<in> set ys")
    case True
    then have "a \<in> set xs" "count (mset ys) a \<noteq> 0"
      using mset_subset_eqD [OF assms(1)] by (auto simp: count_mset_0_iff)
    moreover from this have "count (mset xs) a = 1"
      using assms(2) unfolding distinct_count_atmost_1 by simp
    ultimately have "count (mset ys) a = 1"
      using mset_subset_eq_count [OF assms(1), of a] by linarith
    then show ?thesis using True by simp
  qed (simp add: count_mset_0_iff)
  then show ?thesis by (simp add: distinct_count_atmost_1)
qed

lemma ids_ok_mset_le:
  assumes "ids_ok s" and "mset (completed_ids (spec_legs t)) \<subseteq># mset (completed_ids (spec_legs s))"
  shows "ids_ok t"
proof -
  have "set (completed_ids (spec_legs t)) \<subseteq> set (completed_ids (spec_legs s))"
    using set_mset_mono [OF assms(2)] by simp
  then show ?thesis
    using assms(1) distinct_mset_le [OF assms(2)] unfolding ids_ok_def list_all_iff by blast
qed

lemma completed_ids_map_partition:
  "mset (completed_ids (map f (filter P xs))) + mset (completed_ids (map f (filter (\<lambda>x. \<not> P x) xs))) =
   mset (completed_ids (map f xs))"
  by (induction xs) (auto simp: completed_ids_split)

lemma completed_ids_map_filter:
  "mset (completed_ids (map f (filter P xs))) \<subseteq># mset (completed_ids (map f xs))"
  using completed_ids_map_partition [of f P xs] by (metis mset_subset_eq_add_left)

text \<open>Everything of a spec but its legs.\<close>

definition spec_frame :: "MiroirVolumeSpec \<Rightarrow> MiroirVolumeSpec" where
  "spec_frame s = s\<lparr>replicas := [], clients := []\<rparr>"

lemma spec_frame_update [simp]:
  "spec_frame (s\<lparr>replicas := rs\<rparr>) = spec_frame s" "spec_frame (s\<lparr>clients := cs\<rparr>) = spec_frame s"
  by (simp_all add: spec_frame_def)

lemma spec_frame_eq:
  "spec_frame s = spec_frame t \<longleftrightarrow> sizeBytes s = sizeBytes t \<and> quorumPolicy s = quorumPolicy t \<and>
     drbd s = drbd t \<and> source s = source t \<and> allowRemoteAccess s = allowRemoteAccess t \<and>
     export s = export t"
  by (cases s, cases t) (auto simp: spec_frame_def)

section \<open>Admission of a write\<close>

text \<open>What a write to a replicated volume needs to be admitted, when it leaves all but the legs
  alone: legs the rules accept, no replica losing its disk or its pool, and no client leg on a
  shared volume.\<close>

lemma admit_update_legs:
  assumes "spec_frame s = spec_frame s0" and "has_drbd s0" and "admit_create s0"
    and "legs_ok (replicas s) (clients s)" and "clients s = [] \<or> clients s0 \<noteq> []"
    and keep: "\<And>r r0. r \<in> set (replicas s) \<Longrightarrow> r0 \<in> set (replicas s0) \<Longrightarrow> r_node r = r_node r0 \<Longrightarrow>
      \<not> r_diskless r0 \<Longrightarrow> \<not> r_diskless r \<and> (r_address r0 = '''' \<or> cel_pool r0 = cel_pool r)"
  shows "admit_update s0 s"
proof -
  have f: "sizeBytes s = sizeBytes s0" "quorumPolicy s = quorumPolicy s0" "drbd s = drbd s0"
      "source s = source s0" "export s = export s0"
    using assms(1) by (simp_all add: spec_frame_eq)
  with assms(2) have d: "has_drbd s" by (simp add: has_drbd_def)
  have "frame_ok s0" "clients s0 = [] \<or> export s0 = None"
    using admit_create_drbd [OF assms(2)] assms(3) by simp_all
  then have "admit_create s"
    unfolding admit_create_drbd [OF d] using assms(4,5) f by (auto simp: frame_ok_def)
  moreover have "rule_no_disk_loss s0 s" "rule_pool_immutable s0 s"
    using keep by (fastforce simp: rule_no_disk_loss_def rule_pool_immutable_def list_all_iff)+
  ultimately show ?thesis
    using f by (simp add: admit_update_def admit_transition_def transition_rule_defs(3-) has_drbd_def
        split: option.split)
qed

section \<open>Outcome of a reconcile pass\<close>

text \<open>
  A pass reads the API server's answers (arguments) and yields the writes it attempts, in order,
  with what it returns: an error, or the delay of \<^verbatim>\<open>ctrl.Result\<close> (zero for none).
\<close>

datatype api_write = PatchVolume MiroirVolume | UpdateVolume MiroirVolume

datatype rec_error = ApiErr api_error | AddrErr addr_error | IndexPanic

type_synonym outcome = "api_write list \<times> (rec_error + duration)"

fun written :: "api_write \<Rightarrow> MiroirVolume" where
  "written (PatchVolume v) = v"
| "written (UpdateVolume v) = v"

text \<open>\<^verbatim>\<open>return ctrl.Result{}, client.IgnoreNotFound(err)\<close>.\<close>

definition ignoreNotFound :: "api_error \<Rightarrow> rec_error + duration" where
  "ignoreNotFound e = (if e = NotFound then Inr 0 else Inl (ApiErr e))"

text \<open>An update and the return that follows it.\<close>

definition updateThen ::
    "(MiroirVolume \<Rightarrow> api_error option) \<Rightarrow> MiroirVolume \<Rightarrow> duration \<Rightarrow> outcome" where
  "updateThen update v after =
     ([UpdateVolume v], case update v of Some e \<Rightarrow> Inl (ApiErr e) | None \<Rightarrow> Inr after)"

section \<open>Example volumes\<close>

text \<open>A three-node topology and volume builders for the witnesses of the reconcilers.\<close>

definition example_pool :: Pool where
  "example_pool = zero_pool\<lparr>pool_backend := BackendZFS, pool_zfsDataset := ''tank/miroir''\<rparr>"

definition example_nodes :: nodemap where
  "example_nodes = map (\<lambda>(n, a). (n, zero_node\<lparr>nd_address := a, nd_pools := [(''default'', example_pool)]\<rparr>))
     [(''a'', ''10.0.0.1''), (''b'', ''10.0.0.2''), (''c'', ''10.0.0.3'')]"

definition example_replica :: "string \<Rightarrow> int \<Rightarrow> string \<Rightarrow> Replica" where
  "example_replica n i a = (bare_replica n)\<lparr>r_backend := BackendZFS, r_nodeID := i, r_address := a\<rparr>"

definition example_spec :: "Replica list \<Rightarrow> VolumeClient list \<Rightarrow> MiroirVolumeSpec" where
  "example_spec rs cs = \<lparr>sizeBytes = 1073741824, replicas = rs, quorumPolicy = QuorumFreeze,
     drbd = Some \<lparr>d_port = 7000, d_sharedSecret = ''s3cret'', d_bitmapGranularityBytes = 0\<rparr>,
     source = None, allowRemoteAccess = True, clients = cs, export = None\<rparr>"

definition example_volume :: "MiroirVolumeSpec \<Rightarrow> string list \<Rightarrow> MiroirVolume" where
  "example_volume s fs = \<lparr>vname = ''pvc-1'', labels = [(LabelPVCName, ''data'')], finalizers = fs,
     deletionTimestamp = None, spec = s,
     status = \<lparr>phase = VolumeReady, readyReplicas = ''2/2'', perNode = [], exportAddress = None,
       formatted = True, activated = True, conditions = []\<rparr>\<rparr>"

end
