(* ===== verification/TieBreaker.thy ===== *)
theory TieBreaker
  imports Legs
begin

text \<open>
  \<^verbatim>\<open>internal/membership/tiebreaker.go\<close>: the reconciler that retrofits a diskless tie-breaker onto
  a two-replica freeze volume. The lemmas say exactly when it writes and what.
\<close>

record tiebreaker_env =
  te_get :: "api_error + MiroirVolume"
  te_nodes :: "api_error + nodemap"
  te_update :: "MiroirVolume \<Rightarrow> api_error option"

text \<open>A finalizer of a node without a leg: its removed leg is still being torn down.\<close>

definition teardownPending :: "MiroirVolume \<Rightarrow> bool" where
  "teardownPending v \<longleftrightarrow>
     list_ex (\<lambda>f. case cut_prefix f FinalizerPrefix of
                    None \<Rightarrow> False
                  | Some node \<Rightarrow> \<not> hasLegOn (spec v) node) (finalizers v)"

definition tieBreakerEntry :: "string \<Rightarrow> Replica" where
  "tieBreakerEntry tb = (bare_replica tb)\<lparr>r_diskless := True\<rparr>"

definition tiebreaker_Reconcile :: "tiebreaker_env \<Rightarrow> outcome" where
  "tiebreaker_Reconcile env =
     (case te_get env of
        Inl e \<Rightarrow> ([], ignoreNotFound e)
      | Inr v \<Rightarrow>
          if deletionTimestamp v \<noteq> None \<or> drbd (spec v) = None \<or> quorumPolicy (spec v) \<noteq> QuorumFreeze
          then ([], Inr 0)
          else if length (replicas (spec v)) \<noteq> 2 \<or> length (DiskfulReplicas (spec v)) \<noteq> 2
          then ([], Inr 0)
          else if list_ex (\<lambda>r. r_address r = '''') (replicas (spec v)) then ([], Inr 0)
          else if teardownPending v then ([], Inr (30 * 10 ^ 9))
          else (case te_nodes env of
                  Inl e \<Rightarrow> ([], Inl (ApiErr e))
                | Inr nodes \<Rightarrow>
                    (let tb = TieBreakerNode nodes (legs_with_clients (spec v))
                     in if tb = '''' then ([], Inr 0)
                        else updateThen (te_update env)
                          (v\<lparr>spec := (spec v)\<lparr>replicas := replicas (spec v) @ [tieBreakerEntry tb]\<rparr>\<rparr>) 0)))"

section \<open>What the retrofit does\<close>

lemma legs_with_clients_nodes:
  "set (map r_node (legs_with_clients s)) = {n. hasLegOn s n}"
proof -
  have "ClientForNode s n \<noteq> None \<longleftrightarrow> (\<exists>c\<in>set (clients s). c_node c = n)" for n
    using find_None_iff [of "\<lambda>c. c_node c = n" "clients s"] unfolding ClientForNode_def by metis
  then show ?thesis
    by (auto simp: legs_with_clients_def hasLegOn_def list_ex_iff bare_replica_def image_iff)
qed

lemma teardown_of_spare:
  assumes "\<not> teardownPending v" and "\<not> hasLegOn (spec v) n"
  shows "FinalizerPrefix @ n \<notin> set (finalizers v)"
proof
  assume "FinalizerPrefix @ n \<in> set (finalizers v)"
  then have "teardownPending v"
    using assms(2) unfolding teardownPending_def list_ex_iff by force
  with assms(1) show False by simp
qed

lemma hasLegOn_replica: "\<not> hasLegOn s n \<Longrightarrow> r \<in> set (replicas s) \<Longrightarrow> r_node r \<noteq> n"
  by (auto simp: hasLegOn_def list_ex_iff)

lemma hasLegOn_client: "\<not> hasLegOn s n \<Longrightarrow> c \<in> set (clients s) \<Longrightarrow> c_node c \<noteq> n"
  by (auto simp: hasLegOn_def ClientForNode_def find_None_iff)

lemma append_diskless_admitted:
  assumes "admit_create s" and "has_drbd s" and "length (replicas s) = 2" and "\<not> hasLegOn s tb"
    and "tb \<noteq> ''''"
  shows "admit_update s (s\<lparr>replicas := replicas s @ [tieBreakerEntry tb]\<rparr>)"
proof (rule admit_update_legs)
  have ok: "legs_ok (replicas s) (clients s)" using assms(1,2) admit_create_drbd by blast
  have tb: "r_node (tieBreakerEntry tb) = tb" "r_diskless (tieBreakerEntry tb)"
    by (simp_all add: tieBreakerEntry_def bare_replica_def)
  have new: "tb \<notin> r_node ` set (replicas s)" "tb \<notin> c_node ` set (clients s)"
    using hasLegOn_replica [OF assms(4)] hasLegOn_client [OF assms(4)] by blast+
  have "replicas s \<noteq> []" using assms(3) by auto
  then show "legs_ok (replicas (s\<lparr>replicas := replicas s @ [tieBreakerEntry tb]\<rparr>))
      (clients (s\<lparr>replicas := replicas s @ [tieBreakerEntry tb]\<rparr>))"
    using ok new tb assms(3) pools_agree_passive [of "replicas s" "tieBreakerEntry tb"]
    unfolding legs_ok_def by simp
  show "\<not> r_diskless r \<and> (r_address r0 = '''' \<or> cel_pool r0 = cel_pool r)"
    if "r \<in> set (replicas (s\<lparr>replicas := replicas s @ [tieBreakerEntry tb]\<rparr>))"
      "r0 \<in> set (replicas s)" "r_node r = r_node r0" "\<not> r_diskless r0" for r r0
  proof -
    have "r_node r0 \<noteq> tb" using new(1) that(2) by blast
    then have "r \<in> set (replicas s)" using that(1,3) tb(1) by auto
    moreover have "distinct (map r_node (replicas s))" using ok by (simp add: legs_ok_def)
    ultimately have "r = r0" using that(2,3) by (metis distinct_map inj_onD)
    then show ?thesis using that(4) by simp
  qed
qed (use assms in auto)

text \<open>
  C37. The tie-breaker retrofit: on a read volume the reconciler writes exactly when the volume is a
  live replicated freeze volume whose only two replicas are diskful and completed, no removed
  leg's teardown is pending and some placeable node holds no leg. What it writes is the same
  volume with one diskless entry appended, on a placeable node that holds no leg and no pending
  teardown; the write is admitted by every CEL rule and keeps the node-id invariant.
\<close>

theorem tiebreaker_retrofit:
  assumes "te_get env = Inr v" and "te_nodes env = Inr nodes" and "[] \<notin> set (map fst nodes)"
    and "admit_create (spec v)" and "ids_ok (spec v)"
  shows "(fst (tiebreaker_Reconcile env) \<noteq> [] \<longleftrightarrow>
      deletionTimestamp v = None \<and> has_drbd (spec v) \<and> quorumPolicy (spec v) = QuorumFreeze \<and>
      length (replicas (spec v)) = 2 \<and> (\<forall>r\<in>set (replicas (spec v)). \<not> r_diskless r \<and> r_address r \<noteq> '''') \<and>
      \<not> teardownPending v \<and> (\<exists>n. Placeable nodes n \<and> \<not> hasLegOn (spec v) n)) \<and>
    (\<forall>w. w \<in> set (fst (tiebreaker_Reconcile env)) \<longrightarrow> (\<exists>tb.
      w = UpdateVolume (v\<lparr>spec := (spec v)\<lparr>replicas := replicas (spec v) @ [tieBreakerEntry tb]\<rparr>\<rparr>) \<and>
      Placeable nodes tb \<and> \<not> hasLegOn (spec v) tb \<and> FinalizerPrefix @ tb \<notin> set (finalizers v) \<and>
      admit_update (spec v) (spec (written w)) \<and> ids_ok (spec (written w))))"
proof -
  let ?s = "spec v"
  let ?tb = "TieBreakerNode nodes (legs_with_clients ?s)"
  let ?w = "v\<lparr>spec := ?s\<lparr>replicas := replicas ?s @ [tieBreakerEntry ?tb]\<rparr>\<rparr>"
  let ?go = "deletionTimestamp v = None \<and> has_drbd ?s \<and> quorumPolicy ?s = QuorumFreeze \<and>
      length (replicas ?s) = 2 \<and> length (DiskfulReplicas ?s) = 2 \<and>
      \<not> list_ex (\<lambda>r. r_address r = '''') (replicas ?s) \<and> \<not> teardownPending v \<and> ?tb \<noteq> ''''"
  have run: "fst (tiebreaker_Reconcile env) = (if ?go then [UpdateVolume ?w] else [])"
    using assms(1,2) by (auto simp: tiebreaker_Reconcile_def has_drbd_def updateThen_def Let_def)
  have spare: "?tb = '''' \<longleftrightarrow> (\<forall>n. Placeable nodes n \<longrightarrow> hasLegOn ?s n)"
    and member: "?tb \<noteq> '''' \<Longrightarrow> Placeable nodes ?tb \<and> \<not> hasLegOn ?s ?tb"
    using tie_breaker_spare [OF assms(3), of "legs_with_clients ?s"] legs_with_clients_nodes [of ?s] by auto
  have diskful: "length (DiskfulReplicas ?s) = length (replicas ?s) \<longleftrightarrow> (\<forall>r\<in>set (replicas ?s). \<not> r_diskless r)"
    unfolding DiskfulReplicas_def by (rule length_filter_all)
  have wr: "admit_update ?s (spec ?w) \<and> ids_ok (spec ?w) \<and> FinalizerPrefix @ ?tb \<notin> set (finalizers v)" if go: ?go
  proof (intro conjI)
    show "admit_update ?s (spec ?w)"
      using append_diskless_admitted [OF assms(4), of ?tb] member go by simp
    show "ids_ok (spec ?w)"
      by (rule ids_ok_mset_le [OF assms(5)])
        (simp add: spec_legs_def completed_ids_split tieBreakerEntry_def bare_replica_def)
    show "FinalizerPrefix @ ?tb \<notin> set (finalizers v)"
      using teardown_of_spare [of v ?tb] member go by simp
  qed
  have "?go \<longleftrightarrow> deletionTimestamp v = None \<and> has_drbd ?s \<and> quorumPolicy ?s = QuorumFreeze \<and>
      length (replicas ?s) = 2 \<and> (\<forall>r\<in>set (replicas ?s). \<not> r_diskless r \<and> r_address r \<noteq> '''') \<and>
      \<not> teardownPending v \<and> (\<exists>n. Placeable nodes n \<and> \<not> hasLegOn ?s n)"
    using spare diskful by (auto simp: list_ex_iff)
  moreover have "fst (tiebreaker_Reconcile env) \<noteq> [] \<longleftrightarrow> ?go" unfolding run by (simp split: if_split)
  moreover have "\<exists>tb. w = UpdateVolume (v\<lparr>spec := ?s\<lparr>replicas := replicas ?s @ [tieBreakerEntry tb]\<rparr>\<rparr>) \<and>
      Placeable nodes tb \<and> \<not> hasLegOn ?s tb \<and> FinalizerPrefix @ tb \<notin> set (finalizers v) \<and>
      admit_update ?s (spec (written w)) \<and> ids_ok (spec (written w))"
    if "w \<in> set (fst (tiebreaker_Reconcile env))" for w
  proof -
    have go: ?go and w: "w = UpdateVolume ?w" using that unfolding run by (auto split: if_splits)
    show ?thesis using wr [OF go] member go w by (intro exI [of _ ?tb]) simp
  qed
  ultimately show ?thesis by blast
qed

definition twoleg_volume :: MiroirVolume where
  "twoleg_volume = example_volume (example_spec
     [example_replica ''a'' 0 ''10.0.0.1'', example_replica ''b'' 1 ''10.0.0.2''] [])
     [FinalizerPrefix @ ''a'', FinalizerPrefix @ ''b'']"

theorem tiebreaker_retrofit_witness:
  "fst (tiebreaker_Reconcile \<lparr>te_get = Inr twoleg_volume, te_nodes = Inr example_nodes, te_update = \<lambda>_. None\<rparr>) \<noteq> []"
proof -
  let ?env = "\<lparr>te_get = Inr twoleg_volume, te_nodes = Inr example_nodes, te_update = \<lambda>_. None\<rparr>"
  have k: "[] \<notin> set (map fst example_nodes)" by code_simp
  have adm: "admit_create (spec twoleg_volume)" "ids_ok (spec twoleg_volume)" by code_simp+
  have go: "deletionTimestamp twoleg_volume = None \<and> has_drbd (spec twoleg_volume) \<and>
      quorumPolicy (spec twoleg_volume) = QuorumFreeze \<and> length (replicas (spec twoleg_volume)) = 2 \<and>
      list_all (\<lambda>r. \<not> r_diskless r \<and> r_address r \<noteq> '''') (replicas (spec twoleg_volume)) \<and>
      \<not> teardownPending twoleg_volume \<and> Placeable example_nodes ''c'' \<and> \<not> hasLegOn (spec twoleg_volume) ''c''"
    by code_simp
  show ?thesis
    using tiebreaker_retrofit [of ?env twoleg_volume example_nodes] k adm go by (auto simp: list_all_iff)
qed

end
