(* ===== verification/Membership.thy ===== *)
theory Membership
  imports Legs
begin

text \<open>
  \<^verbatim>\<open>internal/membership/reconciler.go\<close>: the reconciler that completes operator-added replica
  entries and client legs with an address and a DRBD node id, stamps the PVC-reference labels,
  and holds a teardown finalizer for every leg. The API server's answers are the fields of
  \<open>membership_env\<close>. The lemmas show that a write only fills in incomplete legs, keeps the
  node-id and pool invariants, is always admitted, and that a second pass has nothing to do.
\<close>

section \<open>Model\<close>

record PersistentVolume =
  pv_csi :: "(string \<times> string) option"
  pv_claimRef :: "(string \<times> string) option"

record membership_env =
  me_get :: "api_error + MiroirVolume"
  me_getPV :: "string \<Rightarrow> api_error + PersistentVolume"
  me_patch :: "MiroirVolume \<Rightarrow> api_error + MiroirVolume"
  me_nodes :: "api_error + nodemap"
  me_getNode :: "string \<Rightarrow> api_error + KNode"
  me_update :: "MiroirVolume \<Rightarrow> api_error option"

datatype placement_reason = UnknownNode | ForeignPool | NoSuchPool | DuplicateNode | AddressInConflict

datatype place_error = errBadPlacement placement_reason | transientError addr_error

definition nodesOf :: "Replica list \<Rightarrow> string list" where
  "nodesOf reps = map r_node reps"

definition refuseDuplicate :: "string \<Rightarrow> string list \<Rightarrow> place_error option" where
  "refuseDuplicate node nodes =
     (let dup = length (filter (\<lambda>n. n = node) nodes)
      in if 1 < dup then Some (errBadPlacement DuplicateNode) else None)"

definition resolveAddress ::
    "nodemap \<Rightarrow> (string \<Rightarrow> api_error + KNode) \<Rightarrow> string \<Rightarrow> place_error + string" where
  "resolveAddress nodes getNode node =
     (case ReplicationAddress nodes getNode node of
        Inl ErrAddressConflict \<Rightarrow> Inl (errBadPlacement AddressInConflict)
      | Inl e \<Rightarrow> Inl (transientError e)
      | Inr addr \<Rightarrow> Inr addr)"

definition complete ::
    "nodemap \<Rightarrow> (string \<Rightarrow> api_error + KNode) \<Rightarrow> MiroirVolumeSpec \<Rightarrow> Replica \<Rightarrow> place_error + Replica" where
  "complete nodes getNode s rep =
     (let targetPool = volumePool s in
      if \<not> has_key nodes (r_node rep) then Inl (errBadPlacement UnknownNode)
      else if \<not> r_diskless rep \<and> r_pool rep \<noteq> '''' \<and> PoolOrDefault (r_pool rep) \<noteq> targetPool
      then Inl (errBadPlacement ForeignPool)
      else if \<not> r_diskless rep \<and> map_Pool nodes (r_node rep) targetPool = None
      then Inl (errBadPlacement NoSuchPool)
      else case refuseDuplicate (r_node rep) (nodesOf (replicas s)) of
        Some e \<Rightarrow> Inl e
      | None \<Rightarrow>
     (case resolveAddress nodes getNode (r_node rep) of
        Inl e \<Rightarrow> Inl e
      | Inr addr \<Rightarrow>
          (let i = nextNodeID s (r_node rep);
               rep = (if r_diskless rep then rep\<lparr>r_backend := BackendUnset, r_pool := ''''\<rparr>
                      else rep\<lparr>r_backend := (case map_Pool nodes (r_node rep) targetPool of
                                               Some p \<Rightarrow> pool_backend p | None \<Rightarrow> BackendUnset),
                               r_pool := targetPool, r_fullSync := True\<rparr>)
           in Inr (rep\<lparr>r_nodeID := i, r_address := addr\<rparr>))))"

definition completeClient ::
    "nodemap \<Rightarrow> (string \<Rightarrow> api_error + KNode) \<Rightarrow> MiroirVolumeSpec \<Rightarrow> VolumeClient \<Rightarrow>
     place_error + VolumeClient" where
  "completeClient nodes getNode s cl =
     (case refuseDuplicate (c_node cl) (map c_node (clients s)) of
        Some e \<Rightarrow> Inl e
      | None \<Rightarrow>
     (case resolveAddress nodes getNode (c_node cl) of
        Inl e \<Rightarrow> Inl e
      | Inr addr \<Rightarrow> Inr (cl\<lparr>c_nodeID := nextNodeID s (c_node cl), c_address := addr\<rparr>)))"

text \<open>The two completion loops over the indices of the legs, with the \<^verbatim>\<open>changed\<close> flag.\<close>

fun completeReplicas ::
    "nodemap \<Rightarrow> (string \<Rightarrow> api_error + KNode) \<Rightarrow> nat list \<Rightarrow> MiroirVolumeSpec \<Rightarrow> bool \<Rightarrow>
     place_error + (MiroirVolumeSpec \<times> bool)" where
  "completeReplicas nodes getNode [] s changed = Inr (s, changed)"
| "completeReplicas nodes getNode (i # is) s changed =
     (if r_address (replicas s ! i) \<noteq> '''' then completeReplicas nodes getNode is s changed
      else case complete nodes getNode s (replicas s ! i) of
             Inl e \<Rightarrow> Inl e
           | Inr rep \<Rightarrow> completeReplicas nodes getNode is (s\<lparr>replicas := (replicas s)[i := rep]\<rparr>) True)"

fun completeClients ::
    "nodemap \<Rightarrow> (string \<Rightarrow> api_error + KNode) \<Rightarrow> nat list \<Rightarrow> MiroirVolumeSpec \<Rightarrow> bool \<Rightarrow>
     place_error + (MiroirVolumeSpec \<times> bool)" where
  "completeClients nodes getNode [] s changed = Inr (s, changed)"
| "completeClients nodes getNode (i # is) s changed =
     (if c_address (clients s ! i) \<noteq> '''' then completeClients nodes getNode is s changed
      else case completeClient nodes getNode s (clients s ! i) of
             Inl e \<Rightarrow> Inl e
           | Inr cl \<Rightarrow> completeClients nodes getNode is (s\<lparr>clients := (clients s)[i := cl]\<rparr>) True)"

text \<open>\<^verbatim>\<open>controllerutil.AddFinalizer\<close> for each node of a leg list.\<close>

definition addFinalizer :: "string list \<times> bool \<Rightarrow> string \<Rightarrow> string list \<times> bool" where
  "addFinalizer = (\<lambda>(fs, changed) f. if f \<in> set fs then (fs, changed) else (fs @ [f], True))"

definition addFinalizers :: "string list \<Rightarrow> string list \<Rightarrow> bool \<Rightarrow> string list \<times> bool" where
  "addFinalizers nodes fs changed =
     foldl addFinalizer (fs, changed) (map (\<lambda>n. FinalizerPrefix @ n) nodes)"

definition completeLegs ::
    "nodemap \<Rightarrow> (string \<Rightarrow> api_error + KNode) \<Rightarrow> MiroirVolume \<Rightarrow> place_error + (MiroirVolume \<times> bool)" where
  "completeLegs nodes getNode v =
     (case completeReplicas nodes getNode [0..<length (replicas (spec v))] (spec v) False of
        Inl e \<Rightarrow> Inl e
      | Inr (s, changed) \<Rightarrow>
     (case completeClients nodes getNode [0..<length (clients s)] s changed of
        Inl e \<Rightarrow> Inl e
      | Inr (s, changed) \<Rightarrow>
          (let (fs, changed) = addFinalizers (nodesOf (replicas s)) (finalizers v) changed;
               (fs, changed) = addFinalizers (map c_node (clients s)) fs changed
           in Inr (v\<lparr>spec := s, finalizers := fs\<rparr>, changed))))"

definition ensurePVCRef :: "membership_env \<Rightarrow> MiroirVolume \<Rightarrow> api_write list \<times> (rec_error + MiroirVolume)" where
  "ensurePVCRef env v =
     (if str_at (labels v) LabelPVCName \<noteq> '''' then ([], Inr v)
      else case me_getPV env (vname v) of
        Inl e \<Rightarrow> ([], if e = NotFound then Inr v else Inl (ApiErr e))
      | Inr pv \<Rightarrow>
     (case (pv_csi pv, pv_claimRef pv) of
        (Some (driver, handle), Some (name, namespace)) \<Rightarrow>
          if driver \<noteq> DriverName \<or> handle \<noteq> vname v then ([], Inr v)
          else (case PVCRefLabels name namespace of
                  None \<Rightarrow> ([], Inr v)
                | Some ls \<Rightarrow>
                    (let v' = v\<lparr>labels := maps_copy (labels v) ls\<rparr>
                     in ([PatchVolume v'],
                         case me_patch env v' of Inl e \<Rightarrow> Inl (ApiErr e) | Inr w \<Rightarrow> Inr w)))
      | _ \<Rightarrow> ([], Inr v)))"

text \<open>The part of the pass after the label backfill.\<close>

definition completeAndUpdate :: "membership_env \<Rightarrow> MiroirVolume \<Rightarrow> outcome" where
  "completeAndUpdate env v =
     (if drbd (spec v) = None then ([], Inr 0)
      else case me_nodes env of
        Inl e \<Rightarrow> ([], Inl (ApiErr e))
      | Inr nodes \<Rightarrow>
     (case completeLegs nodes (me_getNode env) v of
        Inl (errBadPlacement _) \<Rightarrow> ([], Inr 0)
      | Inl (transientError e) \<Rightarrow> ([], Inl (AddrErr e))
      | Inr (v', changed) \<Rightarrow>
          if \<not> changed then ([], Inr 0) else updateThen (me_update env) v' 0))"

definition membership_Reconcile :: "membership_env \<Rightarrow> outcome" where
  "membership_Reconcile env =
     (case me_get env of
        Inl e \<Rightarrow> ([], ignoreNotFound e)
      | Inr v \<Rightarrow>
          if deletionTimestamp v \<noteq> None then ([], Inr 0)
          else (case ensurePVCRef env v of
                  (ws, Inl e) \<Rightarrow> (ws, Inl e)
                | (ws, Inr v) \<Rightarrow> (let (ws', r) = completeAndUpdate env v in (ws @ ws', r))))"

section \<open>One leg\<close>

lemma PoolOrDefault_idem [simp]: "PoolOrDefault (PoolOrDefault p) = PoolOrDefault p"
  by (simp add: PoolOrDefault_def DefaultPoolName_def)

lemma PoolOrDefault_nonempty [simp]: "PoolOrDefault p \<noteq> ''''"
  by (simp add: PoolOrDefault_def DefaultPoolName_def)

lemma cel_pool_PoolOrDefault: "cel_pool r = PoolOrDefault (r_pool r)"
  by (simp add: cel_pool_def PoolOrDefault_def DefaultPoolName_def)

lemma volumePool_idem [simp]: "PoolOrDefault (volumePool s) = volumePool s"
  by (simp add: volumePool_def split: option.split)

lemma volumePool_nonempty [simp]: "volumePool s \<noteq> ''''"
  by (simp add: volumePool_def split: option.split)

lemma complete_Inr:
  assumes "complete nodes getNode s rep = Inr rep'"
  shows "r_node rep' = r_node rep \<and> r_diskless rep' = r_diskless rep \<and>
    r_nodeID rep' = nextNodeID s (r_node rep) \<and>
    ReplicationAddress nodes getNode (r_node rep) = Inr (r_address rep') \<and>
    (if r_diskless rep then r_backend rep' = BackendUnset \<and> r_pool rep' = '''' \<and> r_fullSync rep' = r_fullSync rep
     else r_pool rep' = volumePool s \<and> r_fullSync rep' \<and>
       map_option pool_backend (map_Pool nodes (r_node rep) (volumePool s)) = Some (r_backend rep'))"
  using assms
  by (auto simp: complete_def Let_def resolveAddress_def split: if_splits option.splits sum.splits
      addr_error.splits)

lemma completeClient_Inr:
  assumes "completeClient nodes getNode s cl = Inr cl'"
  shows "c_node cl' = c_node cl \<and> c_addedAt cl' = c_addedAt cl \<and>
    c_nodeID cl' = nextNodeID s (c_node cl) \<and>
    ReplicationAddress nodes getNode (c_node cl) = Inr (c_address cl')"
  using assms
  by (auto simp: completeClient_def resolveAddress_def split: if_splits option.splits sum.splits
      addr_error.splits)

section \<open>The loops\<close>

text \<open>An assertion that one completion keeps is kept by the whole loop.\<close>

lemma completeReplicas_keeps:
  assumes "completeReplicas nodes getNode is s ch = Inr (s', ch')" and "P s"
    and step: "\<And>s i rep. P s \<Longrightarrow> i \<in> set is \<Longrightarrow> r_address (replicas s ! i) = '''' \<Longrightarrow>
      complete nodes getNode s (replicas s ! i) = Inr rep \<Longrightarrow> P (s\<lparr>replicas := (replicas s)[i := rep]\<rparr>)"
  shows "P s'"
  using assms
proof (induction nodes getNode "is" s ch rule: completeReplicas.induct)
  case (2 nodes getNode i "is" s ch)
  then show ?case
    by (cases "complete nodes getNode s (replicas s ! i)") (auto split: if_splits)
qed simp

lemma completeClients_keeps:
  assumes "completeClients nodes getNode is s ch = Inr (s', ch')" and "P s"
    and step: "\<And>s i cl. P s \<Longrightarrow> i \<in> set is \<Longrightarrow> c_address (clients s ! i) = '''' \<Longrightarrow>
      completeClient nodes getNode s (clients s ! i) = Inr cl \<Longrightarrow> P (s\<lparr>clients := (clients s)[i := cl]\<rparr>)"
  shows "P s'"
  using assms
proof (induction nodes getNode "is" s ch rule: completeClients.induct)
  case (2 nodes getNode i "is" s ch)
  then show ?case
    by (cases "completeClient nodes getNode s (clients s ! i)") (auto split: if_splits)
qed simp

text \<open>What completion may change of a spec: only legs that lack an address, and of those
  neither the node nor the diskless flag.\<close>

definition fills_in :: "MiroirVolumeSpec \<Rightarrow> MiroirVolumeSpec \<Rightarrow> bool" where
  "fills_in s0 s \<longleftrightarrow> spec_frame s = spec_frame s0 \<and>
     map r_node (replicas s) = map r_node (replicas s0) \<and>
     map r_diskless (replicas s) = map r_diskless (replicas s0) \<and>
     map c_node (clients s) = map c_node (clients s0) \<and>
     map c_addedAt (clients s) = map c_addedAt (clients s0) \<and>
     (\<forall>i<length (replicas s0). r_address (replicas s0 ! i) \<noteq> '''' \<longrightarrow> replicas s ! i = replicas s0 ! i) \<and>
     (\<forall>i<length (clients s0). c_address (clients s0 ! i) \<noteq> '''' \<longrightarrow> clients s ! i = clients s0 ! i)"

lemma fills_in_refl: "fills_in s s"
  by (simp add: fills_in_def)

lemma fills_in_lengths:
  "fills_in s0 s \<Longrightarrow> length (replicas s) = length (replicas s0) \<and> length (clients s) = length (clients s0)"
  by (auto simp: fills_in_def dest: map_eq_imp_length_eq)

lemma fills_in_replica:
  assumes f: "fills_in s0 s" and i: "i < length (replicas s)" and a: "r_address (replicas s ! i) = ''''"
    and "r_node rep = r_node (replicas s ! i)" "r_diskless rep = r_diskless (replicas s ! i)"
  shows "fills_in s0 (s\<lparr>replicas := (replicas s)[i := rep]\<rparr>)"
proof -
  have "r_address (replicas s0 ! i) = ''''"
    using f i a fills_in_lengths [OF f] by (auto simp: fills_in_def)
  then show ?thesis
    using f i assms(4,5)
    by (auto simp: fills_in_def map_list_update_same nth_list_update spec_frame_def)
qed

lemma fills_in_client:
  assumes f: "fills_in s0 s" and i: "i < length (clients s)" and a: "c_address (clients s ! i) = ''''"
    and "c_node cl = c_node (clients s ! i)" "c_addedAt cl = c_addedAt (clients s ! i)"
  shows "fills_in s0 (s\<lparr>clients := (clients s)[i := cl]\<rparr>)"
proof -
  have "c_address (clients s0 ! i) = ''''"
    using f i a fills_in_lengths [OF f] by (auto simp: fills_in_def)
  then show ?thesis
    using f i assms(4,5)
    by (auto simp: fills_in_def map_list_update_same nth_list_update spec_frame_def)
qed

lemma completeReplicas_fills_in:
  assumes "completeReplicas nodes getNode [0..<length (replicas s)] s ch = Inr (s', ch')" and "fills_in s0 s"
  shows "fills_in s0 s'"
proof -
  have "fills_in s0 s' \<and> length (replicas s') = length (replicas s)"
    by (rule completeReplicas_keeps [OF assms(1)])
      (use assms(2) in \<open>auto dest!: complete_Inr intro: fills_in_replica\<close>)
  then show ?thesis by simp
qed

lemma completeClients_fills_in:
  assumes "completeClients nodes getNode [0..<length (clients s)] s ch = Inr (s', ch')" and "fills_in s0 s"
  shows "fills_in s0 s'"
proof -
  have "fills_in s0 s' \<and> length (clients s') = length (clients s)"
    by (rule completeClients_keeps [OF assms(1)])
      (use assms(2) in \<open>auto dest!: completeClient_Inr intro: fills_in_client\<close>)
  then show ?thesis by simp
qed

text \<open>All completed diskful legs live in one pool, which stays the volume's pool throughout.\<close>

definition pool_inv :: "string \<Rightarrow> MiroirVolumeSpec \<Rightarrow> bool" where
  "pool_inv p s \<longleftrightarrow> volumePool s = p \<and>
     (\<forall>r\<in>set (replicas s). \<not> r_diskless r \<longrightarrow> r_address r \<noteq> '''' \<longrightarrow> PoolOrDefault (r_pool r) = p)"

lemma find_list_update:
  "P y = P (xs ! i) \<Longrightarrow> i < length xs \<Longrightarrow> find P (xs[i := y]) \<in> {find P xs, Some y}"
proof (induction xs arbitrary: i)
  case (Cons x xs)
  then show ?case by (cases i) auto
qed simp

lemma pool_inv_replica:
  assumes inv: "pool_inv p s" and i: "i < length (replicas s)" and a: "r_address (replicas s ! i) = ''''"
    and d: "r_diskless rep = r_diskless (replicas s ! i)" and pool: "\<not> r_diskless rep \<Longrightarrow> r_pool rep = p"
  shows "pool_inv p (s\<lparr>replicas := (replicas s)[i := rep]\<rparr>)"
proof -
  let ?C = "\<lambda>r. \<not> r_diskless r \<and> r_address r \<noteq> ''''"
  let ?s = "s\<lparr>replicas := (replicas s)[i := rep]\<rparr>"
  have p: "PoolOrDefault p = p" using inv volumePool_idem [of s] by (simp add: pool_inv_def)
  have all: "r \<in> set (replicas ?s) \<Longrightarrow> ?C r \<Longrightarrow> PoolOrDefault (r_pool r) = p" for r
    using set_update_subset_insert [of "replicas s" i rep] inv pool p by (auto simp: pool_inv_def)
  have "volumePool ?s = p"
  proof (cases "find ?C (replicas ?s)")
    case (Some r)
    then show ?thesis using all find_SomeD [OF Some] by (simp add: volumePool_def)
  next
    case None
    have none: "\<not> ?C r" if "r \<in> set (replicas ?s)" for r using find_NoneD [OF None that] .
    have "\<not> ?C r" if r: "r \<in> set (replicas s)" for r
    proof (cases "r = replicas s ! i")
      case False
      with r obtain k where "k < length (replicas s)" "r = replicas s ! k" "k \<noteq> i"
        by (metis in_set_conv_nth)
      then have "r \<in> set (replicas ?s)" using nth_mem [of k "replicas ?s"] by simp
      then show ?thesis by (rule none)
    qed (use a in simp)
    then have ns: "find ?C (replicas s) = None" by (auto simp: find_None_iff)
    have "find (\<lambda>r. \<not> r_diskless r) (replicas ?s) \<in> {find (\<lambda>r. \<not> r_diskless r) (replicas s), Some rep}"
      using find_list_update [of "\<lambda>r. \<not> r_diskless r" rep "replicas s" i] d i by simp
    then show ?thesis
    proof
      assume "find (\<lambda>r. \<not> r_diskless r) (replicas ?s) = find (\<lambda>r. \<not> r_diskless r) (replicas s)"
      then have "volumePool ?s = volumePool s"
        unfolding volumePool_def None ns FirstDiskfulReplica_def by simp
      then show ?thesis using inv by (simp add: pool_inv_def)
    next
      assume f: "find (\<lambda>r. \<not> r_diskless r) (replicas ?s) \<in> {Some rep}"
      then have "\<not> r_diskless rep" by (auto dest: find_SomeD)
      then show ?thesis using f pool p unfolding volumePool_def None FirstDiskfulReplica_def by simp
    qed
  qed
  then show ?thesis using all by (auto simp: pool_inv_def)
qed

lemma pool_inv_start:
  assumes "rule_pool_uniform s"
  shows "pool_inv (volumePool s) s"
proof -
  have u: "r \<in> set (replicas s) \<Longrightarrow> \<not> r_diskless r \<Longrightarrow> r_address r \<noteq> '''' \<Longrightarrow> r' \<in> set (replicas s) \<Longrightarrow>
      \<not> r_diskless r' \<Longrightarrow> r_address r' \<noteq> '''' \<Longrightarrow> PoolOrDefault (r_pool r) = PoolOrDefault (r_pool r')" for r r'
    using assms by (fastforce simp: rule_pool_uniform_def list_all_iff cel_pool_PoolOrDefault)
  have "PoolOrDefault (r_pool r) = volumePool s"
    if r: "r \<in> set (replicas s)" "\<not> r_diskless r" "r_address r \<noteq> ''''" for r
  proof -
    obtain r' where "find (\<lambda>r. \<not> r_diskless r \<and> r_address r \<noteq> '''') (replicas s) = Some r'"
      using find_exists [of r "replicas s" "\<lambda>r. \<not> r_diskless r \<and> r_address r \<noteq> ''''"] r by auto
    then show ?thesis using u [OF r, of r'] by (auto simp: volumePool_def dest: find_SomeD)
  qed
  then show ?thesis by (simp add: pool_inv_def)
qed

lemma pool_inv_uniform: "pool_inv p s \<Longrightarrow> rule_pool_uniform s"
  unfolding pool_inv_def rule_pool_uniform_def list_all_iff cel_pool_PoolOrDefault by metis

lemma completeReplicas_pool:
  assumes "completeReplicas nodes getNode [0..<length (replicas s)] s ch = Inr (s', ch')" and "pool_inv p s"
  shows "pool_inv p s'"
proof -
  have "pool_inv p s' \<and> length (replicas s') = length (replicas s)"
  proof (rule completeReplicas_keeps [OF assms(1)])
    fix t i rep
    assume t: "pool_inv p t \<and> length (replicas t) = length (replicas s)" "i \<in> set [0..<length (replicas s)]"
      "r_address (replicas t ! i) = ''''" and c: "complete nodes getNode t (replicas t ! i) = Inr rep"
    have "volumePool t = p" using t(1) by (simp add: pool_inv_def)
    then show "pool_inv p (t\<lparr>replicas := (replicas t)[i := rep]\<rparr>) \<and>
        length (replicas (t\<lparr>replicas := (replicas t)[i := rep]\<rparr>)) = length (replicas s)"
      using t complete_Inr [OF c] by (auto intro!: pool_inv_replica)
  qed (use assms(2) in simp)
  then show ?thesis by simp
qed

lemma pool_inv_clients [simp]: "pool_inv p (s\<lparr>clients := cs\<rparr>) = pool_inv p s"
  unfolding pool_inv_def volumePool_def FirstDiskfulReplica_def by (simp split: option.split)

lemma completeClients_pool:
  assumes "completeClients nodes getNode is s ch = Inr (s', ch')" and "pool_inv p s"
  shows "pool_inv p s'"
  by (rule completeClients_keeps [OF assms(1)]) (use assms(2) in auto)

text \<open>Node ids: a completion takes an id that no completed leg on another node has.\<close>

definition legs_inv :: "MiroirVolumeSpec \<Rightarrow> bool" where
  "legs_inv s \<longleftrightarrow> distinct (map fst (spec_legs s)) \<and> length (spec_legs s) \<le> 5 \<and> ids_ok s"

lemma ids_ok_update:
  assumes "legs_inv s" and "i < length (spec_legs s)" and "snd (snd (spec_legs s ! i)) = ''''"
    and "spec_legs s' = (spec_legs s)[i := (fst (spec_legs s ! i), nextNodeID s (fst (spec_legs s ! i)), a)]"
  shows "legs_inv s'"
proof -
  let ?n = "fst (spec_legs s ! i)"
  let ?l = "(?n, nextNodeID s ?n, a)"
  have inv: "distinct (map fst (spec_legs s))" "length (spec_legs s) \<le> 5"
    and ids: "distinct (completed_ids (spec_legs s))" "\<forall>x\<in>set (completed_ids (spec_legs s)). 0 \<le> x \<and> x < 16"
    using assms(1) by (simp_all add: legs_inv_def ids_ok_def list_all_iff)
  have "distinct (completed_ids ((spec_legs s)[i := ?l]))"
    by (rule completed_ids_update [OF inv(1) assms(2) ids(1)]) (use nextNodeID_fresh [of s ?n] in auto)
  moreover have "set (completed_ids ((spec_legs s)[i := ?l])) \<subseteq>
      insert (nextNodeID s ?n) (set (completed_ids (spec_legs s)))"
    using set_update_subset_insert [of "spec_legs s" i ?l] by (fastforce simp: completed_ids_def)
  then have "\<forall>x\<in>set (completed_ids ((spec_legs s)[i := ?l])). 0 \<le> x \<and> x < 16"
    using ids(2) nextNodeID_bounds [of s ?n] inv(2) by fastforce
  ultimately show ?thesis
    using inv assms(2,4) by (simp add: legs_inv_def ids_ok_def list_all_iff map_list_update_same)
qed

lemma legs_inv_replica:
  assumes "legs_inv s" and i: "i < length (replicas s)" and "r_address (replicas s ! i) = ''''"
    and "complete nodes getNode s (replicas s ! i) = Inr rep"
  shows "legs_inv (s\<lparr>replicas := (replicas s)[i := rep]\<rparr>)"
proof (rule ids_ok_update [OF assms(1), where i = i and a = "r_address rep"])
  have l: "spec_legs s ! i = (r_node (replicas s ! i), r_nodeID (replicas s ! i), r_address (replicas s ! i))"
    using i by (simp add: spec_legs_def nth_append)
  then show "snd (snd (spec_legs s ! i)) = ''''" using assms(3) by simp
  show "i < length (spec_legs s)" using i by (simp add: spec_legs_def)
  show "spec_legs (s\<lparr>replicas := (replicas s)[i := rep]\<rparr>) =
      (spec_legs s)[i := (fst (spec_legs s ! i), nextNodeID s (fst (spec_legs s ! i)), r_address rep)]"
    unfolding l using i complete_Inr [OF assms(4)]
    by (simp add: spec_legs_def map_update list_update_append1)
qed

lemma legs_inv_client:
  assumes "legs_inv s" and i: "i < length (clients s)" and "c_address (clients s ! i) = ''''"
    and "completeClient nodes getNode s (clients s ! i) = Inr cl"
  shows "legs_inv (s\<lparr>clients := (clients s)[i := cl]\<rparr>)"
proof (rule ids_ok_update [OF assms(1), where i = "length (replicas s) + i" and a = "c_address cl"])
  let ?k = "length (replicas s) + i"
  have l: "spec_legs s ! ?k = (c_node (clients s ! i), c_nodeID (clients s ! i), c_address (clients s ! i))"
    using i by (simp add: spec_legs_def nth_append)
  then show "snd (snd (spec_legs s ! ?k)) = ''''" using assms(3) by simp
  show "?k < length (spec_legs s)" using i by (simp add: spec_legs_def)
  show "spec_legs (s\<lparr>clients := (clients s)[i := cl]\<rparr>) =
      (spec_legs s)[?k := (fst (spec_legs s ! ?k), nextNodeID s (fst (spec_legs s ! ?k)), c_address cl)]"
    unfolding l using i completeClient_Inr [OF assms(4)]
    by (simp add: spec_legs_def map_update list_update_append)
qed

lemma completeReplicas_legs_inv:
  assumes "completeReplicas nodes getNode [0..<length (replicas s)] s ch = Inr (s', ch')" and "legs_inv s"
  shows "legs_inv s'"
proof -
  have "legs_inv s' \<and> length (replicas s') = length (replicas s)"
    by (rule completeReplicas_keeps [OF assms(1)]) (use assms(2) in \<open>auto intro: legs_inv_replica\<close>)
  then show ?thesis by simp
qed

lemma completeClients_legs_inv:
  assumes "completeClients nodes getNode [0..<length (clients s)] s ch = Inr (s', ch')" and "legs_inv s"
  shows "legs_inv s'"
proof -
  have "legs_inv s' \<and> length (clients s') = length (clients s)"
    by (rule completeClients_keeps [OF assms(1)]) (use assms(2) in \<open>auto intro: legs_inv_client\<close>)
  then show ?thesis by simp
qed

text \<open>Completeness of the result, when every InternalIP a Node object lists is a real address.\<close>

definition internal_ips_set :: "(string \<Rightarrow> api_error + KNode) \<Rightarrow> bool" where
  "internal_ips_set getNode \<longleftrightarrow>
     (\<forall>n node a. getNode n = Inr node \<longrightarrow> (''InternalIP'', a) \<in> set (kn_addresses node) \<longrightarrow> a \<noteq> '''')"

lemma ReplicationAddress_nonempty:
  assumes "internal_ips_set getNode" and "ReplicationAddress nodes getNode n = Inr a"
  shows "a \<noteq> ''''"
proof (cases "nd_address (node_at nodes n) = ''''")
  case True
  with assms(2) obtain node x where "getNode n = Inr node"
      "find (\<lambda>a. fst a = ''InternalIP'') (kn_addresses node) = Some x" "a = snd x"
    by (auto simp: ReplicationAddress_def split: if_splits sum.splits option.splits)
  moreover from this have "(''InternalIP'', a) \<in> set (kn_addresses node)"
    using find_SomeD [of "\<lambda>a. fst a = ''InternalIP''" "kn_addresses node" x] by (cases x) auto
  ultimately show ?thesis using assms(1) unfolding internal_ips_set_def by metis
next
  case False
  then show ?thesis using assms(2) by (simp add: ReplicationAddress_def split: if_splits)
qed

lemma completeReplicas_addresses:
  assumes "completeReplicas nodes getNode is s ch = Inr (s', ch')" and "internal_ips_set getNode"
    and "i < length (replicas s)" and "r_address (replicas s ! i) \<noteq> '''' \<or> i \<in> set is"
  shows "i < length (replicas s') \<and> r_address (replicas s' ! i) \<noteq> ''''"
  using assms
proof (induction nodes getNode "is" s ch rule: completeReplicas.induct)
  case (2 nodes getNode j "is" s ch)
  show ?case
  proof (cases "r_address (replicas s ! j) \<noteq> ''''")
    case True
    then show ?thesis using 2(1) [OF True] 2(3-6) by auto
  next
    case False
    then obtain rep where c: "complete nodes getNode s (replicas s ! j) = Inr rep"
      using 2(3) by (cases "complete nodes getNode s (replicas s ! j)") auto
    then have "r_address rep \<noteq> ''''"
      using ReplicationAddress_nonempty [OF 2(4)] complete_Inr [OF c] by blast
    then have "r_address ((replicas s)[j := rep] ! i) \<noteq> '''' \<or> i \<in> set is"
      using 2(5,6) by (cases "i = j") auto
    then show ?thesis
      using 2(2) [OF _ c] 2(3-5) False c by simp
  qed
qed simp

lemma completeClients_addresses:
  assumes "completeClients nodes getNode is s ch = Inr (s', ch')" and "internal_ips_set getNode"
    and "i < length (clients s)" and "c_address (clients s ! i) \<noteq> '''' \<or> i \<in> set is"
  shows "i < length (clients s') \<and> c_address (clients s' ! i) \<noteq> ''''"
  using assms
proof (induction nodes getNode "is" s ch rule: completeClients.induct)
  case (2 nodes getNode j "is" s ch)
  show ?case
  proof (cases "c_address (clients s ! j) \<noteq> ''''")
    case True
    then show ?thesis using 2(1) [OF True] 2(3-6) by auto
  next
    case False
    then obtain cl where c: "completeClient nodes getNode s (clients s ! j) = Inr cl"
      using 2(3) by (cases "completeClient nodes getNode s (clients s ! j)") auto
    then have "c_address cl \<noteq> ''''"
      using ReplicationAddress_nonempty [OF 2(4)] completeClient_Inr [OF c] by blast
    then have "c_address ((clients s)[j := cl] ! i) \<noteq> '''' \<or> i \<in> set is"
      using 2(5,6) by (cases "i = j") auto
    then show ?thesis
      using 2(2) [OF _ c] 2(3-5) False c by simp
  qed
qed simp

section \<open>The pass\<close>

lemma addFinalizers_spec:
  "set (fst (addFinalizers nodes fs ch)) = set fs \<union> (\<lambda>n. FinalizerPrefix @ n) ` set nodes \<and>
   (snd (addFinalizers nodes fs ch) \<longleftrightarrow> ch \<or> \<not> (\<lambda>n. FinalizerPrefix @ n) ` set nodes \<subseteq> set fs)"
  unfolding addFinalizers_def
  by (induction nodes arbitrary: fs ch) (auto simp: addFinalizer_def)

lemma addFinalizers_nothing:
  "(\<lambda>n. FinalizerPrefix @ n) ` set nodes \<subseteq> set fs \<Longrightarrow> addFinalizers nodes fs ch = (fs, ch)"
  unfolding addFinalizers_def
  by (induction nodes arbitrary: fs ch) (auto simp: addFinalizer_def)

lemma completeLegs_split:
  assumes "completeLegs nodes getNode v = Inr (w, ch)"
  obtains s ch1 ch2 where
    "completeReplicas nodes getNode [0..<length (replicas (spec v))] (spec v) False = Inr (s, ch1)"
    "completeClients nodes getNode [0..<length (clients s)] s ch1 = Inr (spec w, ch2)"
    "w = v\<lparr>spec := spec w, finalizers := finalizers w\<rparr>"
    "set (finalizers w) = set (finalizers v) \<union>
       (\<lambda>n. FinalizerPrefix @ n) ` (set (map r_node (replicas (spec w))) \<union> set (map c_node (clients (spec w))))"
proof -
  from assms obtain s ch1 s2 ch2 where r:
    "completeReplicas nodes getNode [0..<length (replicas (spec v))] (spec v) False = Inr (s, ch1)"
    "completeClients nodes getNode [0..<length (clients s)] s ch1 = Inr (s2, ch2)"
    by (auto simp: completeLegs_def split: sum.splits prod.splits)
  let ?f1 = "addFinalizers (nodesOf (replicas s2)) (finalizers v) ch2"
  let ?f2 = "addFinalizers (map c_node (clients s2)) (fst ?f1) (snd ?f1)"
  have w: "w = v\<lparr>spec := s2, finalizers := fst ?f2\<rparr>"
    using assms r by (simp add: completeLegs_def split: prod.splits)
  then have "set (finalizers w) = set (finalizers v) \<union>
       (\<lambda>n. FinalizerPrefix @ n) ` (set (map r_node (replicas s2)) \<union> set (map c_node (clients s2)))"
    using addFinalizers_spec [of "nodesOf (replicas s2)" "finalizers v" ch2]
      addFinalizers_spec [of "map c_node (clients s2)" "fst ?f1" "snd ?f1"]
    by (simp add: nodesOf_def image_Un Un_assoc)
  with that [of s ch1 ch2] r w show thesis by simp
qed

lemma admit_legs_inv:
  assumes "admit_create s" and "has_drbd s" and "ids_ok s"
  shows "legs_inv s"
  using assms admit_create_drbd [OF assms(2)]
  by (simp add: legs_inv_def spec_legs_nodes) (simp add: legs_ok_def spec_legs_def)

lemma same_node_same_index:
  assumes "map r_node rs = map r_node rs0" and "distinct (map r_node rs0)"
    and "r \<in> set rs" and "r0 \<in> set rs0" and "r_node r = r_node r0"
  shows "\<exists>i<length rs0. r = rs ! i \<and> r0 = rs0 ! i"
proof -
  obtain i j where i: "i < length rs" "r = rs ! i" and j: "j < length rs0" "r0 = rs0 ! j"
    using assms(3,4) by (metis in_set_conv_nth)
  have len: "length rs = length rs0" using assms(1) map_eq_imp_length_eq by blast
  have "map r_node rs0 ! i = map r_node rs0 ! j"
    using assms(1,5) i j len by (metis nth_map)
  then have "i = j" using nth_eq_iff_index_eq [OF assms(2), of i j] i(1) j(1) len by simp
  then show ?thesis using i j by blast
qed

lemma fills_in_admitted:
  assumes f: "fills_in s0 s" and "has_drbd s0" and "admit_create s0" and "pool_inv p s"
  shows "admit_update s0 s"
proof (rule admit_update_legs)
  let ?rs = "replicas s" and ?old = "replicas s0"
  have ok: "legs_ok ?old (clients s0)" using assms(2,3) admit_create_drbd by blast
  have m: "map r_node ?rs = map r_node ?old" "map r_diskless ?rs = map r_diskless ?old"
      "map c_node (clients s) = map c_node (clients s0)"
    using f by (simp_all add: fills_in_def)
  have cnt: "length (filter (\<lambda>r. \<not> r_diskless r) rs) = length (filter Not (map r_diskless rs))" for rs
    by (simp add: filter_map comp_def)
  have "?old \<noteq> []" using ok by (auto simp: legs_ok_def)
  then have hd: "r_diskless (hd ?rs) = r_diskless (hd ?old)"
    using m(2) by (metis list.map_disc_iff list.map_sel(1))
  have len: "length ?rs = length ?old" "length (clients s) = length (clients s0)"
    using fills_in_lengths [OF f] by simp_all
  have pools: "pools_agree ?rs"
    using assms(4) unfolding pool_inv_def pools_agree_def cel_pool_PoolOrDefault by metis
  have old: "2 \<le> length (filter Not (map r_diskless ?old))" "length ?old \<le> 3" "\<not> r_diskless (hd ?old)"
      "length (clients s0) \<le> 2" "distinct (map r_node ?old @ map c_node (clients s0))"
    using ok unfolding legs_ok_def cnt by blast+
  show "legs_ok ?rs (clients s)"
    unfolding legs_ok_def cnt m by (intro conjI pools) (use old hd len in simp_all)
  show "spec_frame s = spec_frame s0" using f by (simp add: fills_in_def)
  show "clients s = [] \<or> clients s0 \<noteq> []" using len(2) by auto
  fix r r0
  assume r: "r \<in> set ?rs" "r0 \<in> set ?old" "r_node r = r_node r0" and d: "\<not> r_diskless r0"
  have "distinct (map r_node ?old)" using ok by (simp add: legs_ok_def)
  then obtain i where i: "i < length ?old" "r = ?rs ! i" "r0 = ?old ! i"
    using same_node_same_index [OF m(1)] r by blast
  then have "r_diskless r = r_diskless r0" using m(2) len(1) by (metis nth_map)
  moreover have "r_address r0 = '''' \<or> r = r0" using f i unfolding fills_in_def by blast
  ultimately show "\<not> r_diskless r \<and> (r_address r0 = '''' \<or> cel_pool r0 = cel_pool r)" using d by auto
qed (use assms in auto)

lemma completeLegs_sound:
  assumes "completeLegs nodes getNode v = Inr (w, ch)" and "has_drbd (spec v)"
    and "admit_create (spec v)" and "ids_ok (spec v)"
  shows "fills_in (spec v) (spec w) \<and> ids_ok (spec w) \<and> pool_inv (volumePool (spec v)) (spec w) \<and>
    admit_update (spec v) (spec w)"
proof -
  obtain s ch1 ch2 where r:
    "completeReplicas nodes getNode [0..<length (replicas (spec v))] (spec v) False = Inr (s, ch1)"
    "completeClients nodes getNode [0..<length (clients s)] s ch1 = Inr (spec w, ch2)"
    using completeLegs_split [OF assms(1)] by metis
  have f: "fills_in (spec v) (spec w)"
    using completeClients_fills_in [OF r(2)] completeReplicas_fills_in [OF r(1)] fills_in_refl by blast
  have "legs_inv (spec w)"
    using completeClients_legs_inv [OF r(2)] completeReplicas_legs_inv [OF r(1)]
      admit_legs_inv [OF assms(3,2,4)] by blast
  moreover have p: "pool_inv (volumePool (spec v)) (spec w)"
    using completeClients_pool [OF r(2)] completeReplicas_pool [OF r(1)] pool_inv_start assms(3)
    by (simp add: admit_create_def)
  ultimately show ?thesis
    using f fills_in_admitted [OF f assms(2,3) p] by (simp add: legs_inv_def)
qed

lemma completeLegs_complete:
  assumes "completeLegs nodes getNode v = Inr (w, ch)" and "internal_ips_set getNode"
  shows "\<not> incompleteChange (spec w)"
proof -
  obtain s ch1 ch2 where r:
    "completeReplicas nodes getNode [0..<length (replicas (spec v))] (spec v) False = Inr (s, ch1)"
    "completeClients nodes getNode [0..<length (clients s)] s ch1 = Inr (spec w, ch2)"
    using completeLegs_split [OF assms(1)] by metis
  have f: "fills_in (spec v) s" by (rule completeReplicas_fills_in [OF r(1) fills_in_refl])
  have g: "fills_in s (spec w)" by (rule completeClients_fills_in [OF r(2) fills_in_refl])
  have "replicas (spec w) = replicas s"
    by (rule completeClients_keeps [OF r(2)]) auto
  moreover have "r_address (replicas s ! i) \<noteq> ''''" if "i < length (replicas s)" for i
    using completeReplicas_addresses [OF r(1) assms(2), of i] that fills_in_lengths [OF f] by simp
  moreover have "c_address (clients (spec w) ! i) \<noteq> ''''" if "i < length (clients s)" for i
    using completeClients_addresses [OF r(2) assms(2), of i] that by simp
  ultimately show ?thesis
    using fills_in_lengths [OF g] by (auto simp: incompleteChange_def list_ex_iff in_set_conv_nth)
qed
lemma completeReplicas_nothing:
  "(\<And>i. i \<in> set is \<Longrightarrow> r_address (replicas s ! i) \<noteq> '''') \<Longrightarrow>
   completeReplicas nodes getNode is s ch = Inr (s, ch)"
  by (induction "is") auto

lemma completeClients_nothing:
  "(\<And>i. i \<in> set is \<Longrightarrow> c_address (clients s ! i) \<noteq> '''') \<Longrightarrow>
   completeClients nodes getNode is s ch = Inr (s, ch)"
  by (induction "is") auto

lemma completeLegs_nothing:
  assumes "\<not> incompleteChange (spec w)"
    and "(\<lambda>n. FinalizerPrefix @ n) ` (set (map r_node (replicas (spec w))) \<union> set (map c_node (clients (spec w))))
      \<subseteq> set (finalizers w)"
  shows "completeLegs nodes getNode w = Inr (w, False)"
proof -
  have r: "completeReplicas nodes getNode [0..<length (replicas (spec w))] (spec w) False = Inr (spec w, False)"
    using assms(1) by (intro completeReplicas_nothing) (auto simp: incompleteChange_def list_ex_iff)
  have c: "completeClients nodes getNode [0..<length (clients (spec w))] (spec w) False = Inr (spec w, False)"
    using assms(1) by (intro completeClients_nothing) (auto simp: incompleteChange_def list_ex_iff)
  have "addFinalizers (nodesOf (replicas (spec w))) (finalizers w) False = (finalizers w, False)"
    "addFinalizers (map c_node (clients (spec w))) (finalizers w) False = (finalizers w, False)"
    using assms(2) by (auto intro!: addFinalizers_nothing simp: nodesOf_def)
  then show ?thesis using r c by (simp add: completeLegs_def)
qed

text \<open>A replica the loop had to complete passed every check of \<^const>\<open>complete\<close>.\<close>

lemma completeReplicas_checked:
  assumes "completeReplicas nodes getNode is s ch = Inr (s', ch')" and "distinct is"
    and "\<forall>j\<in>set is. j < length (replicas s)"
    and "i \<in> set is" and "r_address (replicas s ! i) = ''''" and "pool_inv p s"
  shows "has_key nodes (r_node (replicas s ! i)) \<and>
    (\<not> r_diskless (replicas s ! i) \<longrightarrow>
      (r_pool (replicas s ! i) = '''' \<or> PoolOrDefault (r_pool (replicas s ! i)) = p) \<and>
      map_Pool nodes (r_node (replicas s ! i)) p \<noteq> None)"
  using assms
proof (induction nodes getNode "is" s ch rule: completeReplicas.induct)
  case (2 nodes getNode j "is" s ch)
  have p: "volumePool s = p" using 2(8) by (simp add: pool_inv_def)
  show ?case
  proof (cases "r_address (replicas s ! j) \<noteq> ''''")
    case True
    then have "i \<in> set is" using 2(6,7) by auto
    then show ?thesis using 2(1) [OF True] 2(3-8) True by auto
  next
    case False
    then obtain rep where c: "complete nodes getNode s (replicas s ! j) = Inr rep"
      using 2(3) by (cases "complete nodes getNode s (replicas s ! j)") auto
    show ?thesis
    proof (cases "i = j")
      case True
      then show ?thesis using c p by (auto simp: complete_def Let_def split: if_splits)
    next
      case ij: False
      have inv: "pool_inv p (s\<lparr>replicas := (replicas s)[j := rep]\<rparr>)"
        using 2(5,8) False complete_Inr [OF c] p by (intro pool_inv_replica) (auto split: if_splits)
      show ?thesis
        using 2(2) [OF _ c] 2(3-7) False c inv ij by auto
    qed
  qed
qed simp

text \<open>The volume the pass works on: as read, or as the API server returned it from the label
  patch.\<close>

definition last_read :: "membership_env \<Rightarrow> MiroirVolume option" where
  "last_read env =
     (case me_get env of
        Inl _ \<Rightarrow> None
      | Inr v \<Rightarrow> (case snd (ensurePVCRef env v) of Inl _ \<Rightarrow> None | Inr u \<Rightarrow> Some u))"

lemma ensurePVCRef_no_update: "UpdateVolume w \<notin> set (fst (ensurePVCRef env v))"
  by (auto simp: ensurePVCRef_def Let_def split: if_splits sum.splits option.splits prod.splits)

lemma membership_update:
  assumes "UpdateVolume w \<in> set (fst (membership_Reconcile env))"
  obtains u nodes where "last_read env = Some u" and "has_drbd (spec u)" and "me_nodes env = Inr nodes"
    and "completeLegs nodes (me_getNode env) u = Inr (w, True)"
proof -
  from assms obtain v where v: "me_get env = Inr v"
    by (auto simp: membership_Reconcile_def split: sum.splits)
  obtain ws r where e: "ensurePVCRef env v = (ws, r)" by fastforce
  have "UpdateVolume w \<notin> set ws" using ensurePVCRef_no_update [of w env v] e by simp
  with assms v e obtain u where u: "r = Inr u" "UpdateVolume w \<in> set (fst (completeAndUpdate env u))"
    by (auto simp: membership_Reconcile_def split: sum.splits if_splits prod.splits)
  then have "last_read env = Some u" using v e by (simp add: last_read_def)
  with u(2) that show thesis
    by (auto simp: completeAndUpdate_def updateThen_def has_drbd_def
        split: if_splits sum.splits place_error.splits prod.splits)
qed

text \<open>
  C13. Membership completion is safe: when the volume read is admitted and no two of its completed
  legs share a DRBD node id, what the reconciler writes is admitted by every CEL rule as an update
  of it, changes nothing but legs without an address (of those neither node nor disklessness), and
  again no two completed legs share a node id, all of which fit DRBD's sixteen slots; the
  completed diskful legs all live in the volume's pool.
\<close>

theorem membership_write_sound:
  assumes "UpdateVolume w \<in> set (fst (membership_Reconcile env))" and "last_read env = Some u"
    and "admit_create (spec u)" and "ids_ok (spec u)"
  shows "admit_update (spec u) (spec w) \<and> fills_in (spec u) (spec w) \<and> ids_ok (spec w) \<and>
    pool_inv (volumePool (spec u)) (spec w)"
proof -
  obtain u' nodes where "last_read env = Some u'" "has_drbd (spec u')"
      "completeLegs nodes (me_getNode env) u' = Inr (w, True)"
    using membership_update [OF assms(1)] by metis
  with assms show ?thesis using completeLegs_sound by auto
qed


text \<open>
  All or nothing: as long as one replica entry without an address names a node outside the
  topology, or is diskful and names another pool than the volume's or a node that lacks it, the
  reconciler writes no completion at all, not even of the other entries.
\<close>

theorem membership_all_or_nothing:
  assumes "last_read env = Some u" and "rule_pool_uniform (spec u)" and "me_nodes env = Inr nodes"
    and "rep \<in> set (replicas (spec u))" and "r_address rep = ''''"
    and "\<not> has_key nodes (r_node rep) \<or>
      \<not> r_diskless rep \<and> (r_pool rep \<noteq> '''' \<and> PoolOrDefault (r_pool rep) \<noteq> volumePool (spec u) \<or>
        map_Pool nodes (r_node rep) (volumePool (spec u)) = None)"
  shows "UpdateVolume w \<notin> set (fst (membership_Reconcile env))"
proof
  assume "UpdateVolume w \<in> set (fst (membership_Reconcile env))"
  then have "completeLegs nodes (me_getNode env) u = Inr (w, True)"
    using membership_update assms(1,3) by (metis option.inject sum.inject(2))
  then obtain s ch where c:
    "completeReplicas nodes (me_getNode env) [0..<length (replicas (spec u))] (spec u) False = Inr (s, ch)"
    using completeLegs_split by metis
  from assms(4) obtain i where "i < length (replicas (spec u))" "rep = replicas (spec u) ! i"
    by (metis in_set_conv_nth)
  then show False
    using completeReplicas_checked [OF c, of i "volumePool (spec u)"] pool_inv_start [OF assms(2)] assms(5,6)
    by auto
qed

section \<open>Witnesses\<close>

definition joining_spec :: MiroirVolumeSpec where
  "joining_spec = example_spec
     [example_replica ''a'' 0 ''10.0.0.1'', example_replica ''b'' 2 ''10.0.0.2'', bare_replica ''c'']
     [\<lparr>c_node = ''d'', c_nodeID = 0, c_address = '''', c_addedAt = Some 5\<rparr>]"

definition example_env :: "nodemap \<Rightarrow> MiroirVolume \<Rightarrow> membership_env" where
  "example_env nodes v = \<lparr>me_get = Inr v, me_getPV = (\<lambda>_. Inl NotFound), me_patch = Inr,
     me_nodes = Inr nodes,
     me_getNode = (\<lambda>n. Inr \<lparr>kn_name = n, kn_addresses = [(''InternalIP'', ''10.0.1.9'')],
        kn_conditions = [], kn_labels = [], kn_annotations = []\<rparr>),
     me_update = (\<lambda>_. None)\<rparr>"

definition joined_volume :: MiroirVolume where
  "joined_volume = example_volume (joining_spec\<lparr>
     replicas := [example_replica ''a'' 0 ''10.0.0.1'', example_replica ''b'' 2 ''10.0.0.2'',
       (example_replica ''c'' 1 ''10.0.0.3'')\<lparr>r_pool := ''default'', r_fullSync := True\<rparr>],
     clients := [\<lparr>c_node = ''d'', c_nodeID = 3, c_address = ''10.0.1.9'', c_addedAt = Some 5\<rparr>]\<rparr>)
     (map (\<lambda>n. FinalizerPrefix @ n) [''a'', ''b'', ''c'', ''d''])"

lemma joined_written:
  "UpdateVolume joined_volume \<in> set (fst (membership_Reconcile (example_env example_nodes (example_volume joining_spec []))))"
  by code_simp

lemma joining_last_read:
  "last_read (example_env nodes (example_volume joining_spec [])) = Some (example_volume joining_spec [])"
  by (simp add: last_read_def example_env_def ensurePVCRef_def example_volume_def str_at_def)

theorem membership_write_sound_witness:
  "admit_update joining_spec (spec joined_volume) \<and> ids_ok (spec joined_volume)"
proof -
  have "admit_create (spec (example_volume joining_spec [])) \<and> ids_ok (spec (example_volume joining_spec []))"
    by code_simp
  then show ?thesis
    using membership_write_sound [OF joined_written joining_last_read] by (simp add: example_volume_def)
qed


theorem membership_all_or_nothing_witness:
  "UpdateVolume joined_volume \<notin>
     set (fst (membership_Reconcile (example_env (take 2 example_nodes) (example_volume joining_spec []))))"
proof (rule membership_all_or_nothing [OF joining_last_read])
  show "rule_pool_uniform (spec (example_volume joining_spec []))" by code_simp
  show "me_nodes (example_env (take 2 example_nodes) (example_volume joining_spec [])) = Inr (take 2 example_nodes)"
    by (simp add: example_env_def)
  show "bare_replica ''c'' \<in> set (replicas (spec (example_volume joining_spec [])))" by code_simp
qed (simp_all add: bare_replica_def has_key_def example_nodes_def)

end
