(* ===== verification/AutoDiskful.thy ===== *)
theory AutoDiskful
  imports TieBreaker Membership
begin

text \<open>
  \<^verbatim>\<open>internal/membership/autodiskful.go\<close>: the reconciler that turns a long-lived client leg, or a
  tie-breaker a consumer stages through, into a diskful replica. A candidate carries its
  conversion as a function, as in the source; the clock is read once per pass.
\<close>

section \<open>Model\<close>

datatype leg_kind = kindClient | kindReplica | kindTieBreaker

record autodiskful_env =
  de_get :: "api_error + MiroirVolume"
  de_nodes :: "api_error + nodemap"
  de_getMiroirNode :: "string \<Rightarrow> api_error + MiroirNode"
  de_now :: gotime
  de_after :: duration
  de_update :: "MiroirVolume \<Rightarrow> api_error option"

definition convertClient ::
    "MiroirVolumeSpec \<Rightarrow> nat \<Rightarrow> BackendType \<Rightarrow> string \<Rightarrow> MiroirVolumeSpec" where
  "convertClient s clientIdx backend pool =
     (let cl = clients s ! clientIdx
      in s\<lparr>replicas := filter (\<lambda>r. \<not> r_diskless r) (replicas s) @
             [\<lparr>r_node = c_node cl, r_backend = backend, r_pool = pool, r_nodeID = c_nodeID cl,
               r_address = c_address cl, r_fullSync = True, r_diskless = False\<rparr>],
           clients := take clientIdx (clients s) @ drop (clientIdx + 1) (clients s)\<rparr>)"

record candidate =
  cand_node :: string
  cand_kind :: leg_kind
  cand_since :: gotime
  cand_apply :: "MiroirVolumeSpec \<Rightarrow> MiroirVolumeSpec"

definition clientCandidate :: "nodemap \<Rightarrow> string \<Rightarrow> nat \<Rightarrow> VolumeClient \<Rightarrow> candidate list" where
  "clientCandidate nodes pool i cl =
     (case (map_Pool nodes (c_node cl) pool, c_addedAt cl) of
        (Some entry, Some t) \<Rightarrow>
          if c_address cl = '''' then []
          else [\<lparr>cand_node = c_node cl, cand_kind = kindClient, cand_since = t,
                 cand_apply = (\<lambda>s. convertClient s i (pool_backend entry) pool)\<rparr>]
      | _ \<Rightarrow> [])"

definition tieBreakerCandidate :: "nodemap \<Rightarrow> string \<Rightarrow> MiroirVolume \<Rightarrow> nat \<Rightarrow> Replica \<Rightarrow> candidate list" where
  "tieBreakerCandidate nodes pool v i rep =
     (if \<not> r_diskless rep then []
      else case (map_Pool nodes (r_node rep) pool, st_primarySince (status_of v (r_node rep))) of
        (Some entry, Some t) \<Rightarrow>
          [\<lparr>cand_node = r_node rep, cand_kind = kindTieBreaker, cand_since = t,
            cand_apply = (\<lambda>s. s\<lparr>replicas := convertTieBreaker (replicas s) i (pool_backend entry) pool\<rparr>)\<rparr>]
      | _ \<Rightarrow> [])"

definition candidates :: "MiroirVolume \<Rightarrow> nodemap \<Rightarrow> candidate list" where
  "candidates v nodes =
     (let pool = volumePool (spec v)
      in concat (map (\<lambda>(i, cl). clientCandidate nodes pool i cl) (enumerate 0 (clients (spec v)))) @
         concat (map (\<lambda>(i, rep). tieBreakerCandidate nodes pool v i rep) (enumerate 0 (replicas (spec v)))))"

datatype block_reason = NotReady | ThreeDiskful | ChangeInFlight | NoRoom room_reason

text \<open>The reason and whether it is transient; \<^const>\<open>None\<close> when the conversion may proceed.\<close>

definition conversionBlocked :: "autodiskful_env \<Rightarrow> MiroirVolume \<Rightarrow> string \<Rightarrow> (block_reason \<times> bool) option" where
  "conversionBlocked env v node =
     (if phase (status v) \<noteq> VolumeReady then Some (NotReady, True)
      else if 3 \<le> length (DiskfulReplicas (spec v)) then Some (ThreeDiskful, False)
      else if incompleteChange (spec v) then Some (ChangeInFlight, True)
      else (let mn = (case de_getMiroirNode env node of Inl _ \<Rightarrow> None | Inr n \<Rightarrow> Some n)
            in case poolRoom (de_now env) mn (volumePool (spec v)) (sizeBytes (spec v)) of
                 Some r \<Rightarrow> Some (NoRoom r, True)
               | None \<Rightarrow> None))"

fun convertFirst :: "autodiskful_env \<Rightarrow> MiroirVolume \<Rightarrow> candidate list \<Rightarrow> duration \<Rightarrow> outcome" where
  "convertFirst env v [] wait = ([], Inr wait)"
| "convertFirst env v (c # cs) wait =
     (let remaining = de_after env - (de_now env - cand_since c)
      in if 0 < remaining
         then convertFirst env v cs (if wait = 0 \<or> remaining < wait then remaining else wait)
         else case conversionBlocked env v (cand_node c) of
                Some (_, transient) \<Rightarrow> ([], Inr (if transient then 60 * 10 ^ 9 else 0))
              | None \<Rightarrow> updateThen (de_update env) (v\<lparr>spec := cand_apply c (spec v)\<rparr>) 0)"

definition autodiskful_Reconcile :: "autodiskful_env \<Rightarrow> outcome" where
  "autodiskful_Reconcile env =
     (case de_get env of
        Inl e \<Rightarrow> ([], ignoreNotFound e)
      | Inr v \<Rightarrow>
          if deletionTimestamp v \<noteq> None \<or> drbd (spec v) = None then ([], Inr 0)
          else (case de_nodes env of
                  Inl e \<Rightarrow> ([], Inl (ApiErr e))
                | Inr nodes \<Rightarrow> convertFirst env v (candidates v nodes) 0))"

definition primarySinceChanged :: "MiroirVolume \<Rightarrow> MiroirVolume \<Rightarrow> bool" where
  "primarySinceChanged oldVol newVol \<longleftrightarrow>
     list_ex (\<lambda>(node, st). (st_primarySince st = None) \<noteq> (st_primarySince (status_of oldVol node) = None))
       (perNode (status newVol)) \<or>
     list_ex (\<lambda>(node, st). \<not> has_key (perNode (status newVol)) node \<and> st_primarySince st \<noteq> None)
       (perNode (status oldVol))"

section \<open>Conversions\<close>

text \<open>A conversion is either of the two rewrites, at an index and with a pool of the volume.\<close>

inductive converts :: "nodemap \<Rightarrow> MiroirVolumeSpec \<Rightarrow> string \<Rightarrow> MiroirVolumeSpec \<Rightarrow> bool" for nodes s where
  client: "i < length (clients s) \<Longrightarrow> c_address (clients s ! i) \<noteq> '''' \<Longrightarrow>
     map_Pool nodes (c_node (clients s ! i)) (volumePool s) = Some entry \<Longrightarrow>
     converts nodes s (c_node (clients s ! i)) (convertClient s i (pool_backend entry) (volumePool s))"
| tiebreaker: "i < length (replicas s) \<Longrightarrow> r_diskless (replicas s ! i) \<Longrightarrow>
     map_Pool nodes (r_node (replicas s ! i)) (volumePool s) = Some entry \<Longrightarrow>
     converts nodes s (r_node (replicas s ! i))
       (s\<lparr>replicas := convertTieBreaker (replicas s) i (pool_backend entry) (volumePool s)\<rparr>)"

lemma candidates_convert:
  assumes "c \<in> set (candidates v nodes)"
  shows "converts nodes (spec v) (cand_node c) (cand_apply c (spec v))"
proof -
  let ?s = "spec v" and ?p = "volumePool (spec v)"
  consider i cl where "i < length (clients ?s)" "cl = clients ?s ! i" "c \<in> set (clientCandidate nodes ?p i cl)"
    | i rep where "i < length (replicas ?s)" "rep = replicas ?s ! i" "c \<in> set (tieBreakerCandidate nodes ?p v i rep)"
    using assms by (auto simp: candidates_def Let_def in_set_enumerate_eq)
  then show ?thesis
  proof cases
    case 1
    then show ?thesis
      by (auto simp: clientCandidate_def split: option.splits if_splits intro: converts.client [OF _ _ sym])
  next
    case 2
    then show ?thesis
      by (auto simp: tieBreakerCandidate_def split: option.splits if_splits intro: converts.tiebreaker [OF _ _ sym])
  qed
qed

lemma convertFirst_writes:
  assumes "x \<in> set (fst (convertFirst env v cs w))"
  shows "\<exists>c\<in>set cs. x = UpdateVolume (v\<lparr>spec := cand_apply c (spec v)\<rparr>) \<and>
    cand_since c \<le> de_now env - de_after env \<and> conversionBlocked env v (cand_node c) = None"
  using assms
  by (induction env v cs w rule: convertFirst.induct)
    (auto simp: Let_def updateThen_def split: if_splits option.splits prod.splits)

text \<open>What a conversion does to a spec with every leg completed: the converted node's leg becomes a
  diskful replica with its node id and address unchanged, the diskful replicas all stay, and no
  leg changes identity.\<close>

definition converted :: "MiroirVolumeSpec \<Rightarrow> string \<Rightarrow> MiroirVolumeSpec \<Rightarrow> bool" where
  "converted s n t \<longleftrightarrow> spec_frame t = spec_frame s \<and>
     (\<exists>r\<in>set (replicas t). r_node r = n \<and> \<not> r_diskless r \<and> r_fullSync r \<and> r_pool r = volumePool s \<and>
        (n, r_nodeID r, r_address r) \<in> set (spec_legs s) \<and> set (replicas t) \<subseteq> insert r (set (replicas s))) \<and>
     set (DiskfulReplicas s) \<subseteq> set (DiskfulReplicas t) \<and>
     length (DiskfulReplicas t) = Suc (length (DiskfulReplicas s)) \<and>
     mset (completed_ids (spec_legs t)) \<subseteq># mset (completed_ids (spec_legs s)) \<and>
     set (spec_legs t) \<subseteq> set (spec_legs s)"

lemma convertTieBreaker_split:
  assumes "i < length rs"
  shows "rs = take i rs @ rs ! i # drop (Suc i) rs"
    and "convertTieBreaker rs i b p = take i rs @
      (rs ! i)\<lparr>r_diskless := False, r_backend := b, r_pool := p, r_fullSync := True\<rparr> # drop (Suc i) rs"
  using assms by (simp_all add: id_take_nth_drop convertTieBreaker_def upd_conv_take_nth_drop)

lemma convertTieBreaker_converted:
  assumes "i < length (replicas s)" and "r_diskless (replicas s ! i)"
  shows "converted s (r_node (replicas s ! i))
    (s\<lparr>replicas := convertTieBreaker (replicas s) i b (volumePool s)\<rparr>)"
proof -
  define t where "t = s\<lparr>replicas := convertTieBreaker (replicas s) i b (volumePool s)\<rparr>"
  obtain xs r ys where rs: "replicas s = xs @ r # ys" "replicas s ! i = r"
      "replicas t = xs @ r\<lparr>r_diskless := False, r_backend := b, r_pool := volumePool s, r_fullSync := True\<rparr> # ys"
    using convertTieBreaker_split(1) [OF assms(1)]
      convertTieBreaker_split(2) [OF assms(1), of b "volumePool s"] by (simp add: t_def)
  define r' where "r' = r\<lparr>r_diskless := False, r_backend := b, r_pool := volumePool s, r_fullSync := True\<rparr>"
  have r': "r_node r' = r_node r" "r_nodeID r' = r_nodeID r" "r_address r' = r_address r"
      "\<not> r_diskless r'" "r_fullSync r'" "r_pool r' = volumePool s"
    by (simp_all add: r'_def)
  have rt: "replicas t = xs @ r' # ys" "clients t = clients s" using rs(3) by (simp_all add: r'_def t_def)
  have d: "r_diskless r" using assms(2) rs(2) by simp
  have legs: "spec_legs t = spec_legs s" unfolding spec_legs_def rt rs(1) using r' by simp
  have "(r_node r', r_nodeID r', r_address r') \<in> set (spec_legs s)"
    unfolding spec_legs_def rs(1) using r' by simp
  moreover have "spec_frame t = spec_frame s" by (simp add: t_def)
  moreover have "set (DiskfulReplicas s) \<subseteq> set (DiskfulReplicas t)"
    "length (DiskfulReplicas t) = Suc (length (DiskfulReplicas s))"
    unfolding DiskfulReplicas_def rt rs(1) using d r' by auto
  moreover have "set (replicas t) \<subseteq> insert r' (set (replicas s))" "r' \<in> set (replicas t)"
    unfolding rt rs(1) by auto
  ultimately show ?thesis
    unfolding converted_def legs rs(2) t_def [symmetric] using r' by (intro conjI bexI [of _ r']) auto
qed

lemma convertClient_converted:
  assumes "i < length (clients s)"
  shows "converted s (c_node (clients s ! i)) (convertClient s i b (volumePool s))"
proof -
  let ?t = "convertClient s i b (volumePool s)"
  define xs where "xs = take i (clients s)"
  define ys where "ys = drop (Suc i) (clients s)"
  define cl where "cl = clients s ! i"
  define r where "r = \<lparr>r_node = c_node cl, r_backend = b, r_pool = volumePool s, r_nodeID = c_nodeID cl,
               r_address = c_address cl, r_fullSync = True, r_diskless = False\<rparr>"
  define rs where "rs = filter (\<lambda>r. \<not> r_diskless r) (replicas s)"
  have cs: "clients s = xs @ cl # ys"
    unfolding xs_def ys_def cl_def by (rule id_take_nth_drop [OF assms])
  have t: "replicas ?t = rs @ [r]" "clients ?t = xs @ ys"
    unfolding convertClient_def by (simp_all add: Let_def rs_def r_def xs_def ys_def cl_def)
  have r: "r_node r = c_node cl" "r_nodeID r = c_nodeID cl" "r_address r = c_address cl"
      "\<not> r_diskless r" "r_fullSync r" "r_pool r = volumePool s"
    by (simp_all add: r_def)
  have sub: "set rs \<subseteq> set (replicas s)" by (auto simp: rs_def)
  have "(r_node r, r_nodeID r, r_address r) \<in> set (spec_legs s)"
    unfolding spec_legs_def cs using r by simp
  moreover have "set (spec_legs ?t) \<subseteq> set (spec_legs s)"
    unfolding spec_legs_def t cs using r sub by auto
  moreover have "mset (completed_ids (spec_legs ?t)) \<subseteq># mset (completed_ids (spec_legs s))"
    using completed_ids_map_filter [of "\<lambda>r. (r_node r, r_nodeID r, r_address r)" "\<lambda>r. \<not> r_diskless r" "replicas s"]
    unfolding spec_legs_def t cs rs_def [symmetric] using r by (auto simp: completed_ids_split)
  moreover have "DiskfulReplicas ?t = DiskfulReplicas s @ [r]"
    unfolding DiskfulReplicas_def t using r by (simp add: rs_def)
  moreover have "spec_frame ?t = spec_frame s" by (simp add: convertClient_def Let_def)
  ultimately show ?thesis
    unfolding converted_def cl_def [symmetric] using r sub t(1) by (intro conjI bexI [of _ r]) auto
qed

lemma converted_admitted:
  assumes c: "converted s n t" and adm: "admit_create s" "has_drbd s"
    and shape: "length (replicas t) \<le> 3" "\<not> r_diskless (hd (replicas t))" "length (clients t) \<le> 2"
      "distinct (map r_node (replicas t) @ map c_node (clients t))" "clients t = [] \<or> clients s \<noteq> []"
  shows "admit_update s t"
proof (rule admit_update_legs)
  have ok: "legs_ok (replicas s) (clients s)" using adm admit_create_drbd by blast
  have inv: "pool_inv (volumePool s) s" using adm(1) by (intro pool_inv_start) (simp add: admit_create_def)
  have "\<forall>r\<in>set (replicas t). \<not> r_diskless r \<longrightarrow> r_address r \<noteq> '''' \<longrightarrow> cel_pool r = volumePool s"
  proof -
    obtain r where "set (replicas t) \<subseteq> insert r (set (replicas s))" "r_pool r = volumePool s"
      using c unfolding converted_def by blast
    moreover have "\<forall>r\<in>set (replicas s). \<not> r_diskless r \<longrightarrow> r_address r \<noteq> '''' \<longrightarrow> cel_pool r = volumePool s"
      using inv unfolding pool_inv_def cel_pool_PoolOrDefault by blast
    ultimately show ?thesis unfolding cel_pool_PoolOrDefault by (metis insertE subsetD volumePool_idem)
  qed
  then have "pools_agree (replicas t)" unfolding pools_agree_def by metis
  moreover have "2 \<le> length (DiskfulReplicas t)"
    using c ok unfolding converted_def legs_ok_def DiskfulReplicas_def by linarith
  ultimately show "legs_ok (replicas t) (clients t)"
    using shape unfolding legs_ok_def DiskfulReplicas_def by blast
  show "spec_frame t = spec_frame s" using c by (simp add: converted_def)
  fix r r0
  assume r: "r \<in> set (replicas t)" "r0 \<in> set (replicas s)" "r_node r = r_node r0" "\<not> r_diskless r0"
  then have "r0 \<in> set (replicas t)"
    using c unfolding converted_def DiskfulReplicas_def by auto
  moreover have "inj_on r_node (set (replicas t))" using shape(4) by (simp add: distinct_map)
  ultimately have "r = r0" using r(1,3) by (metis inj_onD)
  then show "\<not> r_diskless r \<and> (r_address r0 = '''' \<or> cel_pool r0 = cel_pool r)" using r(4) by simp
qed (use adm shape in auto)

lemma convertTieBreaker_admitted:
  assumes "admit_create s" "has_drbd s" and i: "i < length (replicas s)" and "r_diskless (replicas s ! i)"
  shows "admit_update s (s\<lparr>replicas := convertTieBreaker (replicas s) i b (volumePool s)\<rparr>)"
proof (rule converted_admitted [OF convertTieBreaker_converted [OF i assms(4)] assms(1,2)])
  let ?rs = "convertTieBreaker (replicas s) i b (volumePool s)"
  have ok: "length (replicas s) \<le> 3" "\<not> r_diskless (hd (replicas s))" "length (clients s) \<le> 2"
      "distinct (map r_node (replicas s) @ map c_node (clients s))"
    using assms(1,2) admit_create_drbd unfolding legs_ok_def by blast+
  have nodes: "map r_node ?rs = map r_node (replicas s)"
    unfolding convertTieBreaker_def using i by (intro map_list_update_same) simp_all
  have "i \<noteq> 0" using assms(4) ok(2) i by (metis hd_conv_nth length_greater_0_conv)
  then have "hd ?rs = hd (replicas s)"
    using i by (cases "replicas s"; cases i) (auto simp: convertTieBreaker_def)
  then show "\<not> r_diskless (hd (replicas (s\<lparr>replicas := ?rs\<rparr>)))" using ok(2) by simp
  show "distinct (map r_node (replicas (s\<lparr>replicas := ?rs\<rparr>)) @ map c_node (clients (s\<lparr>replicas := ?rs\<rparr>)))"
    using ok(4) nodes by simp
qed (use assms(1,2) admit_create_drbd in \<open>auto simp: legs_ok_def convertTieBreaker_def\<close>)

lemma convertClient_admitted:
  assumes "admit_create s" "has_drbd s" and i: "i < length (clients s)" and "length (DiskfulReplicas s) < 3"
  shows "admit_update s (convertClient s i b (volumePool s))"
proof (rule converted_admitted [OF convertClient_converted [OF i] assms(1,2)])
  let ?t = "convertClient s i b (volumePool s)"
  have ok: "2 \<le> length (DiskfulReplicas s)" "length (clients s) \<le> 2"
      "distinct (map r_node (replicas s) @ map c_node (clients s))"
    using assms(1,2) admit_create_drbd unfolding legs_ok_def DiskfulReplicas_def by blast+
  define rs where "rs = DiskfulReplicas s"
  have t: "map r_node (replicas ?t) = map r_node rs @ [c_node (clients s ! i)]"
      "clients ?t = take i (clients s) @ drop (Suc i) (clients s)"
      "length (replicas ?t) = Suc (length rs)" "hd (replicas ?t) = hd rs"
    using ok(1) by (auto simp: convertClient_def Let_def rs_def DiskfulReplicas_def hd_append)
  show "length (replicas ?t) \<le> 3" using assms(4) t(3) by (simp add: rs_def)
  have "rs \<noteq> []" using ok(1) by (auto simp: rs_def)
  then have "hd rs \<in> set rs" by simp
  then show "\<not> r_diskless (hd (replicas ?t))" unfolding t(4) by (simp add: rs_def DiskfulReplicas_def)
  show "length (clients ?t) \<le> 2" using ok(2) i t(2) by simp
  show "clients ?t = [] \<or> clients s \<noteq> []" using i by auto
  have cs: "clients s = take i (clients s) @ clients s ! i # drop (Suc i) (clients s)"
    by (rule id_take_nth_drop [OF i])
  have "distinct (map r_node rs @ map c_node (clients s))"
    using ok(3) unfolding rs_def DiskfulReplicas_def by (auto intro: distinct_map_filter)
  then show "distinct (map r_node (replicas ?t) @ map c_node (clients ?t))"
    unfolding t(1,2) by (subst (asm) cs) auto
qed

section \<open>The pass\<close>

text \<open>
  C24. Auto-diskful conversion: a pass attempts at most one write. A write is made only for a Ready
  volume with every leg completed and fewer than three diskful replicas, and it converts one
  client or tie-breaker leg on a node whose fresh pool statistics have room for the volume: that
  node's leg becomes a full-syncing diskful replica in the volume's pool under its old node id and
  address, all diskful replicas stay, no leg changes identity, the write is admitted by every CEL
  rule, and node ids stay distinct.
\<close>

theorem autodiskful_conversion:
  assumes "de_get env = Inr v" and "admit_create (spec v)" and "ids_ok (spec v)"
  shows "length (fst (autodiskful_Reconcile env)) \<le> 1 \<and>
    (\<forall>w. w \<in> set (fst (autodiskful_Reconcile env)) \<longrightarrow>
      phase (status v) = VolumeReady \<and> \<not> incompleteChange (spec v) \<and> length (DiskfulReplicas (spec v)) = 2 \<and>
      (\<exists>n mn. converted (spec v) n (spec (written w)) \<and> de_getMiroirNode env n = Inr mn \<and>
         poolRoom (de_now env) (Some mn) (volumePool (spec v)) (sizeBytes (spec v)) = None) \<and>
      admit_update (spec v) (spec (written w)) \<and> ids_ok (spec (written w)))"
proof (intro conjI allI impI)
  show "length (fst (autodiskful_Reconcile env)) \<le> 1"
  proof -
    have "length (fst (convertFirst env v cs w)) \<le> 1" for cs w
      by (induction env v cs w rule: convertFirst.induct)
        (auto simp: Let_def updateThen_def split: option.splits)
    then show ?thesis using assms(1) by (auto simp: autodiskful_Reconcile_def split: sum.splits)
  qed
  fix w
  assume "w \<in> set (fst (autodiskful_Reconcile env))"
  then obtain nodes where d: "has_drbd (spec v)" and "w \<in> set (fst (convertFirst env v (candidates v nodes) 0))"
    using assms(1) by (auto simp: autodiskful_Reconcile_def has_drbd_def split: sum.splits if_splits)
  then obtain c where c: "c \<in> set (candidates v nodes)" "w = UpdateVolume (v\<lparr>spec := cand_apply c (spec v)\<rparr>)"
      and nb: "conversionBlocked env v (cand_node c) = None"
    using convertFirst_writes by blast
  let ?s = "spec v" and ?t = "cand_apply c (spec v)"
  have t: "spec (written w) = ?t" using c(2) by simp
  from nb have gate: "phase (status v) = VolumeReady" "length (DiskfulReplicas ?s) < 3" "\<not> incompleteChange ?s"
    and room: "\<exists>mn. de_getMiroirNode env (cand_node c) = Inr mn \<and>
      poolRoom (de_now env) (Some mn) (volumePool ?s) (sizeBytes ?s) = None"
    by (auto simp: conversionBlocked_def Let_def poolRoom_def split: if_splits option.splits sum.splits)
  show "phase (status v) = VolumeReady" "\<not> incompleteChange ?s" using gate by auto
  show "length (DiskfulReplicas ?s) = 2"
    using gate(2) assms(2) admit_create_drbd [OF d] by (simp add: legs_ok_def DiskfulReplicas_def)
  have "converted ?s (cand_node c) ?t \<and> admit_update ?s ?t"
    using candidates_convert [OF c(1)] convertClient_admitted [OF assms(2) d] gate(2)
      convertTieBreaker_admitted [OF assms(2) d]
    by (cases rule: converts.cases) (auto intro: convertClient_converted convertTieBreaker_converted)
  then show "\<exists>n mn. converted ?s n (spec (written w)) \<and> de_getMiroirNode env n = Inr mn \<and>
         poolRoom (de_now env) (Some mn) (volumePool ?s) (sizeBytes ?s) = None"
      "admit_update ?s (spec (written w))" "ids_ok (spec (written w))"
    using room assms(3) ids_ok_mset_le unfolding t converted_def by blast+
qed

definition aged_volume :: MiroirVolume where
  "aged_volume = example_volume (example_spec
     [example_replica ''a'' 0 ''10.0.0.1'', example_replica ''b'' 1 ''10.0.0.2'']
     [\<lparr>c_node = ''c'', c_nodeID = 2, c_address = ''10.0.0.3'', c_addedAt = Some 0\<rparr>]) []"

definition roomy_node :: "string \<Rightarrow> gotime \<Rightarrow> MiroirNode" where
  "roomy_node n t = (example_node n '''')\<lparr>mn_status :=
     \<lparr>mns_pools = [\<lparr>ps_name = ''default'', ps_capacityBytes = 10737418240, ps_allocatedBytes = 0\<rparr>],
      mns_observedAt = Some t, mns_conditions = []\<rparr>\<rparr>"

definition aged_env :: autodiskful_env where
  "aged_env = \<lparr>de_get = Inr aged_volume, de_nodes = Inr example_nodes,
     de_getMiroirNode = (\<lambda>n. Inr (roomy_node n 1000)), de_now = 1000, de_after = 900, de_update = \<lambda>_. None\<rparr>"

theorem autodiskful_conversion_witness:
  "\<exists>w. w \<in> set (fst (autodiskful_Reconcile aged_env)) \<and> admit_update (spec aged_volume) (spec (written w))"
proof -
  have v: "de_get aged_env = Inr aged_volume" by (simp add: aged_env_def)
  have a: "admit_create (spec aged_volume)" "ids_ok (spec aged_volume)" by code_simp+
  have "fst (autodiskful_Reconcile aged_env) \<noteq> []" by code_simp
  then obtain w where "w \<in> set (fst (autodiskful_Reconcile aged_env))" by (metis list.set_intros(1) neq_Nil_conv)
  then show ?thesis using autodiskful_conversion [OF v a] by blast
qed

end
