(* ===== verification/AutoEvict.thy ===== *)
theory AutoEvict
  imports AutoDiskful
begin

text \<open>
  \<^verbatim>\<open>internal/membership/autoevict.go\<close>: the reconciler that re-places the legs of a node whose
  heartbeat has been stale for the eviction threshold. The answers of the API server are the
  fields of \<open>autoevict_env\<close>; the clock is read once per pass. A slice index that would panic is an
  outcome of its own, and is shown unreachable.
\<close>

section \<open>Model\<close>

definition DiskUpToDate :: string where
  "DiskUpToDate = ''UpToDate''"

definition evictRecheckInterval :: duration where
  "evictRecheckInterval = 5 * 60 * 10 ^ 9"

record autoevict_env =
  ae_name :: string
  ae_listNodes :: "api_error + MiroirNode list"
  ae_getNode :: "string \<Rightarrow> api_error + KNode"
  ae_listSnapshots :: "api_error + MiroirSnapshot list"
  ae_listVolumes :: "api_error + MiroirVolume list"
  ae_now :: gotime
  ae_after :: duration
  ae_update :: "MiroirVolume \<Rightarrow> api_error option"

record evictPass =
  pinned :: "string list"
  pass_nodes :: "MiroirNode gomap"
  pass_topology :: nodemap

datatype evictOutcome = evictedOutcome | blockedOutcome | peerConnectedOutcome

datatype evict_reason = BeingDeleted | Unreplicated | EvictChangeInFlight | NotUpToDate string
  | LinksUp string | SnapshotsPin

text \<open>The survivors in list order: the first one without a clean copy, or with a live link to
  every diskful peer, decides.\<close>

fun survivorBlocks ::
    "MiroirVolume \<Rightarrow> string \<Rightarrow> bool \<Rightarrow> Replica list \<Rightarrow> (evict_reason \<times> evictOutcome) option" where
  "survivorBlocks v dead deadDiskful [] = None"
| "survivorBlocks v dead deadDiskful (rep # reps) =
     (if r_node rep = dead \<or> r_diskless rep then survivorBlocks v dead deadDiskful reps
      else case map_of (perNode (status v)) (r_node rep) of
        None \<Rightarrow> Some (NotUpToDate (r_node rep), blockedOutcome)
      | Some st \<Rightarrow>
          if st_diskState st \<noteq> DiskUpToDate \<or> st_splitBrain st
          then Some (NotUpToDate (r_node rep), blockedOutcome)
          else if deadDiskful \<and> st_connected st
          then Some (LinksUp (r_node rep), peerConnectedOutcome)
          else survivorBlocks v dead deadDiskful reps)"

text \<open>The index of the dead node's replica; \<^const>\<open>None\<close> is the source's \<open>-1\<close>.\<close>

definition deadIndex :: "MiroirVolumeSpec \<Rightarrow> string \<Rightarrow> nat option" where
  "deadIndex s dead = find (\<lambda>i. r_node (replicas s ! i) = dead) [0..<length (replicas s)]"

definition evictBlocked ::
    "MiroirVolume \<Rightarrow> string \<Rightarrow> nat option \<Rightarrow> evictPass \<Rightarrow> (evict_reason \<times> evictOutcome) option" where
  "evictBlocked v dead deadIdx pass =
     (if deletionTimestamp v \<noteq> None then Some (BeingDeleted, blockedOutcome)
      else if drbd (spec v) = None then Some (Unreplicated, blockedOutcome)
      else if incompleteChange (spec v) then Some (EvictChangeInFlight, blockedOutcome)
      else (let deadDiskful = (case deadIdx of None \<Rightarrow> False | Some i \<Rightarrow> \<not> r_diskless (replicas (spec v) ! i))
            in case survivorBlocks v dead deadDiskful (replicas (spec v)) of
                 Some r \<Rightarrow> Some r
               | None \<Rightarrow>
                   if deadDiskful \<and> vname v \<in> set (pinned pass) then Some (SnapshotsPin, blockedOutcome)
                   else None))"

definition swapReplica :: "Replica list \<Rightarrow> string \<Rightarrow> Replica \<Rightarrow> Replica list" where
  "swapReplica rs dead replacement =
     filter (\<lambda>r. \<not> (r_node r = dead \<or> r_diskless r)) rs @
     (if \<not> r_diskless replacement then [replacement] else []) @
     filter (\<lambda>r. \<not> (r_node r = dead \<or> \<not> r_diskless r)) rs @
     (if r_diskless replacement then [replacement] else [])"

definition replacementNode :: "nodemap \<Rightarrow> MiroirVolumeSpec \<Rightarrow> string \<Rightarrow> (string \<Rightarrow> bool) \<Rightarrow> string" where
  "replacementNode nodes s dead fits =
     PickSpare nodes (map r_node (replicas s) @ map c_node (clients s))
       (filter (\<lambda>z. z \<noteq> '''')
          (map (\<lambda>r. nd_zone (node_at nodes (r_node r))) (filter (\<lambda>r. r_node r \<noteq> dead) (replicas s))))
       fits"

definition fitsNode :: "gotime \<Rightarrow> evictPass \<Rightarrow> string \<Rightarrow> int \<Rightarrow> string \<Rightarrow> bool" where
  "fitsNode now pass poolName want node \<longleftrightarrow>
     map_Pool (pass_topology pass) node poolName \<noteq> None \<and>
     poolRoom now (map_of (pass_nodes pass) node) poolName want = None"

definition plan ::
    "gotime \<Rightarrow> MiroirVolumeSpec \<Rightarrow> string \<Rightarrow> nat option \<Rightarrow> evictPass \<Rightarrow>
     leg_kind \<times> (MiroirVolumeSpec \<Rightarrow> MiroirVolumeSpec) option" where
  "plan now s dead deadIdx pass =
     (case deadIdx of
        None \<Rightarrow> (kindClient, Some (\<lambda>v. v\<lparr>clients := filter (\<lambda>c. c_node c \<noteq> dead) (clients v)\<rparr>))
      | Some d \<Rightarrow>
          if r_diskless (replicas s ! d) then
            (let tb = TieBreakerNode (pass_topology pass) (legs_with_clients s)
             in (kindTieBreaker,
                 if tb = '''' then None
                 else Some (\<lambda>v. v\<lparr>replicas := swapReplica (replicas v) dead (tieBreakerEntry tb)\<rparr>)))
          else
            (let poolName = volumePool s;
                 repl = replacementNode (pass_topology pass) s dead
                          (fitsNode now pass poolName (sizeBytes s))
             in if repl \<noteq> '''' then
                  (kindReplica, Some (\<lambda>v. v\<lparr>replicas := swapReplica (replicas v) dead (bare_replica repl)\<rparr>))
                else
                  (kindReplica,
                   case find (\<lambda>i. r_diskless (replicas s ! i) \<and> r_node (replicas s ! i) \<noteq> dead \<and>
                                 fitsNode now pass poolName (sizeBytes s) (r_node (replicas s ! i)))
                          [0..<length (replicas s)] of
                     None \<Rightarrow> None
                   | Some i \<Rightarrow>
                       (case map_Pool (pass_topology pass) (r_node (replicas s ! i)) poolName of
                          None \<Rightarrow> None
                        | Some pool \<Rightarrow>
                            Some (\<lambda>v. v\<lparr>replicas := filter (\<lambda>r. r_node r \<noteq> dead)
                              (convertTieBreaker (replicas v) i (pool_backend pool) poolName)\<rparr>)))))"

definition evictVolume ::
    "autoevict_env \<Rightarrow> MiroirVolume \<Rightarrow> string \<Rightarrow> evictPass \<Rightarrow> api_write list \<times> (rec_error + evictOutcome)" where
  "evictVolume env v dead pass =
     (let deadIdx = deadIndex (spec v) dead
      in case evictBlocked v dead deadIdx pass of
           Some (_, outcome) \<Rightarrow> ([], Inr outcome)
         | None \<Rightarrow>
             (case snd (plan (ae_now env) (spec v) dead deadIdx pass) of
                None \<Rightarrow> ([], Inr blockedOutcome)
              | Some apply \<Rightarrow>
                  (let w = v\<lparr>spec := apply (spec v)\<rparr>
                   in ([UpdateVolume w],
                       case ae_update env w of
                         Some Conflict \<Rightarrow> Inr blockedOutcome
                       | Some e \<Rightarrow> Inl (ApiErr e)
                       | None \<Rightarrow> Inr evictedOutcome))))"

definition nodeReady :: "autoevict_env \<Rightarrow> string \<Rightarrow> rec_error + bool" where
  "nodeReady env name =
     (case ae_getNode env name of
        Inl e \<Rightarrow> if e = NotFound then Inr False else Inl (ApiErr e)
      | Inr node \<Rightarrow>
          (case find (\<lambda>c. fst c = ''Ready'') (kn_conditions node) of
             Some c \<Rightarrow> Inr (snd c = ConditionTrue)
           | None \<Rightarrow> Inr False))"

definition staleNodes :: "autoevict_env \<Rightarrow> MiroirNode list \<Rightarrow> nodemap \<Rightarrow> string list" where
  "staleNodes env items topology =
     sort (map mn_name (filter (\<lambda>n. AutoEvictAllowed topology (mn_name n) \<and>
       (case mns_observedAt (mn_status n) of None \<Rightarrow> False | Some t \<Rightarrow> ae_after env \<le> ae_now env - t)) items))"

definition gather ::
    "autoevict_env \<Rightarrow> MiroirNode list \<Rightarrow> nodemap \<Rightarrow> rec_error + (evictPass \<times> string list)" where
  "gather env items topology =
     (case ae_listSnapshots env of
        Inl e \<Rightarrow> Inl (ApiErr e)
      | Inr snaps \<Rightarrow>
          Inr (\<lparr>pinned = map sn_volumeName snaps,
                pass_nodes = foldl (\<lambda>m n. AList.update (mn_name n) n m) [] items,
                pass_topology = topology\<rparr>, staleNodes env items topology))"

fun evictLoop ::
    "autoevict_env \<Rightarrow> evictPass \<Rightarrow> MiroirVolume list \<Rightarrow> bool \<Rightarrow> outcome" where
  "evictLoop env pass [] blocked = ([], Inr (if blocked then evictRecheckInterval else 0))"
| "evictLoop env pass (v # vs) blocked =
     (if \<not> hasLegOn (spec v) (ae_name env) then evictLoop env pass vs blocked
      else case evictVolume env v (ae_name env) pass of
        (ws, Inl e) \<Rightarrow> (ws, Inl e)
      | (ws, Inr evictedOutcome) \<Rightarrow>
          (let (ws', r) = evictLoop env pass vs blocked in (ws @ ws', r))
      | (ws, Inr peerConnectedOutcome) \<Rightarrow> (ws, Inr evictRecheckInterval)
      | (ws, Inr blockedOutcome) \<Rightarrow>
          (let (ws', r) = evictLoop env pass vs True in (ws @ ws', r)))"

text \<open>The pass from the point where the node's heartbeat has been found stale.\<close>

definition evictStale :: "autoevict_env \<Rightarrow> MiroirNode list \<Rightarrow> nodemap \<Rightarrow> outcome" where
  "evictStale env items topology =
     (case nodeReady env (ae_name env) of
        Inl e \<Rightarrow> ([], Inl e)
      | Inr True \<Rightarrow> ([], Inr evictRecheckInterval)
      | Inr False \<Rightarrow>
     (case gather env items topology of
        Inl e \<Rightarrow> ([], Inl e)
      | Inr (pass, stale) \<Rightarrow>
          if 1 < length stale then ([], Inr evictRecheckInterval)
          else (case ae_listVolumes env of
                  Inl e \<Rightarrow> ([], Inl (ApiErr e))
                | Inr vols \<Rightarrow> evictLoop env pass vols False)))"

definition autoevict_Reconcile :: "autoevict_env \<Rightarrow> outcome" where
  "autoevict_Reconcile env =
     (case ae_listNodes env of
        Inl e \<Rightarrow> ([], Inl (ApiErr e))
      | Inr items \<Rightarrow>
          (let topology = FromNodes items
           in if \<not> AutoEvictAllowed topology (ae_name env) then ([], Inr 0)
              else case find (\<lambda>n. mn_name n = ae_name env) items of
                     None \<Rightarrow> ([], Inl IndexPanic)
                   | Some mn \<Rightarrow>
                  (case mns_observedAt (mn_status mn) of
                     None \<Rightarrow> ([], Inr 0)
                   | Some t \<Rightarrow>
                       (let remaining = ae_after env - (ae_now env - t)
                        in if 0 < remaining then ([], Inr remaining)
                           else evictStale env items topology))))"

section \<open>The swap\<close>

lemma partition_mset: "mset (filter P xs) + mset (filter (\<lambda>x. \<not> P x) xs) = mset xs"
  by (simp add: mset_filter multiset_partition [symmetric])

lemma split_at_node:
  assumes "distinct (map r_node rs)" and "r \<in> set rs"
  obtains xs ys where "rs = xs @ r # ys" and "\<forall>x\<in>set xs \<union> set ys. r_node x \<noteq> r_node r"
proof -
  obtain xs ys where rs: "rs = xs @ r # ys" using assms(2) split_list by metis
  with assms(1) have "r_node r \<notin> r_node ` (set xs \<union> set ys)" by auto
  then have "\<forall>x\<in>set xs \<union> set ys. r_node x \<noteq> r_node r" by (metis image_eqI)
  with rs that show thesis by blast
qed

lemma swapReplica_split:
  assumes "rs = xs @ r # ys" and "\<forall>x\<in>set xs \<union> set ys. r_node x \<noteq> r_node r"
  shows "swapReplica rs (r_node r) new =
    filter (\<lambda>r. \<not> r_diskless r) (xs @ ys) @ (if \<not> r_diskless new then [new] else []) @
    filter r_diskless (xs @ ys) @ (if r_diskless new then [new] else [])"
proof -
  have "filter (\<lambda>x. r_node x \<noteq> r_node r \<and> \<not> r_diskless x) zs = filter (\<lambda>x. \<not> r_diskless x) zs"
    "filter (\<lambda>x. r_node x \<noteq> r_node r \<and> r_diskless x) zs = filter r_diskless zs"
    if "\<forall>x\<in>set zs. r_node x \<noteq> r_node r" for zs
    using that by (auto intro: filter_cong)
  from this [of "xs @ ys"] assms(2) have
    "filter (\<lambda>x. r_node x \<noteq> r_node r \<and> \<not> r_diskless x) (xs @ ys) = filter (\<lambda>x. \<not> r_diskless x) (xs @ ys)"
    "filter (\<lambda>x. r_node x \<noteq> r_node r \<and> r_diskless x) (xs @ ys) = filter r_diskless (xs @ ys)"
    by (simp_all only: set_append)
  then show ?thesis using assms(1) by (simp add: swapReplica_def)
qed

lemma swapReplica_mset:
  assumes "rs = xs @ r # ys" and "\<forall>x\<in>set xs \<union> set ys. r_node x \<noteq> r_node r"
  shows "mset (swapReplica rs (r_node r) new) = add_mset new (mset (xs @ ys))"
proof -
  have "mset (filter (\<lambda>r. \<not> r_diskless r) zs) + mset (filter r_diskless zs) = mset zs" for zs
    using partition_mset [of r_diskless zs] by (simp add: add.commute)
  from this [of "xs @ ys"] show ?thesis
    unfolding swapReplica_split [OF assms] by (simp add: add.assoc)
qed

lemma completed_ids_mset:
  "mset as = mset bs \<Longrightarrow> mset (completed_ids (map f as)) = mset (completed_ids (map f bs))"
  by (simp add: completed_ids_def filter_map flip: mset_map mset_filter) (simp add: mset_map mset_filter)

text \<open>Swapping a replica for a bare entry of the same kind on a node without a leg.\<close>

lemma swapReplica_legs_ok:
  assumes ok: "legs_ok rs cs" and r: "r \<in> set rs"
    and new: "r_node new \<notin> set (map r_node rs @ map c_node cs)" "r_address new = ''''"
      "r_diskless new = r_diskless r"
  shows "legs_ok (swapReplica rs (r_node r) new) cs"
proof -
  let ?D = "\<lambda>x. \<not> r_diskless x" and ?sw = "swapReplica rs (r_node r) new"
  have parts: "2 \<le> length (filter ?D rs)" "length rs \<le> 3" "length cs \<le> 2"
      "distinct (map r_node rs @ map c_node cs)" "pools_agree rs"
    using ok unfolding legs_ok_def by blast+
  obtain xs ys where rs: "rs = xs @ r # ys" "\<forall>x\<in>set xs \<union> set ys. r_node x \<noteq> r_node r"
    using split_at_node [OF _ r] parts(4) by (auto simp: distinct_append)
  have ms: "mset ?sw = mset (new # xs @ ys)" using swapReplica_mset [OF rs] by simp
  have "length (filter ?D ?sw) = size (filter_mset ?D (mset (new # xs @ ys)))"
    by (metis ms mset_filter size_mset)
  also have "\<dots> = length (filter ?D rs)" using new(3) rs(1) by (simp flip: mset_filter)
  finally have d: "length (filter ?D ?sw) = length (filter ?D rs)" .
  have len: "length ?sw = length rs" using arg_cong [OF ms, of size] rs(1) by simp
  have "length (filter ?D (xs @ ys)) \<ge> 1" using parts(1) rs(1) by (auto split: if_splits)
  then have ne: "filter ?D (xs @ ys) \<noteq> []" by auto
  then have "hd ?sw = hd (filter ?D (xs @ ys))" unfolding swapReplica_split [OF rs] by (rule hd_append2)
  then have h: "\<not> r_diskless (hd ?sw)" using hd_in_set [OF ne] by auto
  have "mset (map r_node ?sw @ map c_node cs) = mset (map r_node (new # xs @ ys) @ map c_node cs)"
    using ms by simp
  then have "distinct (map r_node ?sw @ map c_node cs) = distinct (map r_node (new # xs @ ys) @ map c_node cs)"
    by (rule mset_eq_imp_distinct_iff)
  also have "\<dots>" using parts(4) new(1) rs(1) by auto
  finally have dist: "distinct (map r_node ?sw @ map c_node cs)" .
  have "set ?sw = set (new # xs @ ys)" using ms by (rule mset_eq_setD)
  then have "set ?sw \<subseteq> insert new (set rs)" using rs(1) by auto
  then have "pools_agree ?sw" using pools_agree_passive [OF parts(5)] new(2) by blast
  then show ?thesis unfolding legs_ok_def using d len h dist parts(1-3) by simp
qed

section \<open>The plans\<close>

text \<open>What an eviction does to the spec: the dead node has no leg any more, everything but the legs
  is unchanged, every other leg keeps its node, node id and address, a leg that was not there
  before awaits completion, and the number of diskful replicas is unchanged.\<close>

definition evicted :: "MiroirVolumeSpec \<Rightarrow> string \<Rightarrow> MiroirVolumeSpec \<Rightarrow> bool" where
  "evicted s dead t \<longleftrightarrow> spec_frame t = spec_frame s \<and> \<not> hasLegOn t dead \<and>
     (\<forall>l\<in>set (spec_legs s). fst l \<noteq> dead \<longrightarrow> l \<in> set (spec_legs t)) \<and>
     (\<forall>l\<in>set (spec_legs t). l \<in> set (spec_legs s) \<or> snd (snd l) = '''') \<and>
     length (DiskfulReplicas t) = length (DiskfulReplicas s) \<and>
     mset (completed_ids (spec_legs t)) \<subseteq># mset (completed_ids (spec_legs s))"

lemma hasLegOn_iff: "hasLegOn s n \<longleftrightarrow> n \<in> set (map fst (spec_legs s))"
proof -
  have "ClientForNode s n \<noteq> None \<longleftrightarrow> (\<exists>c\<in>set (clients s). c_node c = n)"
    using find_None_iff [of "\<lambda>c. c_node c = n" "clients s"] unfolding ClientForNode_def by metis
  then show ?thesis by (auto simp: hasLegOn_def list_ex_iff spec_legs_nodes)
qed

lemma count_diskful_mset:
  "mset as = mset bs \<Longrightarrow> length (filter (\<lambda>r. \<not> r_diskless r) as) = length (filter (\<lambda>r. \<not> r_diskless r) bs)"
  by (rule mset_eq_length) simp

lemma distinct_nodes_mset:
  "mset as = mset bs \<Longrightarrow> distinct (map r_node as @ ns) \<longleftrightarrow> distinct (map r_node bs @ ns)"
  by (rule mset_eq_imp_distinct_iff) simp

text \<open>Exchanging one replica for a bare one of the same kind, in any order of the list.\<close>

lemma exchange_evicted:
  assumes ms: "mset (replicas s) = mset (r # rest)" "mset (replicas t) = mset (new # rest)"
    and frame: "clients t = clients s" "spec_frame t = spec_frame s"
    and dist: "distinct (map r_node (replicas s) @ map c_node (clients s))"
    and new: "\<not> hasLegOn s (r_node new)" "r_address new = ''''" "r_diskless new = r_diskless r"
  shows "evicted s (r_node r) t"
proof -
  let ?leg = "\<lambda>r. (r_node r, r_nodeID r, r_address r)"
  have st: "set (replicas s) = insert r (set rest)" "set (replicas t) = insert new (set rest)"
    using mset_eq_setD [OF ms(1)] mset_eq_setD [OF ms(2)] by simp_all
  have d: "distinct (map r_node (r # rest) @ map c_node (clients s))"
    using dist distinct_nodes_mset [OF ms(1)] by blast
  have fresh: "r_node new \<noteq> r_node r" using new(1) st(1) by (auto simp: hasLegOn_iff spec_legs_nodes)
  have "\<not> hasLegOn t (r_node r)"
    using d fresh by (auto simp: hasLegOn_iff spec_legs_nodes frame(1) st(2))
  moreover have "\<forall>l\<in>set (spec_legs s). fst l \<noteq> r_node r \<longrightarrow> l \<in> set (spec_legs t)"
    by (auto simp: spec_legs_def st frame(1))
  moreover have "\<forall>l\<in>set (spec_legs t). l \<in> set (spec_legs s) \<or> snd (snd l) = ''''"
    using new(2) by (auto simp: spec_legs_def st frame(1))
  moreover have "length (DiskfulReplicas t) = length (DiskfulReplicas s)"
    unfolding DiskfulReplicas_def count_diskful_mset [OF ms(1)] count_diskful_mset [OF ms(2)]
    using new(3) by simp
  moreover have "mset (completed_ids (spec_legs t)) \<subseteq># mset (completed_ids (spec_legs s))"
    unfolding spec_legs_def completed_ids_split mset_append frame(1)
      completed_ids_mset [OF ms(1)] completed_ids_mset [OF ms(2)]
    using new(2) by (simp add: completed_ids_split)
  ultimately show ?thesis using frame(2) unfolding evicted_def by simp
qed

lemma swap_evicted:
  assumes "admit_create s" "has_drbd s" and r: "r \<in> set (replicas s)"
    and new: "\<not> hasLegOn s (r_node new)" "r_address new = ''''" "r_diskless new = r_diskless r"
  shows "evicted s (r_node r) (s\<lparr>replicas := swapReplica (replicas s) (r_node r) new\<rparr>) \<and>
    admit_update s (s\<lparr>replicas := swapReplica (replicas s) (r_node r) new\<rparr>)"
proof -
  let ?t = "s\<lparr>replicas := swapReplica (replicas s) (r_node r) new\<rparr>"
  have ok: "legs_ok (replicas s) (clients s)" using assms(1,2) admit_create_drbd by blast
  then have dist: "distinct (map r_node (replicas s) @ map c_node (clients s))" by (simp add: legs_ok_def)
  obtain xs ys where rs: "replicas s = xs @ r # ys" "\<forall>x\<in>set xs \<union> set ys. r_node x \<noteq> r_node r"
    using split_at_node [OF _ r] dist by (auto simp: distinct_append)
  have fresh: "r_node new \<notin> set (map r_node (replicas s) @ map c_node (clients s))"
    using new(1) by (simp add: hasLegOn_iff spec_legs_nodes)
  have ms: "mset (replicas ?t) = mset (new # xs @ ys)" using swapReplica_mset [OF rs] by simp
  have "evicted s (r_node r) ?t"
    by (rule exchange_evicted [OF _ ms _ _ dist new]) (simp_all add: rs(1))
  moreover have "admit_update s ?t"
  proof (rule admit_update_legs)
    show "legs_ok (replicas ?t) (clients ?t)"
      using swapReplica_legs_ok [OF ok r fresh new(2,3)] by simp
    fix x x0
    assume x: "x \<in> set (replicas ?t)" "x0 \<in> set (replicas s)" "r_node x = r_node x0" "\<not> r_diskless x0"
    then have "x \<noteq> new" using fresh by auto
    then have "x \<in> set (replicas s)" using x(1) mset_eq_setD [OF ms] rs(1) by auto
    moreover have "inj_on r_node (set (replicas s))" using dist by (simp add: distinct_map)
    ultimately have "x = x0" using x(2,3) by (metis inj_onD)
    then show "\<not> r_diskless x \<and> (r_address x0 = '''' \<or> cel_pool x0 = cel_pool x)" using x(4) by simp
  qed (use assms(1,2) in simp_all)
  ultimately show ?thesis by blast
qed

lemma drop_diskful_admitted:
  assumes "admit_create s" "has_drbd s" and conv: "converted s n c"
    and ok: "legs_ok (replicas c) (clients c)" and all: "\<forall>x\<in>set (replicas c). \<not> r_diskless x"
    and len: "2 \<le> length (filter P (replicas c))" and cl: "clients c = clients s"
  shows "admit_update s (c\<lparr>replicas := filter P (replicas c)\<rparr>)"
proof (rule admit_update_legs)
  let ?t = "c\<lparr>replicas := filter P (replicas c)\<rparr>"
  have D: "filter (\<lambda>r. \<not> r_diskless r) (filter P (replicas c)) = filter P (replicas c)"
    by (rule filter_True) (use all in auto)
  have ne: "filter P (replicas c) \<noteq> []" using len by auto
  have "\<not> r_diskless (hd (filter P (replicas c)))" using hd_in_set [OF ne] all by auto
  moreover have "pools_agree (filter P (replicas c))"
    using ok pools_agree_mono [of "replicas c" "filter P (replicas c)"] by (auto simp: legs_ok_def)
  moreover have "length (filter P (replicas c)) \<le> 3"
    using ok length_filter_le [of P "replicas c"] unfolding legs_ok_def by linarith
  moreover have "distinct (map r_node (filter P (replicas c)) @ map c_node (clients c))"
    using ok by (auto simp: legs_ok_def intro: distinct_map_filter)
  ultimately show "legs_ok (replicas ?t) (clients ?t)"
    using ok len D by (simp add: legs_ok_def)
  show "spec_frame ?t = spec_frame s" using conv by (simp add: converted_def)
  fix x x0
  assume x: "x \<in> set (replicas ?t)" "x0 \<in> set (replicas s)" "r_node x = r_node x0" "\<not> r_diskless x0"
  then have "x0 \<in> set (replicas c)" using conv by (auto simp: converted_def DiskfulReplicas_def)
  moreover have "inj_on r_node (set (replicas c))" using ok by (simp add: legs_ok_def distinct_map)
  ultimately have "x = x0" using x(1,3) by (auto dest: inj_onD)
  then show "\<not> r_diskless x \<and> (r_address x0 = '''' \<or> cel_pool x0 = cel_pool x)" using x(4) by simp
qed (use assms(1,2) cl in auto)

lemma filter_other_length:
  "distinct (map f xs) \<Longrightarrow> x \<in> set xs \<Longrightarrow> Suc (length (filter (\<lambda>y. f y \<noteq> f x) xs)) = length xs"
proof (induction xs)
  case (Cons a xs)
  show ?case
  proof (cases "a = x")
    case True
    then show ?thesis using Cons.prems(1) filter_other [of "f x" f xs] by simp
  next
    case False
    then have "x \<in> set xs" using Cons.prems(2) by simp
    then show ?thesis using Cons by (auto simp: image_iff)
  qed
qed simp

lemma dropClient_evicted:
  assumes "admit_create s" "has_drbd s" and "deadIndex s dead = None"
  shows "evicted s dead (s\<lparr>clients := filter (\<lambda>c. c_node c \<noteq> dead) (clients s)\<rparr>) \<and>
    admit_update s (s\<lparr>clients := filter (\<lambda>c. c_node c \<noteq> dead) (clients s)\<rparr>)"
proof -
  let ?t = "s\<lparr>clients := filter (\<lambda>c. c_node c \<noteq> dead) (clients s)\<rparr>"
  have ok: "legs_ok (replicas s) (clients s)" using assms(1,2) admit_create_drbd by blast
  have no: "dead \<notin> r_node ` set (replicas s)"
    using assms(3) by (auto simp: deadIndex_def find_None_iff in_set_conv_nth)
  have "evicted s dead ?t"
    using no completed_ids_map_filter [of "\<lambda>c. (c_node c, c_nodeID c, c_address c)" "\<lambda>c. c_node c \<noteq> dead" "clients s"]
    by (auto simp: evicted_def hasLegOn_iff spec_legs_def DiskfulReplicas_def completed_ids_split)
  moreover have "admit_update s ?t"
  proof (rule admit_update_legs)
    show "legs_ok (replicas ?t) (clients ?t)"
      using ok le_trans [OF length_filter_le [of "\<lambda>c. c_node c \<noteq> dead" "clients s"], of 2]
      unfolding legs_ok_def by (auto intro: distinct_map_filter)
    show "\<not> r_diskless x \<and> (r_address x0 = '''' \<or> cel_pool x0 = cel_pool x)"
      if "x \<in> set (replicas ?t)" "x0 \<in> set (replicas s)" "r_node x = r_node x0" "\<not> r_diskless x0" for x x0
    proof -
      have "inj_on r_node (set (replicas s))" using ok by (simp add: legs_ok_def distinct_map)
      then have "x = x0" using that(1-3) by (auto dest: inj_onD)
      then show ?thesis using that(4) by simp
    qed
    show "clients ?t = [] \<or> clients s \<noteq> []" by auto
  qed (use assms(1,2) in simp_all)
  ultimately show ?thesis by blast
qed

text \<open>Without a spare node: a live tie-breaker is flipped diskful and the dead entry dropped.\<close>

lemma convertTieBreaker_legs:
  assumes "i < length rs"
  shows "map (\<lambda>r. (r_node r, r_nodeID r, r_address r)) (convertTieBreaker rs i b p) =
    map (\<lambda>r. (r_node r, r_nodeID r, r_address r)) rs"
  unfolding convertTieBreaker_def using assms by (intro map_list_update_same) simp_all

lemma flip_spec_legs:
  assumes "i < length (replicas s)" and "dead \<notin> c_node ` set (clients s)"
  shows "spec_legs (s\<lparr>replicas := filter (\<lambda>r. r_node r \<noteq> dead) (convertTieBreaker (replicas s) i b p)\<rparr>) =
    filter (\<lambda>l. fst l \<noteq> dead) (spec_legs s)"
proof -
  let ?leg = "\<lambda>r. (r_node r, r_nodeID r, r_address r)" and ?cleg = "\<lambda>c. (c_node c, c_nodeID c, c_address c)"
  have "map ?leg (filter (\<lambda>r. r_node r \<noteq> dead) (convertTieBreaker (replicas s) i b p)) =
      filter (\<lambda>l. fst l \<noteq> dead) (map ?leg (convertTieBreaker (replicas s) i b p))"
    by (simp add: filter_map comp_def)
  moreover have "filter (\<lambda>l. fst l \<noteq> dead) (map ?cleg (clients s)) = map ?cleg (clients s)"
    using filter_other [OF assms(2)] by (simp add: filter_map comp_def)
  ultimately show ?thesis
    unfolding spec_legs_def by (simp add: convertTieBreaker_legs [OF assms(1)])
qed

lemma flip_evicted:
  assumes "admit_create s" "has_drbd s" and r: "r \<in> set (replicas s)" "\<not> r_diskless r"
    and i: "i < length (replicas s)" "r_diskless (replicas s ! i)"
    and c_def: "c = s\<lparr>replicas := convertTieBreaker (replicas s) i b (volumePool s)\<rparr>"
  shows "evicted s (r_node r) (c\<lparr>replicas := filter (\<lambda>x. r_node x \<noteq> r_node r) (replicas c)\<rparr>) \<and>
    admit_update s (c\<lparr>replicas := filter (\<lambda>x. r_node x \<noteq> r_node r) (replicas c)\<rparr>)"
proof -
  let ?t = "c\<lparr>replicas := filter (\<lambda>x. r_node x \<noteq> r_node r) (replicas c)\<rparr>"
  have conv: "converted s (r_node (replicas s ! i)) c"
    unfolding c_def by (rule convertTieBreaker_converted [OF i])
  have adm: "admit_update s c" unfolding c_def by (rule convertTieBreaker_admitted [OF assms(1,2) i])
  then have okc: "legs_ok (replicas c) (clients c)" and oks: "legs_ok (replicas s) (clients s)"
    using assms(1,2) admit_create_drbd by (auto simp: admit_update_def admit_transition_def rule_drbd_kept_def)
  have two: "2 \<le> length (DiskfulReplicas s)" using oks by (simp add: legs_ok_def DiskfulReplicas_def)
  have rc: "r \<in> set (DiskfulReplicas c)" and suc: "length (DiskfulReplicas c) = Suc (length (DiskfulReplicas s))"
    using conv r by (auto simp: converted_def DiskfulReplicas_def)
  have "length (DiskfulReplicas c) = length (replicas c)"
    using suc two okc length_filter_le [of "\<lambda>r. \<not> r_diskless r" "replicas c"]
    by (simp add: legs_ok_def DiskfulReplicas_def)
  then have all: "\<forall>x\<in>set (replicas c). \<not> r_diskless x"
    unfolding DiskfulReplicas_def length_filter_all by blast
  then have allt: "DiskfulReplicas ?t = replicas ?t" "DiskfulReplicas c = replicas c"
    unfolding DiskfulReplicas_def by (intro filter_True; simp)+
  have dc: "distinct (map r_node (replicas c))" "distinct (map r_node (replicas s) @ map c_node (clients s))"
    using okc oks by (simp_all add: legs_ok_def)
  have len: "Suc (length (replicas ?t)) = length (replicas c)"
    using filter_other_length [OF dc(1), of r] rc allt(2) by simp
  have legs: "spec_legs ?t = filter (\<lambda>l. fst l \<noteq> r_node r) (spec_legs s)"
    using flip_spec_legs [OF i(1), of "r_node r"] dc(2) r(1) by (auto simp: c_def)
  have "evicted s (r_node r) ?t"
    unfolding evicted_def hasLegOn_iff legs allt(1)
    using suc len allt(2) completed_ids_map_filter [of id "\<lambda>l. fst l \<noteq> r_node r" "spec_legs s"]
    by (auto simp: c_def)
  moreover have "admit_update s ?t"
    by (rule drop_diskful_admitted [OF assms(1,2) conv okc all]) (use len suc two allt(2) c_def in auto)
  ultimately show ?thesis by blast
qed

lemma deadIndex_Some:
  assumes "deadIndex s dead = Some d"
  shows "d < length (replicas s) \<and> r_node (replicas s ! d) = dead"
  using find_SomeD [OF assms [unfolded deadIndex_def]] by simp

lemma plan_flip:
  assumes "snd (plan now s dead (deadIndex s dead) pass) = Some f" and "deadIndex s dead = Some d"
    and "\<not> r_diskless (replicas s ! d)"
    and "replacementNode (pass_topology pass) s dead (fitsNode now pass (volumePool s) (sizeBytes s)) = ''''"
  shows "\<exists>i b. i < length (replicas s) \<and> r_diskless (replicas s ! i) \<and>
    f s = s\<lparr>replicas := filter (\<lambda>r. r_node r \<noteq> dead) (convertTieBreaker (replicas s) i b (volumePool s))\<rparr>"
proof -
  let ?P = "\<lambda>i. r_diskless (replicas s ! i) \<and> r_node (replicas s ! i) \<noteq> dead \<and>
      fitsNode now pass (volumePool s) (sizeBytes s) (r_node (replicas s ! i))"
  obtain i where i: "find ?P [0..<length (replicas s)] = Some i"
    using assms by (cases "find ?P [0..<length (replicas s)]") (simp_all add: plan_def Let_def)
  obtain pool where "map_Pool (pass_topology pass) (r_node (replicas s ! i)) (volumePool s) = Some pool"
    using assms i by (cases "map_Pool (pass_topology pass) (r_node (replicas s ! i)) (volumePool s)")
      (simp_all add: plan_def Let_def)
  then have "f = (\<lambda>v. v\<lparr>replicas := filter (\<lambda>r. r_node r \<noteq> dead)
      (convertTieBreaker (replicas v) i (pool_backend pool) (volumePool s))\<rparr>)"
    using assms i by (simp add: plan_def Let_def)
  then show ?thesis using find_SomeD [OF i] by (intro exI [of _ i] exI [of _ "pool_backend pool"]) simp
qed

lemma plan_sound:
  assumes plan: "snd (plan now s dead (deadIndex s dead) pass) = Some f"
    and adm: "admit_create s" "has_drbd s"
  shows "evicted s dead (f s) \<and> admit_update s (f s)"
proof (cases "deadIndex s dead")
  case None
  then show ?thesis using plan dropClient_evicted [OF adm None] by (auto simp: plan_def)
next
  case (Some d)
  let ?r = "replicas s ! d" and ?topo = "pass_topology pass"
  have r: "?r \<in> set (replicas s)" "r_node ?r = dead" using deadIndex_Some [OF Some] by auto
  show ?thesis
  proof (cases "r_diskless ?r")
    case True
    let ?tb = "TieBreakerNode ?topo (legs_with_clients s)"
    have tb: "?tb \<noteq> ''''" "f = (\<lambda>v. v\<lparr>replicas := swapReplica (replicas v) dead (tieBreakerEntry ?tb)\<rparr>)"
      using plan Some True by (auto simp: plan_def Let_def split: if_splits)
    then have "?tb \<notin> set (map r_node (legs_with_clients s))"
      unfolding TieBreakerNode_def using PickSpare_member by blast
    then have "\<not> hasLegOn s ?tb" using legs_with_clients_nodes [of s] by blast
    then show ?thesis
      using swap_evicted [OF adm r(1), of "tieBreakerEntry ?tb"] r(2) tb(2) True
      by (simp add: tieBreakerEntry_def bare_replica_def)
  next
    case dl: False
    define fits where "fits = fitsNode now pass (volumePool s) (sizeBytes s)"
    define repl where "repl = replacementNode ?topo s dead fits"
    show ?thesis
    proof (cases "repl = ''''")
      case False
      then have f: "f = (\<lambda>v. v\<lparr>replicas := swapReplica (replicas v) dead (bare_replica repl)\<rparr>)"
        using plan Some dl by (auto simp: plan_def Let_def repl_def fits_def)
      have "repl \<notin> set (map r_node (replicas s) @ map c_node (clients s))"
        using False unfolding repl_def replacementNode_def by (metis PickSpare_member)
      then have "\<not> hasLegOn s repl" by (simp add: hasLegOn_iff spec_legs_nodes)
      then show ?thesis
        using swap_evicted [OF adm r(1), of "bare_replica repl"] r(2) f dl by (simp add: bare_replica_def)
    next
      case True
      then show ?thesis
        using plan_flip [OF plan Some dl] flip_evicted [OF adm r(1) dl _ _ refl] r(2)
        unfolding repl_def fits_def by fastforce
    qed
  qed
qed

lemma survivorBlocks_None:
  assumes "survivorBlocks v dead dd reps = None" and "rep \<in> set reps" "r_node rep \<noteq> dead" "\<not> r_diskless rep"
  shows "\<exists>st. map_of (perNode (status v)) (r_node rep) = Some st \<and> st_diskState st = DiskUpToDate \<and>
    \<not> st_splitBrain st \<and> (dd \<longrightarrow> \<not> st_connected st)"
  using assms
  by (induction v dead dd reps rule: survivorBlocks.induct) (auto split: if_splits option.splits)

section \<open>The pass\<close>

text \<open>The conditions under which a volume's leg is taken off the dead node.\<close>

definition eviction_justified :: "MiroirVolume \<Rightarrow> string \<Rightarrow> MiroirSnapshot list \<Rightarrow> bool" where
  "eviction_justified v dead snaps \<longleftrightarrow> deletionTimestamp v = None \<and> has_drbd (spec v) \<and>
     \<not> incompleteChange (spec v) \<and>
     (\<forall>rep\<in>set (DiskfulReplicas (spec v)). r_node rep \<noteq> dead \<longrightarrow>
        st_diskState (status_of v (r_node rep)) = DiskUpToDate \<and> \<not> st_splitBrain (status_of v (r_node rep))) \<and>
     (dead \<in> set (map r_node (DiskfulReplicas (spec v))) \<longrightarrow>
        (\<forall>rep\<in>set (DiskfulReplicas (spec v)). r_node rep \<noteq> dead \<longrightarrow> \<not> st_connected (status_of v (r_node rep))) \<and>
        vname v \<notin> set (map sn_volumeName snaps))"

lemma evictBlocked_None:
  assumes nb: "evictBlocked v dead (deadIndex (spec v) dead) pass = None"
    and pin: "pinned pass = map sn_volumeName snaps" and dist: "distinct (map r_node (replicas (spec v)))"
  shows "eviction_justified v dead snaps"
proof -
  let ?s = "spec v"
  let ?dd = "case deadIndex ?s dead of None \<Rightarrow> False | Some i \<Rightarrow> \<not> r_diskless (replicas ?s ! i)"
  have gate: "deletionTimestamp v = None" "has_drbd ?s" "\<not> incompleteChange ?s"
      "survivorBlocks v dead ?dd (replicas ?s) = None" "?dd \<Longrightarrow> vname v \<notin> set (map sn_volumeName snaps)"
    using nb pin by (auto simp: evictBlocked_def has_drbd_def Let_def split: if_splits option.splits)
  have clean: "st_diskState (status_of v (r_node rep)) = DiskUpToDate \<and> \<not> st_splitBrain (status_of v (r_node rep)) \<and>
      (?dd \<longrightarrow> \<not> st_connected (status_of v (r_node rep)))"
    if "rep \<in> set (DiskfulReplicas ?s)" "r_node rep \<noteq> dead" for rep
    using survivorBlocks_None [OF gate(4), of rep] that by (auto simp: DiskfulReplicas_def status_of_def)
  have dd: "?dd" if "dead \<in> set (map r_node (DiskfulReplicas ?s))"
  proof -
    obtain r where r: "r \<in> set (replicas ?s)" "r_node r = dead" "\<not> r_diskless r"
      using \<open>dead \<in> set (map r_node (DiskfulReplicas ?s))\<close> by (auto simp: DiskfulReplicas_def)
    then obtain j where "j < length (replicas ?s)" "replicas ?s ! j = r" by (metis in_set_conv_nth)
    then obtain d where d: "deadIndex ?s dead = Some d"
      using find_exists [of j "[0..<length (replicas ?s)]" "\<lambda>i. r_node (replicas ?s ! i) = dead"] r(2)
      by (auto simp: deadIndex_def)
    then have "replicas ?s ! d \<in> set (replicas ?s)" "r_node (replicas ?s ! d) = r_node r"
      using deadIndex_Some [OF d] r(2) by auto
    then have "replicas ?s ! d = r" using dist r(1) by (metis distinct_map inj_onD)
    then show ?thesis using d r(3) by simp
  qed
  show ?thesis unfolding eviction_justified_def using gate clean dd by blast
qed

lemma evictVolume_write:
  assumes "x \<in> set (fst (evictVolume env v dead pass))" and "admit_create (spec v)"
    and "pinned pass = map sn_volumeName snaps"
  shows "\<exists>t. x = UpdateVolume (v\<lparr>spec := t\<rparr>) \<and> evicted (spec v) dead t \<and> admit_update (spec v) t \<and>
    eviction_justified v dead snaps"
proof -
  from assms(1) obtain f where nb: "evictBlocked v dead (deadIndex (spec v) dead) pass = None"
      and f: "snd (plan (ae_now env) (spec v) dead (deadIndex (spec v) dead) pass) = Some f"
      and x: "x = UpdateVolume (v\<lparr>spec := f (spec v)\<rparr>)"
    by (auto simp: evictVolume_def Let_def split: option.splits prod.splits)
  have d: "has_drbd (spec v)"
    using nb by (auto simp: evictBlocked_def has_drbd_def split: if_splits)
  then have "distinct (map r_node (replicas (spec v)))"
    using assms(2) admit_create_drbd by (simp add: legs_ok_def)
  then show ?thesis
    using evictBlocked_None [OF nb assms(3)] plan_sound [OF f assms(2) d] x by blast
qed

lemma evictLoop_write:
  "x \<in> set (fst (evictLoop env pass vs b)) \<Longrightarrow>
   \<exists>v\<in>set vs. hasLegOn (spec v) (ae_name env) \<and> x \<in> set (fst (evictVolume env v (ae_name env) pass))"
proof (induction vs arbitrary: b)
  case (Cons v vs)
  obtain ws r where e: "evictVolume env v (ae_name env) pass = (ws, r)" by fastforce
  have "x \<in> set ws \<and> hasLegOn (spec v) (ae_name env) \<or> (\<exists>b. x \<in> set (fst (evictLoop env pass vs b)))"
    using Cons.prems e
    by (cases r) (auto simp: case_prod_unfold Let_def split: if_splits evictOutcome.splits)
  then show ?case using Cons.IH e by fastforce
qed simp
lemma evictStale_no_panic: "snd (evictStale env items topo) \<noteq> Inl IndexPanic"
proof -
  have "snd (evictVolume env v n pass) \<noteq> Inl IndexPanic" for v n pass
    by (auto simp: evictVolume_def Let_def split: option.splits api_error.splits)
  then have "snd (evictLoop env pass vs b) \<noteq> Inl IndexPanic" for pass vs b
  proof (induction vs arbitrary: b)
    case (Cons v vs)
    obtain ws r where e: "evictVolume env v (ae_name env) pass = (ws, r)" by fastforce
    have "r \<noteq> Inl IndexPanic" using Cons.prems [of v "ae_name env" pass] e by simp
    then show ?case
      using Cons.IH [OF Cons.prems] e
      by (cases r) (auto simp: case_prod_unfold Let_def split: evictOutcome.splits)
  qed simp
  then show ?thesis
    by (auto simp: evictStale_def gather_def nodeReady_def split: sum.splits bool.splits option.splits)
qed

text \<open>What a write of the pass says about the node itself.\<close>

lemma autoevict_run:
  assumes "x \<in> set (fst (autoevict_Reconcile env))"
  obtains items mn t snaps vols where "ae_listNodes env = Inr items"
    and "find (\<lambda>n. mn_name n = ae_name env) items = Some mn" and "mns_observedAt (mn_status mn) = Some t"
    and "ae_after env \<le> ae_now env - t" and "AutoEvictAllowed (FromNodes items) (ae_name env)"
    and "nodeReady env (ae_name env) = Inr False" and "length (staleNodes env items (FromNodes items)) \<le> 1"
    and "ae_listSnapshots env = Inr snaps" and "ae_listVolumes env = Inr vols"
    and "x \<in> set (fst (evictLoop env \<lparr>pinned = map sn_volumeName snaps,
           pass_nodes = foldl (\<lambda>m n. AList.update (mn_name n) n m) [] items,
           pass_topology = FromNodes items\<rparr> vols False))"
proof -
  from assms obtain items where i: "ae_listNodes env = Inr items" "AutoEvictAllowed (FromNodes items) (ae_name env)"
    by (auto simp: autoevict_Reconcile_def Let_def split: sum.splits if_splits)
  with assms obtain mn t where m: "find (\<lambda>n. mn_name n = ae_name env) items = Some mn"
      "mns_observedAt (mn_status mn) = Some t"
    by (auto simp: autoevict_Reconcile_def Let_def split: option.splits)
  with assms i have a: "ae_after env \<le> ae_now env - t" "x \<in> set (fst (evictStale env items (FromNodes items)))"
    by (auto simp: autoevict_Reconcile_def Let_def split: if_splits)
  then have r: "nodeReady env (ae_name env) = Inr False"
    by (auto simp: evictStale_def split: sum.splits bool.splits)
  with a obtain snaps where s: "ae_listSnapshots env = Inr snaps"
    by (auto simp: evictStale_def gather_def split: sum.splits)
  with a r obtain vols where v: "ae_listVolumes env = Inr vols" "length (staleNodes env items (FromNodes items)) \<le> 1"
    by (auto simp: evictStale_def gather_def split: sum.splits if_splits)
  with a r s that [OF i(1) m a(1) i(2) r v(2) s v(1)] show thesis
    by (auto simp: evictStale_def gather_def split: if_splits)
qed

text \<open>
  C2. Every write of an eviction pass is a safe re-placement. If the listed volumes are admitted
  specs with distinct node ids, each written object is a listed volume in which only the spec
  changed (its finalizers, the dead node's included, stay); no leg is left on the dead node, every
  other leg keeps its identity, the number of diskful replicas is the same, every CEL rule admits
  the change and node ids stay distinct. It happens only to a live replicated volume with all legs
  completed whose surviving diskful replicas all hold a clean UpToDate copy and, when the dead leg
  is diskful, none of them sees all its diskful peers connected and no snapshot pins the volume.
\<close>

theorem autoevict_safe:
  assumes "w \<in> set (fst (autoevict_Reconcile env))" and "ae_listVolumes env = Inr vols"
    and "ae_listSnapshots env = Inr snaps"
    and "\<forall>v\<in>set vols. admit_create (spec v) \<and> ids_ok (spec v)"
  shows "\<exists>v\<in>set vols. \<exists>t. w = UpdateVolume (v\<lparr>spec := t\<rparr>) \<and> hasLegOn (spec v) (ae_name env) \<and>
    evicted (spec v) (ae_name env) t \<and> admit_update (spec v) t \<and> ids_ok t \<and>
    eviction_justified v (ae_name env) snaps"
proof -
  obtain items snaps' vols' where "ae_listSnapshots env = Inr snaps'" "ae_listVolumes env = Inr vols'"
      "w \<in> set (fst (evictLoop env \<lparr>pinned = map sn_volumeName snaps',
           pass_nodes = foldl (\<lambda>m n. AList.update (mn_name n) n m) [] items,
           pass_topology = FromNodes items\<rparr> vols' False))"
    by (rule autoevict_run [OF assms(1)])
  then have w: "w \<in> set (fst (evictLoop env \<lparr>pinned = map sn_volumeName snaps,
           pass_nodes = foldl (\<lambda>m n. AList.update (mn_name n) n m) [] items,
           pass_topology = FromNodes items\<rparr> vols False))"
    using assms(2,3) by simp
  let ?pass = "\<lparr>pinned = map sn_volumeName snaps,
           pass_nodes = foldl (\<lambda>m n. AList.update (mn_name n) n m) [] items, pass_topology = FromNodes items\<rparr>"
  obtain v where v: "v \<in> set vols" "hasLegOn (spec v) (ae_name env)"
      "w \<in> set (fst (evictVolume env v (ae_name env) ?pass))"
    using evictLoop_write [OF w] by blast
  then obtain t where t: "w = UpdateVolume (v\<lparr>spec := t\<rparr>)" "evicted (spec v) (ae_name env) t"
      "admit_update (spec v) t" "eviction_justified v (ae_name env) snaps"
    using evictVolume_write [OF v(3), of snaps] assms(4) by auto
  moreover have "ids_ok t"
    using ids_ok_mset_le [of "spec v" t] t(2) assms(4) v(1) by (simp add: evicted_def)
  ultimately show ?thesis using v by blast
qed

text \<open>A survivor's proof of life stops the pass: nothing is written for that volume or any later one.\<close>

lemma standdown_stops:
  assumes "evictVolume env v (ae_name env) pass = (ws, Inr peerConnectedOutcome)" and "hasLegOn (spec v) (ae_name env)"
    and "x \<in> set (fst (evictLoop env pass (vs @ v # vs') b))"
  shows "x \<in> set ws \<or> (\<exists>u\<in>set vs. x \<in> set (fst (evictVolume env u (ae_name env) pass)))"
  using assms(3)
proof (induction vs arbitrary: b)
  case Nil
  then show ?case using assms(1,2) by simp
next
  case (Cons u us)
  obtain ws r where e: "evictVolume env u (ae_name env) pass = (ws, r)" by fastforce
  have "x \<in> set ws \<or> (\<exists>b. x \<in> set (fst (evictLoop env pass (us @ v # vs') b)))"
    using Cons.prems e
    by (cases r) (auto simp: case_prod_unfold Let_def split: if_splits evictOutcome.splits)
  then show ?case using Cons.IH e by fastforce
qed

text \<open>
  C10. An eviction pass writes only for a node that is demonstrably dark: it may be auto-evicted,
  its last heartbeat is at least the threshold old, its kubelet is not Ready (the Node object is
  gone or its Ready condition is absent or not True), and no other node that may be auto-evicted
  has a heartbeat that old. The slice lookup of the node never panics.
\<close>

theorem autoevict_only_dark_node:
  assumes "ae_listNodes env = Inr items" and "distinct (map mn_name items)"
  shows "snd (autoevict_Reconcile env) \<noteq> Inl IndexPanic \<and>
    (fst (autoevict_Reconcile env) \<noteq> [] \<longrightarrow>
      AutoEvictAllowed (FromNodes items) (ae_name env) \<and> nodeReady env (ae_name env) = Inr False \<and>
      (\<forall>n t. n \<in> set items \<and> AutoEvictAllowed (FromNodes items) (mn_name n) \<and>
         mns_observedAt (mn_status n) = Some t \<longrightarrow>
         (ae_after env \<le> ae_now env - t \<longleftrightarrow> mn_name n = ae_name env)) \<and>
      (\<exists>n\<in>set items. mn_name n = ae_name env \<and> mns_observedAt (mn_status n) \<noteq> None))"
proof (intro conjI impI)
  let ?topo = "FromNodes items"
  have "find (\<lambda>n. mn_name n = ae_name env) items \<noteq> None" if "AutoEvictAllowed ?topo (ae_name env)"
    using that FromNodes_lookup [OF assms(2), of "ae_name env"]
    by (auto simp: AutoEvictAllowed_def split: option.splits)
  then show "snd (autoevict_Reconcile env) \<noteq> Inl IndexPanic"
    using assms(1) evictStale_no_panic [of env items ?topo]
    by (auto simp: autoevict_Reconcile_def Let_def split: option.splits)
  assume "fst (autoevict_Reconcile env) \<noteq> []"
  then obtain x where "x \<in> set (fst (autoevict_Reconcile env))" by (metis list.set_intros(1) neq_Nil_conv)
  then obtain items' mn t0 where l: "ae_listNodes env = Inr items'"
      and f: "find (\<lambda>n. mn_name n = ae_name env) items' = Some mn"
      and o: "mns_observedAt (mn_status mn) = Some t0" "ae_after env \<le> ae_now env - t0"
      and d: "AutoEvictAllowed (FromNodes items') (ae_name env)" "nodeReady env (ae_name env) = Inr False"
      "length (staleNodes env items' (FromNodes items')) \<le> 1"
    by (rule autoevict_run)
  have i: "items' = items" using l assms(1) by simp
  note run = f [unfolded i] o d [unfolded i]
  have mn: "mn \<in> set items" "mn_name mn = ae_name env" using find_SomeD [OF run(1)] by auto
  show "AutoEvictAllowed ?topo (ae_name env)" "nodeReady env (ae_name env) = Inr False" by fact+
  show "\<exists>n\<in>set items. mn_name n = ae_name env \<and> mns_observedAt (mn_status n) \<noteq> None"
    using mn run(2) by auto
  have stale: "mn_name n \<in> set (staleNodes env items ?topo)"
    if "n \<in> set items" "AutoEvictAllowed ?topo (mn_name n)" "mns_observedAt (mn_status n) = Some t"
      "ae_after env \<le> ae_now env - t" for n t
    using that by (auto simp: staleNodes_def)
  then have self: "ae_name env \<in> set (staleNodes env items ?topo)" using mn run(2-4) by metis
  show "\<forall>n t. n \<in> set items \<and> AutoEvictAllowed ?topo (mn_name n) \<and> mns_observedAt (mn_status n) = Some t \<longrightarrow>
         (ae_after env \<le> ae_now env - t \<longleftrightarrow> mn_name n = ae_name env)"
  proof (intro allI impI iffI; elim conjE)
    fix n t
    assume n: "n \<in> set items" "AutoEvictAllowed ?topo (mn_name n)" "mns_observedAt (mn_status n) = Some t"
    show "mn_name n = ae_name env" if "ae_after env \<le> ae_now env - t"
      using stale [OF n that] self run(6) by (cases "staleNodes env items ?topo") auto
    show "ae_after env \<le> ae_now env - t" if "mn_name n = ae_name env"
    proof -
      have "n = mn" using n(1) mn that assms(2) by (metis distinct_map inj_onD)
      then show ?thesis using n(3) run(2,3) by simp
    qed
  qed
qed
section \<open>Witnesses\<close>

text \<open>Four nodes, one of them dark for longer than the threshold, and a volume with a replica
  there.\<close>

definition zfs_node :: "string \<Rightarrow> string \<Rightarrow> gotime \<Rightarrow> MiroirNode" where
  "zfs_node n a t = (roomy_node n t)\<lparr>mn_spec := \<lparr>ns_zone = '''', ns_address = a, ns_autoEvict = None,
     ns_pools = [\<lparr>np_name = ''default'', np_lvmthin = None,
       np_zfs = Some \<lparr>zfs_dataset = ''tank/miroir'', zfs_compression = '''', zfs_volBlockSize = ''''\<rparr>,
       np_loopfile = None\<rparr>]\<rparr>\<rparr>"

definition clean_status :: "bool \<Rightarrow> ReplicaStatus" where
  "clean_status connected = zero_status\<lparr>st_diskState := ''UpToDate'', st_connected := connected\<rparr>"

definition with_status :: "MiroirVolume \<Rightarrow> string \<Rightarrow> (string \<times> ReplicaStatus) list \<Rightarrow> MiroirVolume" where
  "with_status v n sts = v\<lparr>vname := n, status := (status v)\<lparr>perNode := sts\<rparr>\<rparr>"

definition dark_volume :: MiroirVolume where
  "dark_volume = with_status twoleg_volume ''pvc-1'' [(''a'', clean_status False), (''b'', clean_status False)]"

definition alive_volume :: MiroirVolume where
  "alive_volume = with_status twoleg_volume ''pvc-2'' [(''a'', clean_status True), (''b'', clean_status True)]"

definition consumed_volume :: MiroirVolume where
  "consumed_volume = with_status (example_volume (example_spec
     [example_replica ''a'' 0 ''10.0.0.1'', example_replica ''c'' 1 ''10.0.0.3'']
     [\<lparr>c_node = ''b'', c_nodeID = 2, c_address = ''10.0.0.2'', c_addedAt = Some 0\<rparr>]) [])
     ''pvc-0'' [(''a'', clean_status True), (''c'', clean_status True)]"

definition dark_env :: "MiroirVolume list \<Rightarrow> autoevict_env" where
  "dark_env vols = \<lparr>ae_name = ''b'',
     ae_listNodes = Inr [zfs_node ''a'' ''x1'' 1000, zfs_node ''b'' ''x2'' 0, zfs_node ''c'' ''x3'' 1000],
     ae_getNode = (\<lambda>_. Inl NotFound), ae_listSnapshots = Inr [], ae_listVolumes = Inr vols,
     ae_now = 1000, ae_after = 900, ae_update = \<lambda>_. None\<rparr>"

theorem autoevict_safe_witness:
  "\<exists>w. w \<in> set (fst (autoevict_Reconcile (dark_env [dark_volume]))) \<and>
     evicted (spec dark_volume) ''b'' (spec (written w)) \<and> ids_ok (spec (written w))"
proof -
  have "fst (autoevict_Reconcile (dark_env [dark_volume])) \<noteq> []" by code_simp
  then obtain w where w: "w \<in> set (fst (autoevict_Reconcile (dark_env [dark_volume])))"
    by (metis list.set_intros(1) neq_Nil_conv)
  have l: "ae_listVolumes (dark_env [dark_volume]) = Inr [dark_volume]"
      "ae_listSnapshots (dark_env [dark_volume]) = Inr []" "ae_name (dark_env [dark_volume]) = ''b''"
    by (simp_all add: dark_env_def)
  have "admit_create (spec dark_volume) \<and> ids_ok (spec dark_volume)" by code_simp
  then show ?thesis using autoevict_safe [OF w l(1,2)] w l(3) by auto
qed

theorem autoevict_only_dark_node_witness:
  "nodeReady (dark_env [dark_volume]) ''b'' = Inr False"
proof -
  have l: "ae_listNodes (dark_env [dark_volume]) =
      Inr [zfs_node ''a'' ''x1'' 1000, zfs_node ''b'' ''x2'' 0, zfs_node ''c'' ''x3'' 1000]"
      "ae_name (dark_env [dark_volume]) = ''b''"
    by (simp_all add: dark_env_def)
  have d: "distinct (map mn_name [zfs_node ''a'' ''x1'' 1000, zfs_node ''b'' ''x2'' 0, zfs_node ''c'' ''x3'' 1000])"
    by code_simp
  have "fst (autoevict_Reconcile (dark_env [dark_volume])) \<noteq> []" by code_simp
  then show ?thesis using autoevict_only_dark_node [OF l(1) d] l(2) by auto
qed

text \<open>
  The stand-down on proof of life does not undo what the pass has done. With two volumes on
  a node whose heartbeat is stale, where the second volume's survivor still reports its DRBD links
  up, the pass stands down, yet it has already removed the node's client leg from the first volume
  in list order: a node shown to be alive loses a leg. In the other list order nothing is written.
\<close>

theorem autoevict_late_standdown:
  "map (vname \<circ> written) (fst (autoevict_Reconcile (dark_env [consumed_volume, alive_volume]))) = [''pvc-0''] \<and>
   snd (autoevict_Reconcile (dark_env [consumed_volume, alive_volume])) = Inr evictRecheckInterval \<and>
   snd (evictVolume (dark_env [consumed_volume, alive_volume]) alive_volume ''b''
     \<lparr>pinned = [], pass_nodes = [], pass_topology = []\<rparr>) = Inr peerConnectedOutcome \<and>
   fst (autoevict_Reconcile (dark_env [alive_volume, consumed_volume])) = []"
proof (intro conjI)
  show "map (vname \<circ> written) (fst (autoevict_Reconcile (dark_env [consumed_volume, alive_volume]))) = [''pvc-0'']"
    by code_simp
  show "snd (autoevict_Reconcile (dark_env [consumed_volume, alive_volume])) = Inr evictRecheckInterval"
    by code_simp
  show "snd (evictVolume (dark_env [consumed_volume, alive_volume]) alive_volume ''b''
     \<lparr>pinned = [], pass_nodes = [], pass_topology = []\<rparr>) = Inr peerConnectedOutcome"
    by code_simp
  show "fst (autoevict_Reconcile (dark_env [alive_volume, consumed_volume])) = []"
    by code_simp
qed

end
