(* ===== verification/Csi_Params.thy ===== *)
theory Csi_Params
  imports Nodemap Constants
begin

text \<open>
  The request-shaped parts of \<^verbatim>\<open>internal/csi/controller.go\<close>: gRPC codes, size alignment, the
  StorageClass parameters, access modes, content sources, positional paging and the topology a
  volume is published with. An RPC answers with a code or a value; error texts are left out.
\<close>

section \<open>Results\<close>

text \<open>The gRPC codes the code answers with; \<open>Panic\<close> is an index out of range, which ends the
  request in the process itself.\<close>

datatype code = InvalidArgument | OutOfRange | ResourceExhausted | FailedPrecondition | NotFoundCode
  | AlreadyExistsCode | Aborted | Internal | Unavailable | DeadlineExceeded | DataLoss | Panic

type_synonym 'a rpc = "code + 'a"

section \<open>Sizes\<close>

definition sectorSize :: int where
  "sectorSize = 512"

definition alignSector :: "int \<Rightarrow> int" where
  "alignSector n = int64 (n + sectorSize - 1) AND NOT (sectorSize - 1)"

text \<open>The size a CreateVolume request resolves to: the first steps of \<^verbatim>\<open>CreateVolume\<close>.\<close>

definition requestSize :: "int \<Rightarrow> int \<Rightarrow> int rpc" where
  "requestSize required limitBytes =
     (let floored =
        (if required = 0 then
           if 0 < limitBytes \<and> limitBytes < 2 ^ 30 then
             (let s = limitBytes AND NOT (sectorSize - 1) in if s = 0 then Inl OutOfRange else Inr s)
           else Inr (2 ^ 30)
         else Inr required)
      in case floored of
           Inl e \<Rightarrow> Inl e
         | Inr s \<Rightarrow>
             (let s = alignSector s
              in if 0 < limitBytes \<and> limitBytes < s then Inl OutOfRange else Inr s))"

section \<open>StorageClass parameters\<close>

definition parseReplicas :: "string gomap \<Rightarrow> int rpc" where
  "parseReplicas params =
     (case map_of params ParamReplicas of
        None \<Rightarrow> Inr 1
      | Some raw \<Rightarrow>
          (case atoi raw of
             None \<Rightarrow> Inl InvalidArgument
           | Some n \<Rightarrow> if n < 1 \<or> 3 < n then Inl InvalidArgument else Inr n))"

definition parseQuorum :: "string gomap \<Rightarrow> QuorumPolicy rpc" where
  "parseQuorum params =
     (let raw = str_at params ParamQuorum
      in if raw = '''' \<or> raw = ''freeze'' then Inr QuorumFreeze
         else if raw = ''last-man-standing'' then Inr QuorumLastManStanding
         else Inl InvalidArgument)"

definition validateSharedRequest :: "bool \<Rightarrow> bool \<Rightarrow> int \<Rightarrow> QuorumPolicy \<Rightarrow> unit rpc" where
  "validateSharedRequest rwxEnabled shared reps quorum =
     (if \<not> shared then Inr ()
      else if \<not> rwxEnabled then Inl FailedPrecondition
      else if reps < 2 then Inl InvalidArgument
      else if quorum = QuorumLastManStanding then Inl InvalidArgument
      else Inr ())"

text \<open>\<^verbatim>\<open>strconv.ParseBool\<close>.\<close>

definition parse_bool :: "string \<Rightarrow> bool option" where
  "parse_bool s =
     (if s \<in> set [''1'', ''t'', ''T'', ''TRUE'', ''true'', ''True''] then Some True
      else if s \<in> set [''0'', ''f'', ''F'', ''FALSE'', ''false'', ''False''] then Some False
      else None)"

definition parseAllowRemoteAccess :: "string gomap \<Rightarrow> int \<Rightarrow> bool rpc" where
  "parseAllowRemoteAccess params reps =
     (let raw = str_at params ParamAllowRemoteAccess
      in if raw = '''' then Inr (1 < reps)
         else case parse_bool raw of
                None \<Rightarrow> Inl InvalidArgument
              | Some enabled \<Rightarrow> if enabled \<and> reps \<le> 1 then Inl InvalidArgument else Inr enabled)"

definition parsePool :: "string gomap \<Rightarrow> string" where
  "parsePool params = PoolOrDefault (str_at params ParamPool)"

definition parseBitmapGranularity :: "string gomap \<Rightarrow> int \<Rightarrow> int rpc" where
  "parseBitmapGranularity params reps =
     (let raw = str_at params ParamBitmapGranularity
      in if raw = '''' then Inr 0
         else case parse_int 64 raw of
                None \<Rightarrow> Inl InvalidArgument
              | Some gran \<Rightarrow>
                  if gran < 4096 \<or> 2 ^ 20 < gran \<or> gran AND (gran - 1) \<noteq> 0 then Inl InvalidArgument
                  else if reps \<le> 1 then Inl InvalidArgument
                  else Inr gran)"

record classParams =
  cp_replicas :: int
  cp_quorum :: QuorumPolicy
  cp_remoteAccess :: bool
  cp_bitmapGranularity :: int
  cp_pool :: string

definition parseClassParams :: "string gomap \<Rightarrow> classParams rpc" where
  "parseClassParams raw =
     (case parseReplicas raw of
        Inl e \<Rightarrow> Inl e
      | Inr reps \<Rightarrow>
     (case parseQuorum raw of
        Inl e \<Rightarrow> Inl e
      | Inr quorum \<Rightarrow>
     (case parseAllowRemoteAccess raw reps of
        Inl e \<Rightarrow> Inl e
      | Inr remote \<Rightarrow>
     (case parseBitmapGranularity raw reps of
        Inl e \<Rightarrow> Inl e
      | Inr gran \<Rightarrow>
          Inr \<lparr>cp_replicas = reps, cp_quorum = quorum, cp_remoteAccess = remote,
               cp_bitmapGranularity = gran, cp_pool = parsePool raw\<rparr>))))"

section \<open>Volume capabilities\<close>

datatype access_mode = UNKNOWN | SINGLE_NODE_WRITER | SINGLE_NODE_READER_ONLY | MULTI_NODE_READER_ONLY
  | MULTI_NODE_SINGLE_WRITER | MULTI_NODE_MULTI_WRITER | SINGLE_NODE_SINGLE_WRITER
  | SINGLE_NODE_MULTI_WRITER

datatype access_type = NoAccessType | Block | Mount string

record VolumeCapability =
  cap_mode :: access_mode
  cap_type :: access_type

definition validateCapability :: "VolumeCapability \<Rightarrow> code option" where
  "validateCapability c =
     (if cap_mode c \<in> set [SINGLE_NODE_WRITER, SINGLE_NODE_SINGLE_WRITER, SINGLE_NODE_MULTI_WRITER,
           SINGLE_NODE_READER_ONLY]
      then (if cap_type c = NoAccessType then Some InvalidArgument else None)
      else if cap_mode c \<in> set [MULTI_NODE_MULTI_WRITER, MULTI_NODE_READER_ONLY]
      then (if cap_type c = Block then Some InvalidArgument
            else if cap_type c = NoAccessType then Some InvalidArgument else None)
      else Some InvalidArgument)"

definition validateCapabilities :: "VolumeCapability list \<Rightarrow> unit rpc" where
  "validateCapabilities caps =
     (if caps = [] then Inl InvalidArgument
      else case find (\<lambda>e. e \<noteq> None) (map validateCapability caps) of
             Some (Some e) \<Rightarrow> Inl e
           | _ \<Rightarrow> Inr ())"

definition isShared :: "VolumeCapability list \<Rightarrow> bool" where
  "isShared caps \<longleftrightarrow>
     list_ex (\<lambda>c. cap_mode c \<in> set [MULTI_NODE_MULTI_WRITER, MULTI_NODE_READER_ONLY]) caps"

definition defaultFSType :: string where
  "defaultFSType = ''ext4''"

definition cap_fsType :: "VolumeCapability \<Rightarrow> string" where
  "cap_fsType c = (case cap_type c of Mount fs \<Rightarrow> fs | _ \<Rightarrow> '''')"

definition exportFSType :: "VolumeCapability list \<Rightarrow> string" where
  "exportFSType caps =
     (case find (\<lambda>c. cap_fsType c \<noteq> '''') caps of Some c \<Rightarrow> cap_fsType c | None \<Rightarrow> defaultFSType)"

section \<open>Content sources\<close>

datatype ContentSource = NoSource | SnapshotSource string | VolumeSourceID string | OtherSource

definition contentSourceIDs :: "ContentSource \<Rightarrow> (string \<times> string) rpc" where
  "contentSourceIDs src =
     (case src of
        NoSource \<Rightarrow> Inr ('''', '''')
      | SnapshotSource i \<Rightarrow> if i = '''' then Inl InvalidArgument else Inr (i, '''')
      | VolumeSourceID i \<Rightarrow> if i = '''' then Inl InvalidArgument else Inr ('''', i)
      | OtherSource \<Rightarrow> Inl InvalidArgument)"

definition responseContentSource :: "string \<Rightarrow> VolumeSource option \<Rightarrow> ContentSource" where
  "responseContentSource cloneSrc src =
     (if cloneSrc \<noteq> '''' then VolumeSourceID cloneSrc
      else case src of
             Some s \<Rightarrow> if src_snapshotName s \<noteq> '''' then SnapshotSource (src_snapshotName s) else NoSource
           | None \<Rightarrow> NoSource)"

section \<open>Topology and paging\<close>

text \<open>\<^const>\<open>None\<close> is the nil topology: the volume is reachable from every node.\<close>

definition accessibleTopology :: "MiroirVolume \<Rightarrow> string gomap list option" where
  "accessibleTopology v =
     (if export (spec v) \<noteq> None \<or> allowRemoteAccess (spec v) then None
      else Some (map (\<lambda>r. [(TopologyKey, r_node r)]) (filter (\<lambda>r. \<not> r_diskless r) (replicas (spec v)))))"

definition page :: "string \<Rightarrow> int \<Rightarrow> nat \<Rightarrow> bool \<Rightarrow> (nat \<times> nat) rpc" where
  "page startingToken maxEntries tot clampPastEnd =
     (let tail = (\<lambda>start. Inr (start, if maxEntries \<le> 0 then tot else min (start + nat maxEntries) tot))
      in if startingToken = '''' then tail 0
         else case atoi startingToken of
                None \<Rightarrow> Inl Aborted
              | Some n \<Rightarrow>
                  if n < 0 then Inl Aborted
                  else if tot \<le> nat n then
                    (if \<not> clampPastEnd then Inl Aborted else Inr (tot, tot))
                  else tail (nat n))"

text \<open>The body of \<^verbatim>\<open>ListVolumes\<close> over the sorted volumes: a page and the token of the next.\<close>

definition listPage :: "'a list \<Rightarrow> string \<Rightarrow> int \<Rightarrow> bool \<Rightarrow> ('a list \<times> string) rpc" where
  "listPage xs startingToken maxEntries clampPastEnd =
     (case page startingToken maxEntries (length xs) clampPastEnd of
        Inl e \<Rightarrow> Inl e
      | Inr (start, stop) \<Rightarrow>
          Inr (take (stop - start) (drop start xs), if stop < length xs then itoa (int stop) else ''''))"

section \<open>Properties\<close>

lemma alignSector_eq: "alignSector n = int64 (n + 511) - int64 (n + 511) mod 512"
  using and_not_mask_int [of "int64 (n + 511)" 9] by (simp add: alignSector_def sectorSize_def add.commute)

lemma alignSector_bounds:
  assumes "- (2 ^ 63) \<le> n" and "n \<le> 2 ^ 63 - 512"
  shows "n \<le> alignSector n \<and> alignSector n < n + 512 \<and> alignSector n mod 512 = 0"
proof -
  have "int64 (n + 511) = n + 511" using assms by (intro int64_id) auto
  then have e: "alignSector n = n + 511 - (n + 511) mod 512" unfolding alignSector_eq by simp
  moreover have "0 \<le> (n + 511) mod 512" "(n + 511) mod 512 < 512" by simp_all
  ultimately have "n \<le> alignSector n \<and> alignSector n < n + 512" by linarith
  then show ?thesis unfolding e by (simp add: mod_diff_eq [symmetric])
qed

lemma aligned_least:
  fixes a s n :: int
  assumes "a mod 512 = 0" and "s mod 512 = 0" and "a < n + 512" and "n \<le> s"
  shows "a \<le> s"
proof -
  have "a = 512 * (a div 512)" "s = 512 * (s div 512)" using assms(1,2) by auto
  moreover from this have "a div 512 \<le> s div 512" using assms(3,4) by linarith
  ultimately show ?thesis by linarith
qed

lemma int64_wraps:
  assumes "2 ^ 63 \<le> n" and "n < 2 ^ 64"
  shows "int64 n = n - 2 ^ 64"
proof -
  have "(n + 2 ^ 63) mod 2 ^ 64 = n - 2 ^ 63"
    using mod_pos_pos_trivial [of "n - 2 ^ 63" "2 ^ 64"] mod_add_self2 [of "n - 2 ^ 63" "2 ^ 64"] assms
    by (simp add: add.commute)
  then show ?thesis unfolding int64_def by (simp add: signed_take_bit_eq_take_bit_shift take_bit_eq_mod)
qed

text \<open>
  C36. Size resolution: a request below the top of the 64-bit range resolves to a multiple of
  the sector size that is at least the required size and less than one sector above it, and
  never exceeds a given limit; it is refused exactly when no such size lies within the limit. Above
  \<open>2^63 - 512\<close> the addition wraps around: the resolved size is \<open>- 2^63\<close>, whatever limit is given.
\<close>

theorem requestSize_spec:
  assumes "0 < required" and "required < 2 ^ 63"
  shows "(required \<le> 2 ^ 63 - 512 \<longrightarrow>
       (case requestSize required limitBytes of
          Inr s \<Rightarrow> s mod 512 = 0 \<and> required \<le> s \<and> s < required + 512 \<and> (0 < limitBytes \<longrightarrow> s \<le> limitBytes)
        | Inl e \<Rightarrow> e = OutOfRange \<and> 0 < limitBytes \<and>
            \<not> (\<exists>s. s mod 512 = 0 \<and> required \<le> s \<and> s \<le> limitBytes))) \<and>
    (2 ^ 63 - 512 < required \<longrightarrow> requestSize required limitBytes = Inr (- (2 ^ 63)))"
proof (intro conjI impI)
  assume r: "required \<le> 2 ^ 63 - 512"
  have p: "- (2 ^ 63) \<le> required" using assms(1) by simp
  have a: "required \<le> alignSector required" "alignSector required < required + 512"
      "alignSector required mod 512 = 0"
    using alignSector_bounds [OF p r] by blast+
  have least: "alignSector required \<le> s" if "s mod 512 = 0" "required \<le> s" for s
    using aligned_least [OF a(3) that(1) a(2) that(2)] .
  have e: "requestSize required limitBytes =
      (if 0 < limitBytes \<and> limitBytes < alignSector required then Inl OutOfRange else Inr (alignSector required))"
    using assms(1) by (simp add: requestSize_def Let_def)
  show "case requestSize required limitBytes of
          Inr s \<Rightarrow> s mod 512 = 0 \<and> required \<le> s \<and> s < required + 512 \<and> (0 < limitBytes \<longrightarrow> s \<le> limitBytes)
        | Inl e \<Rightarrow> e = OutOfRange \<and> 0 < limitBytes \<and>
            \<not> (\<exists>s. s mod 512 = 0 \<and> required \<le> s \<and> s \<le> limitBytes)"
  proof (cases "0 < limitBytes \<and> limitBytes < alignSector required")
    case True
    then have "\<not> (\<exists>s. s mod 512 = 0 \<and> required \<le> s \<and> s \<le> limitBytes)"
      using least by (meson leD order.trans)
    then show ?thesis unfolding e using True by simp
  next
    case False
    then have "requestSize required limitBytes = Inr (alignSector required)" unfolding e by (rule if_not_P)
    then show ?thesis using a False by auto
  qed
next
  assume r: "2 ^ 63 - 512 < required"
  define k where "k = required + 511 - 2 ^ 63"
  have k: "0 \<le> k" "k < 511" using r assms(2) by (simp_all add: k_def)
  have "int64 (required + 511) = k + (- (2 ^ 54)) * 512"
    using int64_wraps [of "required + 511"] r assms(2) by (simp add: k_def)
  moreover have "(k + (- (2 ^ 54)) * 512) mod 512 = k" unfolding mod_mult_self1 using k by simp
  ultimately have "alignSector required = - (2 ^ 63)" unfolding alignSector_eq by simp
  then show "requestSize required limitBytes = Inr (- (2 ^ 63))"
    using assms(1) by (simp add: requestSize_def Let_def)
qed

theorem requestSize_spec_witness:
  "(case requestSize 1000000000 0 of Inr s \<Rightarrow> s mod 512 = 0 \<and> 1000000000 \<le> s | Inl _ \<Rightarrow> False) \<and>
   requestSize (2 ^ 63 - 1) 1024 = Inr (- (2 ^ 63))"
  using requestSize_spec [of 1000000000 0] requestSize_spec [of "2 ^ 63 - 1" 1024]
  by (simp split: sum.splits)

end
