(* ===== verification/Csi_Placement.thy ===== *)
theory Csi_Placement
  imports Csi_Params Legs "HOL-Library.Product_Lexorder"
begin

text \<open>
  Placement in \<^verbatim>\<open>internal/csi/controller.go\<close>: the capacity guardrails (\<^verbatim>\<open>poolStats\<close>,
  \<^verbatim>\<open>poolHeadroom\<close>, \<^verbatim>\<open>provisionedPerPool\<close>), the choice of the replica nodes (\<^verbatim>\<open>place\<close>,
  \<^verbatim>\<open>topologyPick\<close>, \<^verbatim>\<open>spreadByZone\<close>, \<^verbatim>\<open>withTieBreaker\<close>), the DRBD port scan
  (\<^verbatim>\<open>allocateDRBD\<close>) and the scheduler's view of the same headroom (\<^verbatim>\<open>GetCapacity\<close>).
\<close>

section \<open>Floating point\<close>

text \<open>
  The ratios are \<^verbatim>\<open>float64\<close>. A finite value is a significand and a power of two; conversion
  and product round to 53 significant bits, ties to even. The code multiplies non-negative numbers
  only and truncates the product, so what is below the smallest normal number truncates to zero
  however it is rounded, and what exceeds the range of \<^verbatim>\<open>int64\<close> (or is not finite) converts to
  the smallest \<^verbatim>\<open>int64\<close>, as the conversion instruction of amd64 does.
\<close>

datatype float64 = Float int int | PosInf | NegInf | NaN

function excess53 :: "int \<Rightarrow> nat" where
  "excess53 n = (if n < 2 ^ 53 then 0 else Suc (excess53 (n div 2)))"
  by pat_completeness auto
termination
  by (relation "measure nat") auto

declare excess53.simps [simp del]

definition round53 :: "int \<Rightarrow> int \<times> nat" where
  "round53 n =
     (let k = excess53 n; q = n div 2 ^ k; r = n mod 2 ^ k
      in (if 2 ^ k < 2 * r \<or> (k \<noteq> 0 \<and> 2 * r = 2 ^ k \<and> odd q) then q + 1 else q, k))"

definition float_of_int :: "int \<Rightarrow> float64" where
  "float_of_int n = (let (m, k) = round53 n in Float m (int k))"

fun float_mul :: "float64 \<Rightarrow> float64 \<Rightarrow> float64" where
  "float_mul (Float m e) (Float m' e') = (let (q, k) = round53 (m * m') in Float q (e + e' + int k))"
| "float_mul (Float m e) PosInf = (if m = 0 then NaN else PosInf)"
| "float_mul (Float m e) NegInf = (if m = 0 then NaN else NegInf)"
| "float_mul _ _ = NaN"

fun int64_of_float :: "float64 \<Rightarrow> int" where
  "int64_of_float (Float m e) =
     (let t = (if 0 \<le> e then m * 2 ^ nat e else m div 2 ^ nat (- e))
      in if - (2 ^ 63) \<le> t \<and> t < 2 ^ 63 then t else - (2 ^ 63))"
| "int64_of_float _ = - (2 ^ 63)"

fun float_le_zero :: "float64 \<Rightarrow> bool" where
  "float_le_zero (Float m e) \<longleftrightarrow> m \<le> 0"
| "float_le_zero NegInf \<longleftrightarrow> True"
| "float_le_zero _ \<longleftrightarrow> False"

section \<open>Capacity guardrails\<close>

text \<open>The configuration of the controller service.\<close>

record Controller =
  OvercommitRatio :: float64
  FreeSpaceRatio :: float64
  AutoTieBreaker :: bool
  RWXEnabled :: bool
  DRBDPortBase :: int

definition defaultOvercommitRatio :: float64 where
  "defaultOvercommitRatio = Float 2 0"

definition defaultFreeSpaceRatio :: float64 where
  "defaultFreeSpaceRatio = Float 20 0"

definition defaultDRBDPortBase :: int where
  "defaultDRBDPortBase = 7000"

type_synonym node_stats = "MiroirNodeStatus gomap"

definition poolStats :: "gotime \<Rightarrow> MiroirNode list \<Rightarrow> node_stats" where
  "poolStats now items =
     foldl (\<lambda>out n. case mns_observedAt (mn_status n) of
         None \<Rightarrow> out
       | Some t \<Rightarrow> if StatsStaleAfter < now - t then out else AList.update (mn_name n) (mn_status n) out)
       [] items"

text \<open>\<^verbatim>\<open>stats[node].Pool(pool)\<close>: the zero status has no pools.\<close>

definition stats_pool :: "node_stats \<Rightarrow> string \<Rightarrow> string \<Rightarrow> MiroirNodePoolStatus option" where
  "stats_pool stats node pool =
     (case map_of stats node of Some st \<Rightarrow> nodeStatusPool st pool | None \<Rightarrow> None)"

definition ratios :: "Controller \<Rightarrow> float64 \<times> float64" where
  "ratios c =
     (if float_le_zero (OvercommitRatio c) then defaultOvercommitRatio else OvercommitRatio c,
      if float_le_zero (FreeSpaceRatio c) then defaultFreeSpaceRatio else FreeSpaceRatio c)"

text \<open>\<^const>\<open>None\<close> stands for \<^verbatim>\<open>known == false\<close>.\<close>

definition poolHeadroom :: "Controller \<Rightarrow> MiroirNodePoolStatus option \<Rightarrow> int \<Rightarrow> int option" where
  "poolHeadroom c st provisioned =
     (case st of
        None \<Rightarrow> None
      | Some st \<Rightarrow>
          if ps_capacityBytes st \<le> 0 then None
          else
            (let (overcommit, freeSpace) = ratios c;
                 virtual = int64 (int64_of_float (float_mul (float_of_int (ps_capacityBytes st)) overcommit)
                   - provisioned);
                 physical = int64_of_float (float_mul
                   (float_of_int (max 0 (int64 (ps_capacityBytes st - ps_allocatedBytes st)))) freeSpace)
             in Some (max 0 (min virtual physical))))"

type_synonym provisioned = "((string \<times> string) \<times> int) list"

definition prov_at :: "provisioned \<Rightarrow> string \<Rightarrow> string \<Rightarrow> int" where
  "prov_at m node pool = (case map_of m (node, pool) of Some b \<Rightarrow> b | None \<Rightarrow> 0)"

definition add_leg :: "int \<Rightarrow> provisioned \<Rightarrow> Replica \<Rightarrow> provisioned" where
  "add_leg b out r =
     (if r_diskless r then out
      else AList.update (r_node r, PoolOrDefault (r_pool r))
             (int64 (prov_at out (r_node r) (PoolOrDefault (r_pool r)) + b)) out)"

definition provisionedPerPool :: "MiroirVolume list \<Rightarrow> string \<Rightarrow> provisioned" where
  "provisionedPerPool vols exclude =
     foldl (\<lambda>out v. if vname v = exclude then out
                    else foldl (add_leg (sizeBytes (spec v))) out (replicas (spec v))) [] vols"

section \<open>Choosing nodes\<close>

record TopologyRequirement =
  tr_requisite :: "string gomap list"
  tr_preferred :: "string gomap list"

definition topology_terms :: "TopologyRequirement option \<Rightarrow> string gomap list" where
  "topology_terms reqs = (case reqs of None \<Rightarrow> [] | Some t \<Rightarrow> tr_preferred t @ tr_requisite t)"

fun pick_term :: "string gomap list \<Rightarrow> (string \<Rightarrow> bool) \<Rightarrow> string list \<Rightarrow> string \<times> bool" where
  "pick_term [] cand excluded = ('''', False)"
| "pick_term (t # ts) cand excluded =
     (case map_of t TopologyKey of
        None \<Rightarrow> pick_term ts cand excluded
      | Some n \<Rightarrow> if n \<in> set excluded then ('''', True)
                  else if cand n then (n, True) else pick_term ts cand excluded)"

definition topologyPick ::
    "TopologyRequirement option \<Rightarrow> (string \<Rightarrow> bool) \<Rightarrow> string list \<Rightarrow> string \<times> bool" where
  "topologyPick reqs cand excluded = pick_term (topology_terms reqs) cand excluded"

definition zone_take :: "(string \<Rightarrow> string) \<Rightarrow> string \<Rightarrow> string list \<times> string list \<Rightarrow> string list \<times> string list" where
  "zone_take zoneOf n = (\<lambda>(picked, used).
     (picked @ [n], if zoneOf n \<noteq> '''' then zoneOf n # used else used))"

text \<open>The three loops: each stops for good once \<open>cnt\<close> nodes are picked.\<close>

definition spreadByZone :: "string list \<Rightarrow> nat \<Rightarrow> nat \<Rightarrow> (string \<Rightarrow> string) \<Rightarrow> string list" where
  "spreadByZone ordered pinned cnt zoneOf =
     (let s1 = foldl (\<lambda>s n. if length (fst s) < cnt then zone_take zoneOf n s else s)
                 ([], []) (take pinned ordered);
          s2 = foldl (\<lambda>s n. if length (fst s) < cnt \<and> (zoneOf n = '''' \<or> zoneOf n \<notin> set (snd s))
                            then zone_take zoneOf n s else s)
                 s1 (drop pinned ordered);
          s3 = foldl (\<lambda>s n. if length (fst s) < cnt \<and> n \<notin> set (fst s) then zone_take zoneOf n s else s)
                 s2 (drop pinned ordered)
      in fst s3)"

definition isCandidate :: "nodemap \<Rightarrow> string \<Rightarrow> string list \<Rightarrow> string \<Rightarrow> bool" where
  "isCandidate nodes pool excluded n \<longleftrightarrow> n \<in> fst ` set nodes \<and> n \<notin> set excluded \<and>
     map_Pool nodes n pool \<noteq> None \<and> Placeable nodes n"

definition candidateNames :: "nodemap \<Rightarrow> string \<Rightarrow> string list \<Rightarrow> string list" where
  "candidateNames nodes pool excluded = filter (isCandidate nodes pool excluded) (map fst nodes)"

definition headroomAt :: "Controller \<Rightarrow> node_stats \<Rightarrow> provisioned \<Rightarrow> string \<Rightarrow> string \<Rightarrow> int option" where
  "headroomAt c stats prov pool node = poolHeadroom c (stats_pool stats node pool) (prov_at prov node pool)"

definition overcommitted :: "Controller \<Rightarrow> node_stats \<Rightarrow> provisioned \<Rightarrow> string \<Rightarrow> int \<Rightarrow> string \<Rightarrow> bool" where
  "overcommitted c stats prov pool want node =
     (case headroomAt c stats prov pool node of None \<Rightarrow> False | Some room \<Rightarrow> room < want)"

definition headroom :: "Controller \<Rightarrow> node_stats \<Rightarrow> provisioned \<Rightarrow> string \<Rightarrow> string \<Rightarrow> int" where
  "headroom c stats prov pool node =
     (case headroomAt c stats prov pool node of None \<Rightarrow> 0 | Some room \<Rightarrow> room)"

definition physicalFree :: "node_stats \<Rightarrow> string \<Rightarrow> string \<Rightarrow> int" where
  "physicalFree stats pool node =
     (case stats_pool stats node pool of
        None \<Rightarrow> 0
      | Some st \<Rightarrow> max 0 (int64 (ps_capacityBytes st - ps_allocatedBytes st)))"

text \<open>\<^verbatim>\<open>place\<close> up to the nodes it settles on. Names are unique, so the comparison function of the
  sort is a total order and the key below sorts the same way.\<close>

definition rankKey :: "Controller \<Rightarrow> node_stats \<Rightarrow> provisioned \<Rightarrow> string \<Rightarrow> string \<Rightarrow> int \<times> int \<times> int \<times> string" where
  "rankKey c stats prov pool n =
     (- headroom c stats prov pool n, - physicalFree stats pool n, prov_at prov n pool, n)"

definition placeNodes ::
    "Controller \<Rightarrow> nodemap \<Rightarrow> node_stats rpc \<Rightarrow> provisioned \<Rightarrow> TopologyRequirement option \<Rightarrow> nat \<Rightarrow> int \<Rightarrow>
     bool \<Rightarrow> string \<Rightarrow> string list \<Rightarrow> string list rpc" where
  "placeNodes c nodes statsRead prov reqs cnt want remoteAccess pool excluded =
     (let candidates = candidateNames nodes pool excluded
      in if length candidates < cnt then Inl ResourceExhausted
         else case statsRead of
           Inl e \<Rightarrow> Inl e
         | Inr stats \<Rightarrow>
             (let (pin, matched) = topologyPick reqs (isCandidate nodes pool excluded) excluded;
                  first = (if pin = '''' then [] else [pin])
              in if (case reqs of None \<Rightarrow> False | Some t \<Rightarrow> tr_requisite t \<noteq> []) \<and> \<not> matched \<and> \<not> remoteAccess
                 then Inl ResourceExhausted
                 else
                   (let rest = sort_key (rankKey c stats prov pool)
                          (filter (\<lambda>n. n \<notin> set first \<and> \<not> overcommitted c stats prov pool want n) candidates);
                        ordered = first @ rest
                    in if length ordered < cnt then Inl ResourceExhausted
                       else (let chosen = spreadByZone ordered (length first) cnt (\<lambda>n. nd_zone (node_at nodes n))
                             in if list_ex (overcommitted c stats prov pool want) chosen
                                then Inl ResourceExhausted else Inr chosen))))"

text \<open>The replica entries: a replicated volume resolves every node's address.\<close>

definition place_entry ::
    "nodemap \<Rightarrow> (string \<Rightarrow> api_error + KNode) \<Rightarrow> string \<Rightarrow> bool \<Rightarrow> int \<Rightarrow> string \<Rightarrow> Replica rpc" where
  "place_entry nodes getNode pool replicated i n =
     (let r = (bare_replica n)\<lparr>r_backend :=
            (case map_Pool nodes n pool of Some p \<Rightarrow> pool_backend p | None \<Rightarrow> BackendUnset), r_pool := pool\<rparr>
      in if replicated then
           (case ReplicationAddress nodes getNode n of
              Inl e \<Rightarrow> Inl Internal
            | Inr addr \<Rightarrow> Inr (r\<lparr>r_nodeID := i, r_address := addr\<rparr>))
         else Inr r)"

fun place_replicas ::
    "nodemap \<Rightarrow> (string \<Rightarrow> api_error + KNode) \<Rightarrow> string \<Rightarrow> bool \<Rightarrow> int \<Rightarrow> string list \<Rightarrow> Replica list rpc" where
  "place_replicas nodes getNode pool replicated i [] = Inr []"
| "place_replicas nodes getNode pool replicated i (n # ns) =
     (case place_entry nodes getNode pool replicated i n of
        Inl e \<Rightarrow> Inl e
      | Inr r \<Rightarrow> (case place_replicas nodes getNode pool replicated (i + 1) ns of
                    Inl e \<Rightarrow> Inl e | Inr rs \<Rightarrow> Inr (r # rs)))"

definition place ::
    "Controller \<Rightarrow> nodemap \<Rightarrow> node_stats rpc \<Rightarrow> (string \<Rightarrow> api_error + KNode) \<Rightarrow> TopologyRequirement option \<Rightarrow>
     nat \<Rightarrow> int \<Rightarrow> string \<Rightarrow> MiroirVolume list \<Rightarrow> bool \<Rightarrow> string \<Rightarrow> string list \<Rightarrow> Replica list rpc" where
  "place c nodes statsRead getNode reqs cnt want name vols remoteAccess pool excluded =
     (case placeNodes c nodes statsRead (provisionedPerPool vols name) reqs cnt want remoteAccess pool excluded of
        Inl e \<Rightarrow> Inl e
      | Inr chosen \<Rightarrow> place_replicas nodes getNode pool (1 < cnt) 0 chosen)"

definition nextFreeNodeID :: "Replica list \<Rightarrow> int" where
  "nextFreeNodeID reps = lowest_free (map r_nodeID reps) 0"

definition withTieBreaker ::
    "Controller \<Rightarrow> nodemap \<Rightarrow> (string \<Rightarrow> api_error + KNode) \<Rightarrow> Replica list \<Rightarrow> nat \<Rightarrow> QuorumPolicy \<Rightarrow> Replica list rpc" where
  "withTieBreaker c nodes getNode placed cnt quorum =
     (if \<not> AutoTieBreaker c \<or> cnt \<noteq> 2 \<or> quorum \<noteq> QuorumFreeze then Inr placed
      else (let tb = TieBreakerNode nodes placed
            in if tb = '''' then Inr placed
               else case ReplicationAddress nodes getNode tb of
                      Inl e \<Rightarrow> Inl Internal
                    | Inr addr \<Rightarrow> Inr (placed @ [(bare_replica tb)\<lparr>r_nodeID := nextFreeNodeID placed,
                        r_address := addr, r_diskless := True\<rparr>])))"

section \<open>Ports\<close>

definition usedPorts :: "MiroirVolume list \<Rightarrow> int list" where
  "usedPorts vols = map d_port (List.map_filter (\<lambda>v. drbd (spec v)) vols)"

text \<open>The secret is the hexadecimal text of 24 random bytes, an argument; \<^const>\<open>None\<close> is a failed
  read of the random source.\<close>

definition portBase :: "Controller \<Rightarrow> int" where
  "portBase c = (if DRBDPortBase c = 0 then defaultDRBDPortBase else DRBDPortBase c)"

definition hexDigit :: "int \<Rightarrow> char" where
  "hexDigit d = ''0123456789abcdef'' ! nat d"

definition EncodeToString :: "int list \<Rightarrow> string" where
  "EncodeToString raw = concat (map (\<lambda>b. [hexDigit (b div 16), hexDigit (b mod 16)]) raw)"

definition allocateDRBD :: "Controller \<Rightarrow> int list option \<Rightarrow> MiroirVolume list \<Rightarrow> DRBDSpec rpc" where
  "allocateDRBD c random vols =
     (case random of
        None \<Rightarrow> Inl Internal
      | Some raw \<Rightarrow> Inr \<lparr>d_port = lowest_free (usedPorts vols) (portBase c),
                         d_sharedSecret = EncodeToString raw, d_bitmapGranularityBytes = 0\<rparr>)"

section \<open>GetCapacity\<close>

definition available ::
    "Controller \<Rightarrow> nodemap \<Rightarrow> node_stats \<Rightarrow> provisioned \<Rightarrow> string \<Rightarrow> string \<Rightarrow> int" where
  "available c nodes stats prov pool node =
     (if map_Pool nodes node pool = None \<or> \<not> Placeable nodes node then 0
      else headroom c stats prov pool node)"

definition capacityFor ::
    "Controller \<Rightarrow> nodemap \<Rightarrow> node_stats \<Rightarrow> provisioned \<Rightarrow> string \<Rightarrow> nat \<Rightarrow> string \<Rightarrow> int" where
  "capacityFor c nodes stats prov pool reps pinned =
     (let av = available c nodes stats prov pool;
          need = (if pinned = '''' then reps else reps - 1);
          bound = (if pinned = '''' then - 1 else av pinned)
      in if need = 0 then bound
         else
           (let peers = rev (sort (map av (filter (\<lambda>n. n \<noteq> pinned) (map fst nodes))))
            in if length peers < need then 0
               else if bound < 0 \<or> peers ! (need - 1) < bound then peers ! (need - 1) else bound))"

definition GetCapacity ::
    "Controller \<Rightarrow> code + nodemap \<Rightarrow> node_stats rpc \<Rightarrow> MiroirVolume list rpc \<Rightarrow> string gomap \<Rightarrow>
     string gomap option \<Rightarrow> int rpc" where
  "GetCapacity c nodesRead statsRead volsRead params segments =
     (case parseReplicas params of
        Inl e \<Rightarrow> Inl e
      | Inr reps \<Rightarrow>
     (case parseAllowRemoteAccess params reps of
        Inl e \<Rightarrow> Inl e
      | Inr remoteAccess \<Rightarrow>
     (case nodesRead of
        Inl e \<Rightarrow> Inl e
      | Inr nodes \<Rightarrow>
     (case statsRead of
        Inl e \<Rightarrow> Inl e
      | Inr stats \<Rightarrow>
     (case volsRead of
        Inl e \<Rightarrow> Inl e
      | Inr vols \<Rightarrow>
          (let pool = parsePool params;
               capacity = capacityFor c nodes stats (provisionedPerPool vols '''') pool (nat reps)
           in case segments of
                None \<Rightarrow> Inr (capacity '''')
              | Some seg \<Rightarrow>
                  (let node = str_at seg TopologyKey
                   in if map_Pool nodes node pool = None \<or> \<not> Placeable nodes node
                      then (if remoteAccess then Inr (capacity '''') else Inr 0)
                      else Inr (capacity node))))))))"

section \<open>Zone spreading\<close>

text \<open>The failure domain of a node: its zone, or the node itself where it declares none.\<close>

definition domain_of :: "(string \<Rightarrow> string) \<Rightarrow> string \<Rightarrow> string + string" where
  "domain_of zoneOf n = (if zoneOf n = '''' then Inr n else Inl (zoneOf n))"

definition zone_inv :: "(string \<Rightarrow> string) \<Rightarrow> string list \<times> string list \<Rightarrow> bool" where
  "zone_inv zoneOf s \<longleftrightarrow> set (snd s) = {z. z \<noteq> '''' \<and> z \<in> zoneOf ` set (fst s)}"

lemma fst_zone_take [simp]: "fst (zone_take zoneOf n s) = fst s @ [n]"
  by (simp add: zone_take_def case_prod_unfold)

lemma zone_inv_take: "zone_inv zoneOf s \<Longrightarrow> zone_inv zoneOf (zone_take zoneOf n s)"
  by (auto simp: zone_inv_def zone_take_def case_prod_unfold)

lemma domain_fresh_iff:
  assumes "zone_inv zoneOf s" and "n \<notin> set (fst s)"
  shows "(zoneOf n = '''' \<or> zoneOf n \<notin> set (snd s)) \<longleftrightarrow> domain_of zoneOf n \<notin> domain_of zoneOf ` set (fst s)"
  using assms by (auto simp: zone_inv_def domain_of_def split: if_splits)

lemma zone_pass_pinned:
  assumes "length (fst s) + length xs \<le> cnt" and "zone_inv zoneOf s"
  shows "fst (foldl (\<lambda>s n. if length (fst s) < cnt then zone_take zoneOf n s else s) s xs) = fst s @ xs \<and>
    zone_inv zoneOf (foldl (\<lambda>s n. if length (fst s) < cnt then zone_take zoneOf n s else s) s xs)"
  using assms
proof (induction xs arbitrary: s)
  case (Cons x xs)
  from Cons.prems have "length (fst (zone_take zoneOf x s)) + length xs \<le> cnt" by simp
  from Cons.IH [OF this zone_inv_take [OF Cons.prems(2)]] Cons.prems(1) show ?case by simp
qed simp

text \<open>The second loop takes nodes of new domains only, and stops short of \<open>cnt\<close> only when it has
  seen no further one.\<close>

definition zone_fresh_pass where
  "zone_fresh_pass cnt zoneOf = foldl (\<lambda>s n. if length (fst s) < cnt \<and> (zoneOf n = '''' \<or> zoneOf n \<notin> set (snd s))
     then zone_take zoneOf n s else s)"

lemma zone_fresh_pass_spec:
  assumes "distinct (fst s @ xs)" and "length (fst s) \<le> cnt" and "zone_inv zoneOf s"
  shows "\<exists>ys. fst (zone_fresh_pass cnt zoneOf s xs) = fst s @ ys \<and> set ys \<subseteq> set xs \<and> distinct ys \<and>
    length (fst s) + length ys \<le> cnt \<and>
    distinct (map (domain_of zoneOf) ys) \<and> domain_of zoneOf ` set ys \<inter> domain_of zoneOf ` set (fst s) = {} \<and>
    (length (fst s) + length ys < cnt \<longrightarrow> domain_of zoneOf ` set xs \<subseteq> domain_of zoneOf ` set (fst s @ ys))"
  using assms
proof (induction xs arbitrary: s)
  case Nil
  then show ?case by (auto simp: zone_fresh_pass_def)
next
  case (Cons x xs)
  let ?d = "domain_of zoneOf" and ?t = "zone_take zoneOf x s"
  have x: "x \<notin> set (fst s)" and d: "distinct (fst s @ xs)" "distinct (fst ?t @ xs)"
    using Cons.prems(1) by auto
  have new: "(zoneOf x = '''' \<or> zoneOf x \<notin> set (snd s)) = (?d x \<notin> ?d ` set (fst s))"
    by (rule domain_fresh_iff [OF Cons.prems(3) x])
  show ?case
  proof (cases "length (fst s) < cnt \<and> ?d x \<notin> ?d ` set (fst s)")
    case True
    then have l: "length (fst ?t) \<le> cnt" by simp
    have step: "zone_fresh_pass cnt zoneOf s (x # xs) = zone_fresh_pass cnt zoneOf ?t xs"
      using True new by (simp add: zone_fresh_pass_def)
    from Cons.IH [OF d(2) l zone_inv_take [OF Cons.prems(3)]] obtain ys where
      ys: "fst (zone_fresh_pass cnt zoneOf ?t xs) = fst ?t @ ys" "set ys \<subseteq> set xs" "distinct ys"
        "length (fst ?t) + length ys \<le> cnt" "distinct (map ?d ys)" "?d ` set ys \<inter> ?d ` set (fst ?t) = {}"
        "length (fst ?t) + length ys < cnt \<longrightarrow> ?d ` set xs \<subseteq> ?d ` set (fst ?t @ ys)" by blast
    have "x \<notin> set ys" using ys(2) Cons.prems(1) by auto
    then show ?thesis using ys True unfolding step by (intro exI [of _ "x # ys"]) auto
  next
    case False
    then have step: "zone_fresh_pass cnt zoneOf s (x # xs) = zone_fresh_pass cnt zoneOf s xs"
      using new by (auto simp: zone_fresh_pass_def)
    from Cons.IH [OF d(1) Cons.prems(2,3)] obtain ys where
      ys: "fst (zone_fresh_pass cnt zoneOf s xs) = fst s @ ys" "set ys \<subseteq> set xs" "distinct ys"
        "length (fst s) + length ys \<le> cnt" "distinct (map ?d ys)" "?d ` set ys \<inter> ?d ` set (fst s) = {}"
        "length (fst s) + length ys < cnt \<longrightarrow> ?d ` set xs \<subseteq> ?d ` set (fst s @ ys)" by blast
    then show ?thesis using False unfolding step by (intro exI [of _ ys]) auto
  qed
qed

definition zone_fill_pass where
  "zone_fill_pass cnt zoneOf = foldl (\<lambda>s n. if length (fst s) < cnt \<and> n \<notin> set (fst s)
     then zone_take zoneOf n s else s)"

lemma zone_fill_pass_spec:
  assumes "distinct xs" and "length (fst s) \<le> cnt"
  shows "fst (zone_fill_pass cnt zoneOf s xs) =
    fst s @ take (cnt - length (fst s)) (filter (\<lambda>n. n \<notin> set (fst s)) xs)"
  using assms
proof (induction xs arbitrary: s)
  case Nil
  then show ?case by (simp add: zone_fill_pass_def)
next
  case (Cons x xs)
  let ?t = "zone_take zoneOf x s"
  have x: "x \<notin> set xs" "distinct xs" using Cons.prems(1) by auto
  show ?case
  proof (cases "length (fst s) < cnt \<and> x \<notin> set (fst s)")
    case True
    then have l: "length (fst ?t) \<le> cnt" by simp
    have "filter (\<lambda>n. n \<notin> set (fst ?t)) xs = filter (\<lambda>n. n \<notin> set (fst s)) xs"
      using x(1) by (intro filter_cong) auto
    moreover have "cnt - length (fst s) = Suc (cnt - length (fst ?t))" using True by (simp add: Suc_diff_Suc)
    ultimately show ?thesis using Cons.IH [OF x(2) l] True by (simp add: zone_fill_pass_def)
  next
    case False
    then show ?thesis using Cons.IH [OF x(2) Cons.prems(2)] Cons.prems(2)
      by (auto simp: zone_fill_pass_def)
  qed
qed

lemma spreadByZone_passes:
  assumes "distinct ordered" and "pinned \<le> cnt" and "pinned \<le> length ordered"
  obtains ys where "set ys \<subseteq> set (drop pinned ordered)" "distinct ys" "pinned + length ys \<le> cnt"
    "distinct (map (domain_of zoneOf) ys)"
    "domain_of zoneOf ` set ys \<inter> domain_of zoneOf ` set (take pinned ordered) = {}"
    "pinned + length ys < cnt \<longrightarrow>
      domain_of zoneOf ` set (drop pinned ordered) \<subseteq> domain_of zoneOf ` set (take pinned ordered @ ys)"
    "spreadByZone ordered pinned cnt zoneOf = take pinned ordered @ ys @
      take (cnt - (pinned + length ys)) (filter (\<lambda>n. n \<notin> set (take pinned ordered @ ys)) (drop pinned ordered))"
proof -
  let ?s1 = "foldl (\<lambda>s n. if length (fst s) < cnt then zone_take zoneOf n s else s) ([], []) (take pinned ordered)"
  have len: "length (take pinned ordered) = pinned" using assms(3) by simp
  have s1: "fst ?s1 = take pinned ordered" "zone_inv zoneOf ?s1"
    using zone_pass_pinned [of "([], [])" "take pinned ordered" cnt zoneOf] assms(2) len
    by (simp_all add: zone_inv_def)
  have d: "distinct (fst ?s1 @ drop pinned ordered)" "distinct (drop pinned ordered)"
    using assms(1) s1(1) by simp_all
  have l: "length (fst ?s1) \<le> cnt" using s1(1) len assms(2) by simp
  from zone_fresh_pass_spec [OF d(1) l s1(2)] obtain ys where
    ys: "fst (zone_fresh_pass cnt zoneOf ?s1 (drop pinned ordered)) = fst ?s1 @ ys"
      "set ys \<subseteq> set (drop pinned ordered)" "distinct ys" "length (fst ?s1) + length ys \<le> cnt"
      "distinct (map (domain_of zoneOf) ys)"
      "domain_of zoneOf ` set ys \<inter> domain_of zoneOf ` set (fst ?s1) = {}"
      "length (fst ?s1) + length ys < cnt \<longrightarrow>
        domain_of zoneOf ` set (drop pinned ordered) \<subseteq> domain_of zoneOf ` set (fst ?s1 @ ys)" by blast
  have l2: "length (fst (zone_fresh_pass cnt zoneOf ?s1 (drop pinned ordered))) \<le> cnt"
    using ys(1,4) by simp
  have "spreadByZone ordered pinned cnt zoneOf =
      fst (zone_fill_pass cnt zoneOf (zone_fresh_pass cnt zoneOf ?s1 (drop pinned ordered)) (drop pinned ordered))"
    by (simp add: spreadByZone_def zone_fill_pass_def zone_fresh_pass_def Let_def)
  also have "\<dots> = (fst ?s1 @ ys) @ take (cnt - length (fst ?s1 @ ys))
      (filter (\<lambda>n. n \<notin> set (fst ?s1 @ ys)) (drop pinned ordered))"
    using zone_fill_pass_spec [OF d(2) l2, of zoneOf] ys(1) by simp
  finally show ?thesis using ys s1(1) len by (intro that [of ys]) simp_all
qed

lemma spreadByZone_shape:
  assumes "distinct ordered" and "pinned \<le> cnt" and "cnt \<le> length ordered"
  shows "length (spreadByZone ordered pinned cnt zoneOf) = cnt \<and>
    distinct (spreadByZone ordered pinned cnt zoneOf) \<and>
    set (spreadByZone ordered pinned cnt zoneOf) \<subseteq> set ordered \<and>
    take pinned (spreadByZone ordered pinned cnt zoneOf) = take pinned ordered"
proof -
  let ?pre = "take pinned ordered" and ?post = "drop pinned ordered"
  have p: "pinned \<le> length ordered" using assms by simp
  obtain ys where ys: "set ys \<subseteq> set ?post" "distinct ys" "pinned + length ys \<le> cnt"
    and r: "spreadByZone ordered pinned cnt zoneOf = ?pre @ ys @
      take (cnt - (pinned + length ys)) (filter (\<lambda>n. n \<notin> set (?pre @ ys)) ?post)"
    by (rule spreadByZone_passes [OF assms(1,2) p, of zoneOf])
  have len: "length ?pre = pinned" using p by simp
  have "distinct (?pre @ ?post)" using assms(1) by simp
  then have dj: "set ?pre \<inter> set ?post = {}" "distinct ?pre" "distinct ?post" by (simp_all only: distinct_append)
  have "length (filter (\<lambda>n. n \<notin> set (?pre @ ys)) ?post) = card (set ?post - set ys)"
  proof -
    have "set (filter (\<lambda>n. n \<notin> set (?pre @ ys)) ?post) = set ?post - set ys" using dj(1) by auto
    then show ?thesis using distinct_card [OF distinct_filter [OF dj(3)]] by metis
  qed
  also have "\<dots> = length ?post - length ys"
    using card_Diff_subset [OF finite_set ys(1)] distinct_card [OF dj(3)] distinct_card [OF ys(2)] by simp
  finally have "cnt - (pinned + length ys) \<le> length (filter (\<lambda>n. n \<notin> set (?pre @ ys)) ?post)"
    using assms(3) p by simp
  then have "length (spreadByZone ordered pinned cnt zoneOf) = cnt" unfolding r using len ys(3) by simp
  moreover have "distinct (spreadByZone ordered pinned cnt zoneOf)"
  proof -
    let ?f = "filter (\<lambda>n. n \<notin> set (?pre @ ys)) ?post" and ?k = "cnt - (pinned + length ys)"
    have "set (take ?k ?f) \<subseteq> set ?f" by (rule set_take_subset)
    then have "set (take ?k ?f) \<inter> set (?pre @ ys) = {}" by auto
    moreover have "set ?pre \<inter> set ys = {}" using dj(1) ys(1) by blast
    ultimately show ?thesis
      unfolding r using dj(2,3) ys(2) distinct_take [OF distinct_filter [OF dj(3)]] by (auto simp: Int_Un_distrib)
  qed
  moreover have "set (spreadByZone ordered pinned cnt zoneOf) \<subseteq> set ordered"
    unfolding r using ys(1) by (auto dest!: in_set_takeD [of _ "cnt - (pinned + length ys)"] dest: in_set_takeD in_set_dropD)
  moreover have "take pinned (spreadByZone ordered pinned cnt zoneOf) = ?pre" unfolding r using len by simp
  ultimately show ?thesis by blast
qed

lemma spreadByZone_domains:
  assumes "distinct ordered" and "pinned \<le> cnt" and "cnt \<le> length ordered"
  shows "\<forall>ys. distinct ys \<and> length ys = cnt \<and> set ys \<subseteq> set ordered \<and> set (take pinned ordered) \<subseteq> set ys \<longrightarrow>
    card (domain_of zoneOf ` set ys) \<le> card (domain_of zoneOf ` set (spreadByZone ordered pinned cnt zoneOf))"
proof (intro allI impI)
  fix zs assume zs: "distinct zs \<and> length zs = cnt \<and> set zs \<subseteq> set ordered \<and> set (take pinned ordered) \<subseteq> set zs"
  let ?pre = "take pinned ordered" and ?post = "drop pinned ordered" and ?d = "domain_of zoneOf"
  have p: "pinned \<le> length ordered" using assms by simp
  obtain ys where ys: "set ys \<subseteq> set ?post" "distinct ys" "pinned + length ys \<le> cnt"
      "distinct (map ?d ys)" "?d ` set ys \<inter> ?d ` set ?pre = {}"
      "pinned + length ys < cnt \<longrightarrow> ?d ` set ?post \<subseteq> ?d ` set (?pre @ ys)"
    and r: "spreadByZone ordered pinned cnt zoneOf = ?pre @ ys @
      take (cnt - (pinned + length ys)) (filter (\<lambda>n. n \<notin> set (?pre @ ys)) ?post)"
    by (rule spreadByZone_passes [OF assms(1,2) p, of zoneOf])
  have sub: "?d ` set (?pre @ ys) \<subseteq> ?d ` set (spreadByZone ordered pinned cnt zoneOf)" unfolding r by auto
  have le: "card (?d ` set zs) \<le> card (?d ` set (?pre @ ys))"
  proof (cases "pinned + length ys < cnt")
    case True
    have "set ordered = set ?pre \<union> set ?post" by (metis append_take_drop_id set_append)
    then have "?d ` set zs \<subseteq> ?d ` set ?pre \<union> ?d ` set ?post" using zs by (metis image_Un image_mono)
    moreover have "?d ` set ?post \<subseteq> ?d ` set (?pre @ ys)" using ys(6) True by simp
    ultimately have "?d ` set zs \<subseteq> ?d ` set (?pre @ ys)" unfolding set_append image_Un by blast
    then show ?thesis by (intro card_mono) auto
  next
    case False
    then have l: "cnt = pinned + length ys" using ys(3) by simp
    have c: "card (set zs - set ?pre) = length ys"
      using zs l p assms(1) card_Diff_subset [of "set ?pre" "set zs"] distinct_card [of zs]
        distinct_card [of ?pre] by (simp add: min_def)
    have "?d ` set zs = ?d ` set ?pre \<union> ?d ` (set zs - set ?pre)" using zs by blast
    then have "card (?d ` set zs) \<le> card (?d ` set ?pre) + card (?d ` (set zs - set ?pre))"
      by (metis card_Un_le)
    also have "\<dots> \<le> card (?d ` set ?pre) + length ys"
      using card_image_le [of "set zs - set ?pre" ?d] c by simp
    also have "\<dots> = card (?d ` set ?pre) + card (?d ` set ys)"
      using distinct_card [OF ys(4)] by simp
    also have "\<dots> = card (?d ` set (?pre @ ys))"
      using card_Un_disjoint [of "?d ` set ?pre" "?d ` set ys"] ys(5) by (simp add: image_Un inf_commute)
    finally show ?thesis .
  qed
  also have "\<dots> \<le> card (?d ` set (spreadByZone ordered pinned cnt zoneOf))"
    by (rule card_mono [OF _ sub]) simp
  finally show "card (?d ` set zs) \<le> card (?d ` set (spreadByZone ordered pinned cnt zoneOf))" .
qed

text \<open>
  C27. Spreading over failure domains: from a ranking without repetitions, the chosen nodes are
  \<open>cnt\<close> distinct ones, start with the pinned nodes, and cover as many failure domains as any
  choice of \<open>cnt\<close> nodes that includes the pinned ones can.
\<close>

theorem spreadByZone_optimal:
  assumes "distinct ordered" and "pinned \<le> cnt" and "cnt \<le> length ordered"
  shows "length (spreadByZone ordered pinned cnt zoneOf) = cnt \<and>
    distinct (spreadByZone ordered pinned cnt zoneOf) \<and>
    set (spreadByZone ordered pinned cnt zoneOf) \<subseteq> set ordered \<and>
    take pinned (spreadByZone ordered pinned cnt zoneOf) = take pinned ordered \<and>
    (\<forall>ys. distinct ys \<and> length ys = cnt \<and> set ys \<subseteq> set ordered \<and> set (take pinned ordered) \<subseteq> set ys \<longrightarrow>
       card (domain_of zoneOf ` set ys) \<le> card (domain_of zoneOf ` set (spreadByZone ordered pinned cnt zoneOf)))"
  using spreadByZone_shape [OF assms] spreadByZone_domains [OF assms] by blast

theorem spreadByZone_optimal_witness:
  "spreadByZone [''a'', ''b'', ''c'', ''d''] 1 3 (\<lambda>n. if n = ''c'' then ''z2'' else ''z1'') = [''a'', ''c'', ''b''] \<and>
   length [''a'', ''c'', ''b''] = (3::nat)"
  using spreadByZone_optimal [of "[''a'', ''b'', ''c'', ''d'']" 1 3 "\<lambda>n. if n = ''c'' then ''z2'' else ''z1''"]
  by (simp add: spreadByZone_def zone_take_def)

section \<open>Placement\<close>

lemma pick_term_sound:
  "pick_term ts cand excluded = (pin, matched) \<Longrightarrow> pin \<noteq> '''' \<Longrightarrow> matched \<and> cand pin \<and> pin \<notin> set excluded"
  by (induction ts) (auto split: option.splits if_splits)

lemma candidateNames_set: "set (candidateNames nodes pool excluded) = {n. isCandidate nodes pool excluded n}"
  by (auto simp: candidateNames_def isCandidate_def)

lemma distinct_candidateNames: "gomap_ok nodes \<Longrightarrow> distinct (candidateNames nodes pool excluded)"
  by (simp add: candidateNames_def gomap_ok_def)

text \<open>The ranking \<^verbatim>\<open>place\<close> builds: the pinned node, then the candidates with room.\<close>

definition placeRest ::
    "Controller \<Rightarrow> nodemap \<Rightarrow> node_stats \<Rightarrow> provisioned \<Rightarrow> int \<Rightarrow> string \<Rightarrow> string list \<Rightarrow> string \<Rightarrow> string list" where
  "placeRest c nodes stats prov want pool excluded pin =
     sort_key (rankKey c stats prov pool)
       (filter (\<lambda>n. n \<notin> set (if pin = '''' then [] else [pin]) \<and> \<not> overcommitted c stats prov pool want n)
         (candidateNames nodes pool excluded))"

definition requisite_unmet :: "TopologyRequirement option \<Rightarrow> bool \<Rightarrow> bool \<Rightarrow> bool" where
  "requisite_unmet reqs matched remoteAccess \<longleftrightarrow>
     (case reqs of None \<Rightarrow> False | Some t \<Rightarrow> tr_requisite t \<noteq> []) \<and> \<not> matched \<and> \<not> remoteAccess"

lemma placeNodes_eq:
  assumes "topologyPick reqs (isCandidate nodes pool excluded) excluded = (pin, matched)"
  shows "placeNodes c nodes (Inr stats) prov reqs cnt want remoteAccess pool excluded =
    (let first = (if pin = '''' then [] else [pin]);
         ordered = first @ placeRest c nodes stats prov want pool excluded pin;
         chosen = spreadByZone ordered (length first) cnt (\<lambda>n. nd_zone (node_at nodes n))
     in if length (candidateNames nodes pool excluded) < cnt \<or> requisite_unmet reqs matched remoteAccess \<or>
           length ordered < cnt \<or> list_ex (overcommitted c stats prov pool want) chosen
        then Inl ResourceExhausted else Inr chosen)"
  using assms by (simp add: placeNodes_def placeRest_def requisite_unmet_def Let_def)

lemma placeRest_props:
  assumes "gomap_ok nodes" and "pin \<noteq> '''' \<longrightarrow> isCandidate nodes pool excluded pin"
  shows "distinct ((if pin = '''' then [] else [pin]) @ placeRest c nodes stats prov want pool excluded pin)"
    and "set (placeRest c nodes stats prov want pool excluded pin) =
      {n. n \<notin> set (if pin = '''' then [] else [pin]) \<and> isCandidate nodes pool excluded n \<and>
          \<not> overcommitted c stats prov pool want n}"
    and "length ((if pin = '''' then [] else [pin]) @ placeRest c nodes stats prov want pool excluded pin) \<le>
      length (candidateNames nodes pool excluded)"
proof -
  let ?first = "if pin = '''' then [] else [pin]" and ?rest = "placeRest c nodes stats prov want pool excluded pin"
  show s: "set ?rest = {n. n \<notin> set ?first \<and> isCandidate nodes pool excluded n \<and> \<not> overcommitted c stats prov pool want n}"
    by (auto simp: placeRest_def candidateNames_set)
  have r: "distinct ?rest" using distinct_candidateNames [OF assms(1)] by (simp add: placeRest_def)
  show d: "distinct (?first @ ?rest)" using r s by auto
  have "set (?first @ ?rest) \<subseteq> set (candidateNames nodes pool excluded)"
    using s assms(2) by (auto simp: candidateNames_set)
  then show "length (?first @ ?rest) \<le> length (candidateNames nodes pool excluded)"
    using card_mono [OF finite_set] distinct_card [OF d]
      distinct_card [OF distinct_candidateNames [OF assms(1)], of pool excluded] by metis
qed

text \<open>When placement succeeds: enough nodes with room beside a pinned node that has room itself.\<close>

lemma placeNodes_succeeds_iff:
  assumes "gomap_ok nodes" and "0 < cnt"
    and pick: "topologyPick reqs (isCandidate nodes pool excluded) excluded = (pin, matched)"
    and req: "\<not> requisite_unmet reqs matched remoteAccess"
  shows "(\<exists>ns. placeNodes c nodes (Inr stats) prov reqs cnt want remoteAccess pool excluded = Inr ns) \<longleftrightarrow>
    (pin \<noteq> '''' \<longrightarrow> \<not> overcommitted c stats prov pool want pin) \<and>
    cnt \<le> (if pin = '''' then 0 else 1) + length (placeRest c nodes stats prov want pool excluded pin)"
proof -
  let ?first = "if pin = '''' then [] else [pin]" and ?rest = "placeRest c nodes stats prov want pool excluded pin"
  let ?chosen = "spreadByZone (?first @ ?rest) (length ?first) cnt (\<lambda>n. nd_zone (node_at nodes n))"
  have pin: "pin \<noteq> '''' \<longrightarrow> isCandidate nodes pool excluded pin"
    using pick_term_sound [OF pick [unfolded topologyPick_def]] by blast
  note rest = placeRest_props [OF assms(1) pin, of c stats prov want]
  have len: "length (?first @ ?rest) = (if pin = '''' then 0 else 1) + length ?rest" by simp
  show ?thesis
  proof (cases "length (?first @ ?rest) < cnt")
    case True
    then show ?thesis unfolding placeNodes_eq [OF pick] Let_def using len by auto
  next
    case False
    then have f: "length ?first \<le> cnt" "cnt \<le> length (?first @ ?rest)" using assms(2) by auto
    note shape = spreadByZone_shape [OF rest(1) f, of "\<lambda>n. nd_zone (node_at nodes n)"]
    have pinned: "pin \<in> set ?chosen" if "pin \<noteq> ''''"
      using shape that assms(2) in_set_takeD [of pin 1 ?chosen] by (auto simp: take_Suc)
    have "list_ex (overcommitted c stats prov pool want) ?chosen \<longleftrightarrow>
        pin \<noteq> '''' \<and> overcommitted c stats prov pool want pin"
      unfolding list_ex_iff using shape rest(2) pinned by (auto split: if_splits)
    then show ?thesis unfolding placeNodes_eq [OF pick] Let_def using False rest(3) req len by auto
  qed
qed

lemma placeNodes_sound:
  assumes "gomap_ok nodes" and "0 < cnt"
    and "placeNodes c nodes (Inr stats) prov reqs cnt want remoteAccess pool excluded = Inr ns"
  shows "length ns = cnt \<and> distinct ns \<and>
    (\<forall>n\<in>set ns. isCandidate nodes pool excluded n \<and> \<not> overcommitted c stats prov pool want n) \<and>
    (fst (topologyPick reqs (isCandidate nodes pool excluded) excluded) \<noteq> '''' \<longrightarrow>
       hd ns = fst (topologyPick reqs (isCandidate nodes pool excluded) excluded))"
proof -
  obtain pin matched where pick: "topologyPick reqs (isCandidate nodes pool excluded) excluded = (pin, matched)"
    by fastforce
  let ?first = "if pin = '''' then [] else [pin]" and ?rest = "placeRest c nodes stats prov want pool excluded pin"
  let ?chosen = "spreadByZone (?first @ ?rest) (length ?first) cnt (\<lambda>n. nd_zone (node_at nodes n))"
  have pin: "pin \<noteq> '''' \<longrightarrow> isCandidate nodes pool excluded pin"
    using pick_term_sound [OF pick [unfolded topologyPick_def]] by blast
  note rest = placeRest_props [OF assms(1) pin, of c stats prov want]
  have ok: "\<not> length (?first @ ?rest) < cnt" "\<not> list_ex (overcommitted c stats prov pool want) ?chosen" "ns = ?chosen"
    using assms(3) unfolding placeNodes_eq [OF pick] Let_def by (simp_all split: if_splits)
  then have f: "length ?first \<le> cnt" "cnt \<le> length (?first @ ?rest)" using assms(2) by auto
  note shape = spreadByZone_shape [OF rest(1) f, of "\<lambda>n. nd_zone (node_at nodes n)"]
  have "\<forall>n\<in>set ?chosen. isCandidate nodes pool excluded n"
    using shape rest(2) pin by (auto split: if_splits)
  moreover have "pin \<noteq> '''' \<longrightarrow> hd ?chosen = pin"
  proof
    assume "pin \<noteq> ''''"
    then have "take 1 ?chosen = [pin]" using shape by simp
    then show "hd ?chosen = pin" by (cases ?chosen) auto
  qed
  ultimately show ?thesis using ok(2) shape unfolding ok(3) pick by (auto simp: list_ex_iff)
qed

text \<open>What \<^verbatim>\<open>place\<close> writes into the i-th replica entry.\<close>

definition placed_entry ::
    "nodemap \<Rightarrow> (string \<Rightarrow> api_error + KNode) \<Rightarrow> string \<Rightarrow> bool \<Rightarrow> int \<Rightarrow> Replica \<Rightarrow> bool" where
  "placed_entry nodes getNode pool replicated i r \<longleftrightarrow>
     (\<exists>p. map_Pool nodes (r_node r) pool = Some p \<and> r_backend r = pool_backend p) \<and> r_pool r = pool \<and>
     \<not> r_diskless r \<and> \<not> r_fullSync r \<and>
     (if replicated then r_nodeID r = i \<and> ReplicationAddress nodes getNode (r_node r) = Inr (r_address r)
      else r_nodeID r = 0 \<and> r_address r = '''')"

lemma place_entry_spec:
  assumes "place_entry nodes getNode pool replicated i n = Inr r" and "map_Pool nodes n pool \<noteq> None"
  shows "r_node r = n \<and> placed_entry nodes getNode pool replicated i r"
  using assms by (auto simp: place_entry_def placed_entry_def bare_replica_def Let_def split: sum.splits if_splits)

lemma place_replicas_spec:
  assumes "place_replicas nodes getNode pool replicated i ns = Inr rs"
    and "\<forall>n\<in>set ns. map_Pool nodes n pool \<noteq> None"
  shows "map r_node rs = ns \<and> (\<forall>k<length rs. placed_entry nodes getNode pool replicated (i + int k) (rs ! k))"
  using assms
proof (induction ns arbitrary: i rs)
  case (Cons n ns)
  from Cons.prems(1) obtain r rs' where r: "rs = r # rs'"
    and pe: "place_entry nodes getNode pool replicated i n = Inr r"
    and rest: "place_replicas nodes getNode pool replicated (i + 1) ns = Inr rs'"
    by (auto split: sum.splits)
  have n: "r_node r = n" and e: "placed_entry nodes getNode pool replicated i r"
    using place_entry_spec [OF pe] Cons.prems(2) by simp_all
  have IH: "map r_node rs' = ns" "\<And>k. k < length rs' \<Longrightarrow> placed_entry nodes getNode pool replicated (i + 1 + int k) (rs' ! k)"
    using Cons.IH [OF rest] Cons.prems(2) by simp_all
  have "placed_entry nodes getNode pool replicated (i + int k) (rs ! k)" if "k < length rs" for k
    using that e IH(2) [of "k - 1"] by (cases k) (simp_all add: r algebra_simps)
  then show ?case using r n IH(1) by simp
qed simp

lemma place_sound:
  assumes "gomap_ok nodes" and "0 < cnt"
    and "place c nodes statsRead getNode reqs cnt want name vols remoteAccess pool excluded = Inr rs"
  shows "\<exists>stats. statsRead = Inr stats \<and> length rs = cnt \<and> distinct (map r_node rs) \<and>
    (\<forall>r\<in>set rs. isCandidate nodes pool excluded (r_node r) \<and>
       \<not> overcommitted c stats (provisionedPerPool vols name) pool want (r_node r)) \<and>
    (\<forall>k<cnt. placed_entry nodes getNode pool (1 < cnt) (int k) (rs ! k)) \<and>
    (fst (topologyPick reqs (isCandidate nodes pool excluded) excluded) \<noteq> '''' \<longrightarrow>
       r_node (hd rs) = fst (topologyPick reqs (isCandidate nodes pool excluded) excluded))"
proof -
  obtain stats ns where s: "statsRead = Inr stats"
    and ns: "placeNodes c nodes (Inr stats) (provisionedPerPool vols name) reqs cnt want remoteAccess pool excluded = Inr ns"
    and rs: "place_replicas nodes getNode pool (1 < cnt) 0 ns = Inr rs"
    using assms(3) by (cases statsRead) (auto simp: place_def placeNodes_def Let_def split: sum.splits if_splits)
  note n = placeNodes_sound [OF assms(1,2) ns]
  have "\<forall>n\<in>set ns. map_Pool nodes n pool \<noteq> None" using n by (simp add: isCandidate_def)
  from place_replicas_spec [OF rs this] have r: "map r_node rs = ns"
    "\<forall>k<length rs. placed_entry nodes getNode pool (1 < cnt) (int k) (rs ! k)" by simp_all
  have "rs \<noteq> []" using r(1) n assms(2) by auto
  then have "r_node (hd rs) = hd ns" using r(1) by (cases rs) auto
  moreover have "length rs = cnt" using r(1) n by (metis length_map)
  moreover have "r_node r \<in> set ns" if "r \<in> set rs" for r using r(1) that by auto
  moreover note n r(2)
  ultimately show ?thesis using s r(1) by (intro exI [of _ stats]) simp
qed

text \<open>
  C17. Placement: a successful \<^verbatim>\<open>place\<close> yields as many entries as asked for, on distinct
  nodes that are not excluded, carry the class's pool and have no address conflict, each within
  its node's headroom wherever fresh statistics are known; a replicated volume numbers its legs from
  zero in order and records their replication addresses; and the scheduler's node comes first.
\<close>

theorem place_spec:
  assumes "gomap_ok nodes" and "0 < cnt"
    and "place c nodes statsRead getNode reqs cnt want name vols remoteAccess pool excluded = Inr rs"
  shows "\<exists>stats. statsRead = Inr stats \<and> length rs = cnt \<and> distinct (map r_node rs) \<and>
    (\<forall>r\<in>set rs. r_node r \<notin> set excluded \<and> Placeable nodes (r_node r) \<and>
       (case poolHeadroom c (stats_pool stats (r_node r) pool) (prov_at (provisionedPerPool vols name) (r_node r) pool) of
          Some room \<Rightarrow> want \<le> room | None \<Rightarrow> True)) \<and>
    (\<forall>k<cnt. placed_entry nodes getNode pool (1 < cnt) (int k) (rs ! k)) \<and>
    (\<forall>pin. topologyPick reqs (isCandidate nodes pool excluded) excluded = (pin, True) \<and> pin \<noteq> '''' \<longrightarrow>
       r_node (hd rs) = pin)"
proof -
  obtain stats where s: "statsRead = Inr stats" "length rs = cnt" "distinct (map r_node rs)"
      "\<forall>k<cnt. placed_entry nodes getNode pool (1 < cnt) (int k) (rs ! k)"
      "fst (topologyPick reqs (isCandidate nodes pool excluded) excluded) \<noteq> '''' \<longrightarrow>
         r_node (hd rs) = fst (topologyPick reqs (isCandidate nodes pool excluded) excluded)"
    and all: "\<forall>r\<in>set rs. isCandidate nodes pool excluded (r_node r) \<and>
       \<not> overcommitted c stats (provisionedPerPool vols name) pool want (r_node r)"
    using place_sound [OF assms] by blast
  have "r_node r \<notin> set excluded \<and> Placeable nodes (r_node r) \<and>
       (case poolHeadroom c (stats_pool stats (r_node r) pool) (prov_at (provisionedPerPool vols name) (r_node r) pool) of
          Some room \<Rightarrow> want \<le> room | None \<Rightarrow> True)" if "r \<in> set rs" for r
    using bspec [OF all that] by (auto simp: isCandidate_def overcommitted_def headroomAt_def split: option.split)
  then show ?thesis using s by (intro exI [of _ stats]) simp
qed

definition example_controller :: Controller where
  "example_controller = \<lparr>OvercommitRatio = Float 0 0, FreeSpaceRatio = Float 0 0, AutoTieBreaker = True,
     RWXEnabled = True, DRBDPortBase = 0\<rparr>"

definition example_stats :: node_stats where
  "example_stats = map (\<lambda>(n, used). (n, \<lparr>mns_pools = [\<lparr>ps_name = ''default'', ps_capacityBytes = 1000,
       ps_allocatedBytes = used\<rparr>], mns_observedAt = Some 0, mns_conditions = []\<rparr>))
     [(''a'', 100), (''b'', 10), (''c'', 990)]"

definition example_topology_req :: "TopologyRequirement option" where
  "example_topology_req = Some \<lparr>tr_requisite = [], tr_preferred = [[(TopologyKey, ''a'')]]\<rparr>"

theorem place_spec_witness:
  "\<exists>rs. place example_controller example_nodes (Inr example_stats) (\<lambda>_. Inl NotFound) example_topology_req
       2 512 ''pvc-9'' [] False ''default'' [] = Inr rs \<and>
     length rs = 2 \<and> distinct (map r_node rs) \<and> r_node (hd rs) = ''a''"
proof -
  let ?p = "place example_controller example_nodes (Inr example_stats) (\<lambda>_. Inl NotFound) example_topology_req
       2 512 ''pvc-9'' [] False ''default'' []"
  have "isl ?p = False" by code_simp
  then obtain rs where rs: "?p = Inr rs" by (cases ?p) auto
  have g: "gomap_ok example_nodes" by code_simp
  have pick: "topologyPick example_topology_req (isCandidate example_nodes ''default'' []) [] = (''a'', True)"
    by code_simp
  have "length rs = 2 \<and> distinct (map r_node rs) \<and> r_node (hd rs) = ''a''"
    using place_spec [OF g _ rs] pick by simp
  then show ?thesis using rs by blast
qed

section \<open>GetCapacity\<close>

text \<open>The k-th largest element of a list reaches a threshold exactly when k elements do.\<close>

lemma kth_largest_ge:
  fixes xs :: "int list"
  assumes "0 < k" and "k \<le> length xs"
  shows "w \<le> rev (sort xs) ! (k - 1) \<longleftrightarrow> k \<le> length (filter (\<lambda>x. w \<le> x) xs)"
proof -
  let ?ys = "rev (sort xs)"
  have len: "length ?ys = length xs" by simp
  have mono: "?ys ! j \<le> ?ys ! i" if "i \<le> j" "j < length xs" for i j
    using that sorted_rev_nth_mono [of ?ys i j] by simp
  have "mset (filter (\<lambda>x. w \<le> x) ?ys) = mset (filter (\<lambda>x. w \<le> x) xs)" by (simp add: mset_filter)
  then have f: "length (filter (\<lambda>x. w \<le> x) xs) = card {i. i < length xs \<and> w \<le> ?ys ! i}"
    using length_filter_conv_card [of "\<lambda>x. w \<le> x" ?ys] mset_eq_length by (metis len)
  show ?thesis
  proof
    assume w: "w \<le> ?ys ! (k - 1)"
    have "{0..<k} \<subseteq> {i. i < length xs \<and> w \<le> ?ys ! i}"
    proof
      fix i assume "i \<in> {0..<k}"
      then have "i \<le> k - 1" "k - 1 < length xs" "i < length xs" using assms by auto
      then show "i \<in> {i. i < length xs \<and> w \<le> ?ys ! i}" using order_trans [OF w mono [of i "k - 1"]] by simp
    qed
    from card_mono [OF _ this] show "k \<le> length (filter (\<lambda>x. w \<le> x) xs)" unfolding f by simp
  next
    assume k: "k \<le> length (filter (\<lambda>x. w \<le> x) xs)"
    show "w \<le> ?ys ! (k - 1)"
    proof (rule ccontr)
      assume n: "\<not> w \<le> ?ys ! (k - 1)"
      have "{i. i < length xs \<and> w \<le> ?ys ! i} \<subseteq> {0..<k - 1}"
      proof
        fix i assume i: "i \<in> {i. i < length xs \<and> w \<le> ?ys ! i}"
        have "\<not> k - 1 \<le> i"
        proof
          assume "k - 1 \<le> i"
          then have "w \<le> ?ys ! (k - 1)" using i order_trans [of w "?ys ! i", OF _ mono [of "k - 1" i]] by blast
          then show False using n by blast
        qed
        then show "i \<in> {0..<k - 1}" by simp
      qed
      from card_mono [OF _ this] have "card {i. i < length xs \<and> w \<le> ?ys ! i} \<le> k - 1" by simp
      then show False using k assms(1) unfolding f by simp
    qed
  qed
qed

lemma headroomAt_nonneg: "headroomAt c stats prov pool n = Some room \<Longrightarrow> 0 \<le> room"
  by (auto simp: headroomAt_def poolHeadroom_def Let_def split: option.splits if_splits prod.splits)

lemma available_nonneg: "0 \<le> available c nodes stats prov pool n"
  using headroomAt_nonneg [of c stats prov pool n]
  by (auto simp: available_def headroom_def split: option.splits)

lemma isCandidate_iff:
  "isCandidate nodes pool excluded n \<longleftrightarrow>
     n \<notin> set excluded \<and> map_Pool nodes n pool \<noteq> None \<and> Placeable nodes n"
  using Placeable_key [of nodes n] by (auto simp: isCandidate_def)

lemma available_ge_iff:
  assumes "0 < want" and "isCandidate nodes pool [] n \<longrightarrow> headroomAt c stats prov pool n \<noteq> None"
  shows "want \<le> available c nodes stats prov pool n \<longleftrightarrow>
    isCandidate nodes pool [] n \<and> \<not> overcommitted c stats prov pool want n"
  using assms by (auto simp: isCandidate_iff available_def headroom_def overcommitted_def split: option.splits)

lemma capacityFor_ge_iff:
  assumes "0 < want" and "0 < cnt"
  shows "want \<le> capacityFor c nodes stats prov pool cnt pin \<longleftrightarrow>
    (pin \<noteq> '''' \<longrightarrow> want \<le> available c nodes stats prov pool pin) \<and>
    cnt \<le> (if pin = '''' then 0 else 1) +
      length (filter (\<lambda>n. n \<noteq> pin \<and> want \<le> available c nodes stats prov pool n) (map fst nodes))"
proof -
  let ?av = "available c nodes stats prov pool" and ?need = "if pin = '''' then cnt else cnt - 1"
  let ?xs = "map ?av (filter (\<lambda>n. n \<noteq> pin) (map fst nodes))"
  have f: "length (filter (\<lambda>n. n \<noteq> pin \<and> want \<le> ?av n) (map fst nodes)) = length (filter (\<lambda>x. want \<le> x) ?xs)"
    by (simp add: filter_map comp_def conj_commute)
  have le: "length (filter (\<lambda>x. want \<le> x) ?xs) \<le> length ?xs" by (rule length_filter_le)
  show ?thesis
  proof (cases "?need = 0")
    case True
    then show ?thesis using assms(2) by (auto simp: capacityFor_def Let_def split: if_splits)
  next
    case False
    show ?thesis
    proof (cases "length ?xs < ?need")
      case True
      then show ?thesis unfolding f using False le assms(1) by (auto simp: capacityFor_def Let_def split: if_splits)
    next
      case c: False
      have k: "want \<le> rev (sort ?xs) ! (?need - 1) \<longleftrightarrow> ?need \<le> length (filter (\<lambda>x. want \<le> x) ?xs)"
        using False c by (intro kth_largest_ge) simp_all
      have "capacityFor c nodes stats prov pool cnt pin =
          (if pin = '''' then rev (sort ?xs) ! (?need - 1) else min (?av pin) (rev (sort ?xs) ! (?need - 1)))"
        using False c available_nonneg [of c nodes stats prov pool pin]
        by (simp add: capacityFor_def Let_def min_def)
      then show ?thesis unfolding f using k assms(2) by (auto split: if_splits)
    qed
  qed
qed

lemma capacity_matches_nodes:
  assumes "gomap_ok nodes" and names: "'''' \<notin> fst ` set nodes" and "0 < want" and "0 < cnt"
    and known: "\<And>n. isCandidate nodes pool [] n \<Longrightarrow> headroomAt c stats prov pool n \<noteq> None"
    and pick: "topologyPick reqs (isCandidate nodes pool []) [] = (pin, matched)"
    and req: "\<not> requisite_unmet reqs matched remoteAccess"
  shows "(\<exists>ns. placeNodes c nodes (Inr stats) prov reqs cnt want remoteAccess pool [] = Inr ns) \<longleftrightarrow>
    want \<le> capacityFor c nodes stats prov pool cnt pin"
proof -
  note av = available_ge_iff [OF assms(3), of nodes pool _ c stats prov]
  have pin: "pin \<noteq> '''' \<longrightarrow> isCandidate nodes pool [] pin"
    using pick_term_sound [OF pick [unfolded topologyPick_def]] by blast
  have eq: "(isCandidate nodes pool [] n \<and> n \<notin> set (if pin = '''' then [] else [pin]) \<and>
      \<not> overcommitted c stats prov pool want n) = (n \<noteq> pin \<and> want \<le> available c nodes stats prov pool n)"
    if "n \<in> set (map fst nodes)" for n
  proof -
    have "n \<noteq> ''''" using that names by (metis list.set_map)
    then show ?thesis using av [of n] known [of n] by auto
  qed
  have "filter (\<lambda>n. n \<notin> set (if pin = '''' then [] else [pin]) \<and> \<not> overcommitted c stats prov pool want n)
        (candidateNames nodes pool []) =
      filter (\<lambda>n. n \<noteq> pin \<and> want \<le> available c nodes stats prov pool n) (map fst nodes)"
    unfolding candidateNames_def filter_filter using eq by (intro filter_cong refl) blast
  then have len: "length (placeRest c nodes stats prov want pool [] pin) =
      length (filter (\<lambda>n. n \<noteq> pin \<and> want \<le> available c nodes stats prov pool n) (map fst nodes))"
    by (simp add: placeRest_def)
  have "pin \<noteq> '''' \<longrightarrow> (want \<le> available c nodes stats prov pool pin) = (\<not> overcommitted c stats prov pool want pin)"
    using av [of pin] known [of pin] pin by blast
  then show ?thesis
    unfolding placeNodes_succeeds_iff [OF assms(1,4) pick req] capacityFor_ge_iff [OF assms(3,4)] len by blast
qed

lemma provisionedPerPool_fresh:
  assumes "name \<notin> vname ` set vols" and "name' \<notin> vname ` set vols"
  shows "provisionedPerPool vols name = provisionedPerPool vols name'"
  unfolding provisionedPerPool_def
  using assms by (intro foldl_cong refl) auto

lemma parseReplicas_range: "parseReplicas params = Inr reps \<Longrightarrow> 1 \<le> reps \<and> reps \<le> 3"
  by (auto simp: parseReplicas_def split: option.splits if_splits)

text \<open>
  C25. The scheduler's view: for a new volume, and as long as every node carrying the class's
  pool has fresh statistics, \<^verbatim>\<open>GetCapacity\<close> answers for a node at least the requested size exactly
  when placement pinned to that node finds replica nodes.
\<close>

theorem GetCapacity_matches_place:
  assumes "gomap_ok nodes" and "'''' \<notin> fst ` set nodes" and "0 < want"
    and "parseReplicas params = Inr reps" and "parseAllowRemoteAccess params reps = Inr remoteAccess"
    and "name \<notin> vname ` set vols" and "'''' \<notin> vname ` set vols"
    and "\<And>n. isCandidate nodes (parsePool params) [] n \<Longrightarrow>
      headroomAt c stats (provisionedPerPool vols name) (parsePool params) n \<noteq> None"
    and "topologyPick reqs (isCandidate nodes (parsePool params) []) [] = (node, True)" and "node \<noteq> ''''"
  shows "\<exists>cap. GetCapacity c (Inr nodes) (Inr stats) (Inr vols) params (Some [(TopologyKey, node)]) = Inr cap \<and>
    (want \<le> cap \<longleftrightarrow>
      (\<exists>ns. placeNodes c nodes (Inr stats) (provisionedPerPool vols name) reqs (nat reps) want remoteAccess
         (parsePool params) [] = Inr ns))"
proof -
  have cand: "isCandidate nodes (parsePool params) [] node"
    using pick_term_sound [OF assms(9) [unfolded topologyPick_def] assms(10)] by blast
  have r: "0 < nat reps" using parseReplicas_range [OF assms(4)] by simp
  have u: "\<not> requisite_unmet reqs True remoteAccess" by (simp add: requisite_unmet_def)
  have "GetCapacity c (Inr nodes) (Inr stats) (Inr vols) params (Some [(TopologyKey, node)]) =
      Inr (capacityFor c nodes stats (provisionedPerPool vols name) (parsePool params) (nat reps) node)"
    using assms(4,5) cand provisionedPerPool_fresh [OF assms(7,6)]
    by (auto simp: GetCapacity_def Let_def str_at_def isCandidate_iff)
  then show ?thesis using capacity_matches_nodes [OF assms(1,2,3) r assms(8,9) u] by simp
qed

definition example_class :: "string gomap" where
  "example_class = [(ParamReplicas, ''2''), (ParamAllowRemoteAccess, ''false'')]"

theorem GetCapacity_matches_place_witness:
  "GetCapacity example_controller (Inr example_nodes) (Inr example_stats) (Inr []) example_class
       (Some [(TopologyKey, ''a'')]) = Inr 2000 \<and>
   (\<exists>ns. placeNodes example_controller example_nodes (Inr example_stats) (provisionedPerPool [] ''pvc-9'')
       example_topology_req 2 2000 False (parsePool example_class) [] = Inr ns) \<and>
   \<not> (\<exists>ns. placeNodes example_controller example_nodes (Inr example_stats) (provisionedPerPool [] ''pvc-9'')
       example_topology_req 2 2001 False (parsePool example_class) [] = Inr ns)"
proof -
  have cap: "GetCapacity example_controller (Inr example_nodes) (Inr example_stats) (Inr []) example_class
       (Some [(TopologyKey, ''a'')]) = Inr 2000" by code_simp
  have pr: "parseReplicas example_class = Inr 2" "parseAllowRemoteAccess example_class 2 = Inr False" by code_simp+
  have g: "gomap_ok example_nodes" "'''' \<notin> fst ` set example_nodes" by code_simp+
  have pick: "topologyPick example_topology_req (isCandidate example_nodes (parsePool example_class) []) [] = (''a'', True)"
    by code_simp
  have "list_all (\<lambda>n. headroomAt example_controller example_stats (provisionedPerPool [] ''pvc-9'')
      (parsePool example_class) n \<noteq> None) (map fst example_nodes)" by code_simp
  then have known: "headroomAt example_controller example_stats (provisionedPerPool [] ''pvc-9'')
      (parsePool example_class) n \<noteq> None" if "isCandidate example_nodes (parsePool example_class) [] n" for n
    using that unfolding isCandidate_def list_all_iff by auto
  have "(want \<le> 2000) = (\<exists>ns. placeNodes example_controller example_nodes (Inr example_stats)
      (provisionedPerPool [] ''pvc-9'') example_topology_req 2 want False (parsePool example_class) [] = Inr ns)"
    if "0 < want" for want
    using GetCapacity_matches_place [OF g that pr _ _ known pick] cap by simp
  from cap this [of 2000] this [of 2001] show ?thesis by simp
qed

section \<open>The guardrails in numbers\<close>

lemma round53_exact: "n < 2 ^ 53 \<Longrightarrow> round53 n = (n, 0)"
  by (simp add: round53_def excess53.simps [of n] Let_def)

lemma float_product_exact:
  assumes "n < 2 ^ 53" and "n * m < 2 ^ 53" and "0 \<le> n * m"
  shows "int64_of_float (float_mul (float_of_int n) (Float m 0)) = n * m"
  using assms round53_exact [OF assms(1)] round53_exact [OF assms(2)] by (simp add: float_of_int_def)

definition default_ratios :: "Controller \<Rightarrow> bool" where
  "default_ratios c \<longleftrightarrow> float_le_zero (OvercommitRatio c) \<and> float_le_zero (FreeSpaceRatio c)"

lemma poolHeadroom_default:
  assumes "default_ratios c" and "0 < ps_capacityBytes st" and "ps_capacityBytes st < 2 ^ 48"
    and "0 \<le> ps_allocatedBytes st" and "ps_allocatedBytes st < 2 ^ 63" and "0 \<le> prov" and "prov < 2 ^ 62"
  shows "poolHeadroom c (Some st) prov = Some (max 0 (min (2 * ps_capacityBytes st - prov)
    (20 * max 0 (ps_capacityBytes st - ps_allocatedBytes st))))"
proof -
  let ?cap = "ps_capacityBytes st" and ?free = "max 0 (ps_capacityBytes st - ps_allocatedBytes st)"
  have r: "ratios c = (Float 2 0, Float 20 0)"
    using assms(1) by (simp add: default_ratios_def ratios_def defaultOvercommitRatio_def defaultFreeSpaceRatio_def)
  have f: "0 \<le> ?free" "?free < 2 ^ 48" using assms(3,4) by auto
  have "int64_of_float (float_mul (float_of_int ?cap) (Float 2 0)) = ?cap * 2"
    by (rule float_product_exact) (use assms(2,3) in simp_all)
  moreover have "int64_of_float (float_mul (float_of_int ?free) (Float 20 0)) = ?free * 20"
    by (rule float_product_exact) (use f assms(3,4) in \<open>auto simp: max_def\<close>)
  moreover have "int64 (?cap - ps_allocatedBytes st) = ?cap - ps_allocatedBytes st"
    by (rule int64_id) (use assms(2-5) in simp_all)
  moreover have "int64 (?cap * 2 - prov) = ?cap * 2 - prov"
    by (rule int64_id) (use assms(2,3,6,7) in simp_all)
  ultimately show ?thesis using assms(2) by (simp add: poolHeadroom_def r mult.commute)
qed

text \<open>The bytes that the diskful legs of the other volumes take from a pool, on the integers.\<close>

definition leg_bytes :: "string \<Rightarrow> string \<Rightarrow> int \<Rightarrow> Replica list \<Rightarrow> int" where
  "leg_bytes node pool b rs =
     b * int (length (filter (\<lambda>r. \<not> r_diskless r \<and> r_node r = node \<and> PoolOrDefault (r_pool r) = pool) rs))"

definition pool_bytes :: "MiroirVolume list \<Rightarrow> string \<Rightarrow> string \<Rightarrow> string \<Rightarrow> int" where
  "pool_bytes vols exclude node pool =
     sum_list (map (\<lambda>v. leg_bytes node pool (sizeBytes (spec v)) (replicas (spec v)))
       (filter (\<lambda>v. vname v \<noteq> exclude) vols))"

lemma int64_add: "int64 (int64 a + b) = int64 (a + b)"
  unfolding int64_def by (metis signed_take_bit_add signed_take_bit_signed_take_bit min.idem)

lemma prov_at_add_leg:
  "prov_at (add_leg b out r) node pool =
     (if \<not> r_diskless r \<and> r_node r = node \<and> PoolOrDefault (r_pool r) = pool then int64 (prov_at out node pool + b)
      else prov_at out node pool)"
  by (auto simp: add_leg_def prov_at_def update_conv')

lemma prov_at_add_legs:
  assumes "prov_at out node pool = int64 a"
  shows "prov_at (foldl (add_leg b) out rs) node pool = int64 (a + leg_bytes node pool b rs)"
  using assms
proof (induction rs arbitrary: out a)
  case (Cons r rs)
  show ?case
  proof (cases "\<not> r_diskless r \<and> r_node r = node \<and> PoolOrDefault (r_pool r) = pool")
    case True
    then have "prov_at (add_leg b out r) node pool = int64 (a + b)"
      using Cons.prems by (simp add: prov_at_add_leg int64_add)
    from Cons.IH [OF this] True show ?thesis by (simp add: leg_bytes_def algebra_simps)
  next
    case False
    then have "prov_at (add_leg b out r) node pool = int64 a" using Cons.prems by (auto simp: prov_at_add_leg)
    from Cons.IH [OF this] False show ?thesis by (auto simp: leg_bytes_def)
  qed
qed (simp add: leg_bytes_def)

lemma provisioned_total:
  "prov_at (provisionedPerPool vols exclude) node pool = int64 (pool_bytes vols exclude node pool)"
proof (induction vols rule: rev_induct)
  case Nil
  have "int64 0 = 0" by (rule int64_id) simp_all
  then show ?case by (simp add: provisionedPerPool_def prov_at_def pool_bytes_def)
next
  case (snoc v vols)
  then show ?case
    using prov_at_add_legs [OF snoc, of "sizeBytes (spec v)" "replicas (spec v)"]
    by (simp add: provisionedPerPool_def pool_bytes_def)
qed

text \<open>
  C26. Overcommit guardrail in numbers: with the default ratios, a volume placed on a node with
  fresh statistics keeps the virtual bytes of all volumes on that pool, its own included, within
  twice the pool's capacity, and its size within twenty times the pool's free space. Pools below
  256 TiB and totals below \<open>2^62\<close> bytes keep the arithmetic exact.
\<close>

theorem place_within_guardrails:
  assumes "gomap_ok nodes" and "0 < cnt" and "default_ratios c" and "0 < want"
    and "place c nodes (Inr stats) getNode reqs cnt want name vols remoteAccess pool excluded = Inr rs"
    and "r \<in> set rs" and "stats_pool stats (r_node r) pool = Some st"
    and "0 < ps_capacityBytes st" and "ps_capacityBytes st < 2 ^ 48"
    and "0 \<le> ps_allocatedBytes st" and "ps_allocatedBytes st < 2 ^ 63"
    and "0 \<le> pool_bytes vols name (r_node r) pool" and "pool_bytes vols name (r_node r) pool < 2 ^ 62"
  shows "pool_bytes vols name (r_node r) pool + want \<le> 2 * ps_capacityBytes st \<and>
    want \<le> 20 * (ps_capacityBytes st - ps_allocatedBytes st)"
proof -
  have "\<not> overcommitted c stats (provisionedPerPool vols name) pool want (r_node r)"
    using place_sound [OF assms(1,2,5)] assms(6) by auto
  moreover have "prov_at (provisionedPerPool vols name) (r_node r) pool = pool_bytes vols name (r_node r) pool"
    unfolding provisioned_total by (rule int64_id) (use assms(12,13) in simp_all)
  ultimately show ?thesis
    using poolHeadroom_default [OF assms(3,8-13)] assms(4,7)
    by (auto simp: overcommitted_def headroomAt_def not_less max_def split: if_splits)
qed

theorem place_within_guardrails_witness:
  "\<exists>rs. place example_controller example_nodes (Inr example_stats) (\<lambda>_. Inl NotFound) example_topology_req
       2 512 ''pvc-9'' [] False ''default'' [] = Inr rs \<and>
     (\<forall>r\<in>set rs. r_node r = ''b'' \<longrightarrow> pool_bytes [] ''pvc-9'' ''b'' ''default'' + 512 \<le> 2000)"
proof -
  let ?p = "place example_controller example_nodes (Inr example_stats) (\<lambda>_. Inl NotFound) example_topology_req
       2 512 ''pvc-9'' [] False ''default'' []"
  have "isl ?p = False" by code_simp
  then obtain rs where rs: "?p = Inr rs" by (cases ?p) auto
  have g: "gomap_ok example_nodes" "default_ratios example_controller" by code_simp+
  have st: "stats_pool example_stats ''b'' ''default'' =
      Some \<lparr>ps_name = ''default'', ps_capacityBytes = 1000, ps_allocatedBytes = 10\<rparr>" by code_simp
  have "pool_bytes [] ''pvc-9'' ''b'' ''default'' + 512 \<le> 2000" if "r \<in> set rs" "r_node r = ''b''" for r
    using place_within_guardrails [OF g(1) _ g(2) _ rs that(1)] st that(2) by (simp add: pool_bytes_def)
  then show ?thesis using rs by blast
qed

section \<open>Allocators\<close>

interpretation free_ids: number_allocator "map r_nodeID" 0 nextFreeNodeID
  by unfold_locales (auto simp: nextFreeNodeID_def lowest_free_ge lowest_free_notin simp del: set_map
      intro: lowest_free_least)

interpretation ports: number_allocator "\<lambda>(c, vols). usedPorts vols" base
  "\<lambda>(c, vols). lowest_free (usedPorts vols) base" for base
  by unfold_locales (auto simp: lowest_free_ge lowest_free_notin intro: lowest_free_least)

lemma length_EncodeToString: "length (EncodeToString raw) = 2 * length raw"
  by (induction raw) (simp_all add: EncodeToString_def)

text \<open>
  C34. Port allocation: the port is used by no volume of the listing and lies between the base and
  the base plus the number of volumes; with a base in range and room above it for all volumes, the
  DRBD section meets the schema of the custom resource, and its secret has 48 characters.
\<close>

theorem allocateDRBD_spec:
  assumes "length raw = 24"
  shows "\<exists>d. allocateDRBD c (Some raw) vols = Inr d \<and> d_port d \<notin> set (usedPorts vols) \<and>
    portBase c \<le> d_port d \<and> d_port d \<le> portBase c + int (length vols) \<and>
    (\<forall>v\<in>set vols. \<forall>d'. drbd (spec v) = Some d' \<longrightarrow> d_port d' \<noteq> d_port d) \<and>
    length (d_sharedSecret d) = 48 \<and>
    (1024 \<le> portBase c \<and> portBase c + int (length vols) \<le> 65535 \<longrightarrow> schema_drbd d)"
proof -
  let ?p = "lowest_free (usedPorts vols) (portBase c)"
  have l: "length (usedPorts vols) \<le> length vols"
    by (simp add: usedPorts_def List.map_filter_def)
  have u: "?p \<notin> set (usedPorts vols)" "portBase c \<le> ?p" "?p \<le> portBase c + int (length vols)"
    using ports.pick_unused [of "portBase c" "(c, vols)"] ports.pick_ge [of "portBase c" "(c, vols)"]
      ports.pick_bound [of "portBase c" "(c, vols)"] l by simp_all
  have "d_port d' \<in> set (usedPorts vols)" if "v \<in> set vols" "drbd (spec v) = Some d'" for v d'
    using that by (force simp: usedPorts_def List.map_filter_def)
  then have "\<forall>v\<in>set vols. \<forall>d'. drbd (spec v) = Some d' \<longrightarrow> d_port d' \<noteq> ?p" using u(1) by metis
  then show ?thesis
    using u assms by (auto simp: allocateDRBD_def length_EncodeToString schema_drbd_def)
qed

theorem allocateDRBD_spec_witness:
  "\<exists>d. allocateDRBD example_controller (Some (replicate 24 171)) [example_volume (example_spec [] []) []] = Inr d \<and>
     d_port d \<noteq> 7000 \<and> d_port d \<le> 7001"
  using allocateDRBD_spec [of "replicate 24 171" example_controller "[example_volume (example_spec [] []) []]"]
  by (auto simp: portBase_def example_controller_def defaultDRBDPortBase_def example_volume_def example_spec_def)

end
