(* ===== verification/Csi_Restore.thy ===== *)
theory Csi_Restore
  imports Csi_Placement
begin

text \<open>
  Restores in \<^verbatim>\<open>internal/csi/controller.go\<close>: resolving the snapshot a volume is created from
  (\<^verbatim>\<open>snapshotSource\<close>, \<^verbatim>\<open>resolveSource\<close>, \<^verbatim>\<open>restoreReplicas\<close>), adapting the source's layout
  to a class that asks for another number of diskful legs (\<^verbatim>\<open>reshapeRestore\<close>,
  \<^verbatim>\<open>keepRestoreLegs\<close>, \<^verbatim>\<open>shrinkPin\<close>), and the choice between fresh placement and restore
  (\<^verbatim>\<open>placeVolume\<close>). An index out of range is the answer \<^const>\<open>Panic\<close>; no reachable call has it.
\<close>

section \<open>The source of a restore\<close>

definition diskfulOf :: "Replica list \<Rightarrow> Replica list" where
  "diskfulOf reps = filter (\<lambda>r. \<not> r_diskless r) reps"

definition firstDiskful :: "Replica list \<Rightarrow> Replica option" where
  "firstDiskful reps = find (\<lambda>r. \<not> r_diskless r) reps"

text \<open>A loop that stops at the first error.\<close>

fun traverse :: "('a \<Rightarrow> 'b rpc) \<Rightarrow> 'a list \<Rightarrow> 'b list rpc" where
  "traverse f [] = Inr []"
| "traverse f (x # xs) =
     (case f x of
        Inl e \<Rightarrow> Inl e
      | Inr y \<Rightarrow> (case traverse f xs of Inl e \<Rightarrow> Inl e | Inr ys \<Rightarrow> Inr (y # ys)))"

definition replicationAddress :: "nodemap \<Rightarrow> (string \<Rightarrow> api_error + KNode) \<Rightarrow> string \<Rightarrow> string rpc" where
  "replicationAddress nodes getNode n =
     (case ReplicationAddress nodes getNode n of Inl e \<Rightarrow> Inl Internal | Inr addr \<Rightarrow> Inr addr)"

definition restoreLeg ::
    "nodemap \<Rightarrow> (string \<Rightarrow> api_error + KNode) \<Rightarrow> MiroirSnapshot \<Rightarrow> Replica \<Rightarrow> Replica rpc" where
  "restoreLeg nodes getNode snap r =
     (let isDone = (map_of (sn_perNode snap) (r_node r) = Some SnapshotDone);
          r = r\<lparr>r_fullSync := \<not> r_diskless r \<and> \<not> isDone\<rparr>
      in if r_address r = '''' then Inr r
         else case replicationAddress nodes getNode (r_node r) of
                Inl e \<Rightarrow> Inl e
              | Inr addr \<Rightarrow> Inr (r\<lparr>r_address := addr\<rparr>))"

definition restoreReplicas ::
    "nodemap rpc \<Rightarrow> (string \<Rightarrow> api_error + KNode) \<Rightarrow> MiroirVolume \<Rightarrow> MiroirSnapshot \<Rightarrow> Replica list rpc" where
  "restoreReplicas nodesRead getNode srcVol snap =
     (case nodesRead of
        Inl e \<Rightarrow> Inl e
      | Inr nodes \<Rightarrow>
     (case traverse (restoreLeg nodes getNode snap) (replicas (spec srcVol)) of
        Inl e \<Rightarrow> Inl e
      | Inr reps \<Rightarrow>
     (case firstDiskful reps of
        Some seed \<Rightarrow> if r_fullSync seed then Inl FailedPrecondition else Inr reps
      | None \<Rightarrow> Inr reps)))"

definition snapshotSource ::
    "(string \<Rightarrow> api_error + MiroirSnapshot) \<Rightarrow> (string \<Rightarrow> api_error + MiroirVolume) \<Rightarrow> string \<Rightarrow>
     (MiroirVolume \<times> MiroirSnapshot) rpc" where
  "snapshotSource getSnap getVol snapID =
     (case getSnap snapID of
        Inl e \<Rightarrow> Inl (if e = NotFound then NotFoundCode else Internal)
      | Inr snap \<Rightarrow>
          if \<not> sn_readyToUse snap then Inl FailedPrecondition
          else case getVol (sn_volumeName snap) of Inl e \<Rightarrow> Inl Internal | Inr vol \<Rightarrow> Inr (vol, snap))"

definition resolveSource ::
    "(string \<Rightarrow> api_error + MiroirSnapshot) \<Rightarrow> (string \<Rightarrow> api_error + MiroirVolume) \<Rightarrow> nodemap rpc \<Rightarrow>
     (string \<Rightarrow> api_error + KNode) \<Rightarrow> string \<Rightarrow> int \<Rightarrow> nat \<Rightarrow> string \<Rightarrow>
     (VolumeSource option \<times> Replica list \<times> bool) rpc" where
  "resolveSource getSnap getVol nodesRead getNode snapID want reps pool =
     (if snapID = '''' then Inr (None, [], False)
      else
     (case snapshotSource getSnap getVol snapID of
        Inl e \<Rightarrow> Inl e
      | Inr (srcVol, snap) \<Rightarrow>
          if want < sn_sizeBytes snap then Inl InvalidArgument
          else if list_ex (\<lambda>rep. PoolOrDefault (r_pool rep) \<noteq> pool) (DiskfulReplicas (spec srcVol))
          then Inl InvalidArgument
          else case restoreReplicas nodesRead getNode srcVol snap of
                 Inl e \<Rightarrow> Inl e
               | Inr srcReplicas \<Rightarrow>
                   Inr (Some \<lparr>src_snapshotName = snapID,
                          src_padForMetadata = (1 < reps \<and> (drbd (spec srcVol) = None \<or>
                            (case source (spec srcVol) of Some s \<Rightarrow> src_padForMetadata s | None \<Rightarrow> False)))\<rparr>,
                        srcReplicas, sn_sourceFormatted snap)))"

section \<open>Reshaping\<close>

text \<open>\<^verbatim>\<open>top.GetSegments()[TopologyKey]\<close>, the first that is not empty.\<close>

definition selectedTopologyNode :: "TopologyRequirement option \<Rightarrow> string" where
  "selectedTopologyNode reqs =
     (case find (\<lambda>n. n \<noteq> '''') (map (\<lambda>t. str_at t TopologyKey) (topology_terms reqs)) of
        Some n \<Rightarrow> n | None \<Rightarrow> '''')"

definition shrinkPin :: "TopologyRequirement option \<Rightarrow> Replica list \<Rightarrow> string \<Rightarrow> string rpc" where
  "shrinkPin reqs diskful selected =
     (if selected = '''' \<or> list_ex (\<lambda>rep. r_node rep = selected \<and> \<not> r_fullSync rep) diskful then Inr selected
      else
        (let requisite = filter (\<lambda>n. n \<noteq> '''')
               (map (\<lambda>t. str_at t TopologyKey) (case reqs of None \<Rightarrow> [] | Some t \<Rightarrow> tr_requisite t))
         in if requisite = [] then Inr ''''
            else case diskful of
              [] \<Rightarrow> Inl Panic
            | seed # _ \<Rightarrow>
                if r_node seed \<in> set requisite then Inr ''''
                else case find (\<lambda>rep. \<not> r_fullSync rep \<and> r_node rep \<in> set requisite) diskful of
                       Some rep \<Rightarrow> Inr (r_node rep)
                     | None \<Rightarrow> Inl ResourceExhausted))"

definition keep_pass :: "nat \<Rightarrow> string \<Rightarrow> bool \<Rightarrow> Replica list \<Rightarrow> Replica list \<Rightarrow> Replica list" where
  "keep_pass target pin fullSync =
     foldl (\<lambda>kept rep. if r_node rep \<noteq> pin \<and> r_fullSync rep = fullSync \<and> length kept < target
                       then kept @ [rep] else kept)"

definition keepRestoreLegs :: "Replica list \<Rightarrow> nat \<Rightarrow> string \<Rightarrow> Replica list rpc" where
  "keepRestoreLegs diskful target pin =
     (case diskful of
        [] \<Rightarrow> Inl Panic
      | seed # others \<Rightarrow>
          (let fill = (\<lambda>kept. Inr (keep_pass target pin True (keep_pass target pin False kept others) others))
           in if pin = '''' then fill [seed]
              else case find (\<lambda>rep. r_node rep = pin) diskful of
                     None \<Rightarrow> Inl Panic
                   | Some pinned \<Rightarrow>
                       if target = 1 then Inr [pinned]
                       else if pin \<noteq> r_node seed then fill [seed, pinned] else fill [seed]))"

definition preserved_leg :: "Replica \<Rightarrow> bool" where
  "preserved_leg r \<longleftrightarrow> r_address r \<noteq> '''' \<and> \<not> r_fullSync r"

fun renumber ::
    "nodemap \<Rightarrow> (string \<Rightarrow> api_error + KNode) \<Rightarrow> int list \<Rightarrow> Replica list \<Rightarrow> Replica list rpc" where
  "renumber nodes getNode used [] = Inr []"
| "renumber nodes getNode used (r # rs) =
     (let addressed =
            (if preserved_leg r then Inr (r, used)
             else
               (let i = lowest_free used 0; r = r\<lparr>r_nodeID := i\<rparr>
                in if r_address r \<noteq> '''' then Inr (r, i # used)
                   else case replicationAddress nodes getNode (r_node r) of
                          Inl e \<Rightarrow> Inl e
                        | Inr addr \<Rightarrow> Inr (r\<lparr>r_address := addr\<rparr>, i # used)))
      in case addressed of
           Inl e \<Rightarrow> Inl e
         | Inr (r, used) \<Rightarrow> (case renumber nodes getNode used rs of Inl e \<Rightarrow> Inl e | Inr rs \<Rightarrow> Inr (r # rs)))"

text \<open>The layout before the ids: fewer legs, or joiners that sync in full.\<close>

definition reshapeLegs ::
    "Controller \<Rightarrow> nodemap \<Rightarrow> node_stats rpc \<Rightarrow> (string \<Rightarrow> api_error + KNode) \<Rightarrow> TopologyRequirement option \<Rightarrow>
     Replica list \<Rightarrow> nat \<Rightarrow> int \<Rightarrow> string \<Rightarrow> MiroirVolume list \<Rightarrow> bool \<Rightarrow> string \<Rightarrow> Replica list rpc" where
  "reshapeLegs c nodes statsRead getNode reqs base target want name vols remoteAccess pool =
     (let diskful = diskfulOf base
      in if target < length diskful then
           (case (if remoteAccess then Inr '''' else shrinkPin reqs diskful (selectedTopologyNode reqs)) of
              Inl e \<Rightarrow> Inl e
            | Inr pin \<Rightarrow> keepRestoreLegs diskful target pin)
         else if length diskful < target then
           (case place c nodes statsRead getNode reqs (target - length diskful) want name vols remoteAccess pool
                   (map r_node diskful) of
              Inl e \<Rightarrow> Inl e
            | Inr extra \<Rightarrow> Inr (diskful @ map (\<lambda>r. r\<lparr>r_fullSync := True\<rparr>) extra))
         else Inr diskful)"

definition reshapeRestore ::
    "Controller \<Rightarrow> nodemap \<Rightarrow> node_stats rpc \<Rightarrow> (string \<Rightarrow> api_error + KNode) \<Rightarrow> TopologyRequirement option \<Rightarrow>
     Replica list \<Rightarrow> nat \<Rightarrow> int \<Rightarrow> string \<Rightarrow> MiroirVolume list \<Rightarrow> bool \<Rightarrow> string \<Rightarrow> QuorumPolicy \<Rightarrow> Replica list rpc" where
  "reshapeRestore c nodes statsRead getNode reqs base target want name vols remoteAccess pool quorum =
     (case reshapeLegs c nodes statsRead getNode reqs base target want name vols remoteAccess pool of
        Inl e \<Rightarrow> Inl e
      | Inr diskful \<Rightarrow>
          if target = 1 then
            (case diskful of
               [] \<Rightarrow> Inl Panic
             | r # _ \<Rightarrow> Inr [r\<lparr>r_nodeID := 0, r_address := '''', r_fullSync := False\<rparr>])
          else
            (case renumber nodes getNode (map r_nodeID (filter preserved_leg diskful)) diskful of
               Inl e \<Rightarrow> Inl e
             | Inr diskful \<Rightarrow> withTieBreaker c nodes getNode diskful target quorum))"

definition placeVolume ::
    "Controller \<Rightarrow> nodemap rpc \<Rightarrow> node_stats rpc \<Rightarrow> (string \<Rightarrow> api_error + KNode) \<Rightarrow> TopologyRequirement option \<Rightarrow>
     string \<Rightarrow> Replica list \<Rightarrow> nat \<Rightarrow> int \<Rightarrow> string \<Rightarrow> MiroirVolume list \<Rightarrow> bool \<Rightarrow> string \<Rightarrow> QuorumPolicy \<Rightarrow>
     Replica list rpc" where
  "placeVolume c nodesRead statsRead getNode reqs snapID srcReplicas target want name vols remoteAccess pool quorum =
     (if snapID \<noteq> '''' \<and> length (diskfulOf srcReplicas) = target then Inr srcReplicas
      else
     (case nodesRead of
        Inl e \<Rightarrow> Inl e
      | Inr nodes \<Rightarrow>
          if snapID \<noteq> '''' then
            reshapeRestore c nodes statsRead getNode reqs srcReplicas target want name vols remoteAccess pool quorum
          else
            (case place c nodes statsRead getNode reqs target want name vols remoteAccess pool [] of
               Inl e \<Rightarrow> Inl e
             | Inr p \<Rightarrow> withTieBreaker c nodes getNode p target quorum)))"

section \<open>Layouts\<close>

text \<open>
  What the controller promises about the replicas it writes: distinct named nodes, a diskful leg
  first, every diskful leg in the class's pool, at most three legs, and DRBD node ids that no two
  addressed legs share. A layout with one diskful leg has no other leg.
\<close>

definition leg_ids :: "Replica list \<Rightarrow> int list" where
  "leg_ids rs = map r_nodeID (filter (\<lambda>r. r_address r \<noteq> '''') rs)"

definition volume_layout :: "Replica list \<Rightarrow> nat \<Rightarrow> string \<Rightarrow> bool" where
  "volume_layout rs target pool \<longleftrightarrow>
     length (diskfulOf rs) = target \<and> 0 < target \<and> length rs \<le> 3 \<and> (target = 1 \<longrightarrow> length rs = 1) \<and>
     \<not> r_diskless (hd rs) \<and> distinct (map r_node rs) \<and> '''' \<notin> r_node ` set rs \<and>
     (\<forall>r\<in>set rs. \<not> r_diskless r \<longrightarrow> PoolOrDefault (r_pool r) = pool) \<and>
     distinct (leg_ids rs) \<and> (\<forall>i\<in>set (leg_ids rs). 0 \<le> i \<and> i < 16)"

lemma set_leg_ids: "set (leg_ids rs) \<subseteq> r_nodeID ` set rs"
  by (auto simp: leg_ids_def)

lemma distinct_leg_ids: "distinct (map r_nodeID rs) \<Longrightarrow> distinct (leg_ids rs)"
  by (simp add: leg_ids_def distinct_map) (auto simp: inj_on_def)

lemma diskfulOf_all [simp]: "\<forall>r\<in>set rs. \<not> r_diskless r \<Longrightarrow> diskfulOf rs = rs"
  by (simp add: diskfulOf_def filter_True)

text \<open>A list of diskful legs with fresh ids is a layout.\<close>

lemma diskful_layout:
  assumes "length rs = target" and "0 < target" and "target \<le> 3" and "distinct (map r_node rs)"
    and "'''' \<notin> r_node ` set rs"
    and "\<forall>r\<in>set rs. \<not> r_diskless r \<and> PoolOrDefault (r_pool r) = pool \<and> 0 \<le> r_nodeID r \<and> r_nodeID r < 16"
    and "distinct (map r_nodeID rs)"
  shows "volume_layout rs target pool"
proof -
  have "rs \<noteq> []" using assms(1,2) by auto
  then have "hd rs \<in> set rs" by simp
  moreover have "diskfulOf rs = rs" using assms(6) by simp
  ultimately show ?thesis
    using assms distinct_leg_ids [OF assms(7)] set_leg_ids [of rs] by (auto simp: volume_layout_def)
qed

section \<open>Fresh placement\<close>

lemma placed_pool: "placed_entry nodes getNode (PoolOrDefault p) b i r \<Longrightarrow> PoolOrDefault (r_pool r) = PoolOrDefault p"
  by (auto simp: placed_entry_def PoolOrDefault_def DefaultPoolName_def)

lemma place_layout:
  assumes "gomap_ok nodes" and "'''' \<notin> fst ` set nodes" and "0 < cnt" and "cnt \<le> 3"
    and "place c nodes statsRead getNode reqs cnt want name vols remoteAccess (PoolOrDefault p) excluded = Inr rs"
  shows "volume_layout rs cnt (PoolOrDefault p) \<and> set (map r_node rs) \<inter> set excluded = {} \<and>
    (\<forall>r\<in>set rs. r_node r \<in> fst ` set nodes \<and> \<not> r_diskless r \<and> \<not> r_fullSync r) \<and>
    map r_nodeID rs = (if 1 < cnt then map int [0..<cnt] else [0])"
proof -
  from place_sound [OF assms(1,3,5)] have l: "length rs = cnt" "distinct (map r_node rs)"
    and cand: "\<forall>r\<in>set rs. isCandidate nodes (PoolOrDefault p) excluded (r_node r)"
    and e: "\<forall>k<cnt. placed_entry nodes getNode (PoolOrDefault p) (1 < cnt) (int k) (rs ! k)" by auto
  have ids: "r_nodeID (rs ! k) = (if 1 < cnt then int k else 0)" if "k < cnt" for k
    using e that by (auto simp: placed_entry_def split: if_splits)
  have map_ids: "map r_nodeID rs = (if 1 < cnt then map int [0..<cnt] else [0])"
    by (rule nth_equalityI) (use l(1) ids assms(3) in \<open>auto simp: nth_Cons'\<close>)
  have all: "\<exists>k<cnt. r = rs ! k" if "r \<in> set rs" for r
    using that l(1) by (metis in_set_conv_nth)
  have f: "\<not> r_diskless r \<and> \<not> r_fullSync r \<and> PoolOrDefault (r_pool r) = PoolOrDefault p \<and> 0 \<le> r_nodeID r \<and> r_nodeID r < 16"
    if r: "r \<in> set rs" for r
  proof -
    obtain k where k: "k < cnt" "r = rs ! k" using all [OF r] by blast
    then have "placed_entry nodes getNode (PoolOrDefault p) (1 < cnt) (int k) r" using e by simp
    then show ?thesis using placed_pool ids [OF k(1)] k assms(4) by (auto simp: placed_entry_def)
  qed
  have key: "r_node r \<in> fst ` set nodes \<and> r_node r \<notin> set excluded" if "r \<in> set rs" for r
    using cand that by (simp add: isCandidate_def)
  then have n: "'''' \<notin> r_node ` set rs" "set (map r_node rs) \<inter> set excluded = {}"
    using assms(2) by (metis imageE, auto)
  have "distinct (map r_nodeID rs)" unfolding map_ids by (simp add: distinct_map)
  then have "volume_layout rs cnt (PoolOrDefault p)"
    using diskful_layout [OF l(1) assms(3,4) l(2) n(1)] f by blast
  then show ?thesis using n(2) f cand map_ids by (auto simp: isCandidate_def)
qed

lemma TieBreakerNode_new:
  assumes "'''' \<notin> fst ` set nodes" and "TieBreakerNode nodes rs \<noteq> ''''"
  shows "TieBreakerNode nodes rs \<notin> r_node ` set rs"
  using tie_breaker_spare [of nodes rs] assms by auto

lemma withTieBreaker_layout:
  assumes "volume_layout rs target pool" and "'''' \<notin> fst ` set nodes" and "\<forall>r\<in>set rs. \<not> r_diskless r"
    and "withTieBreaker c nodes getNode rs target quorum = Inr rs'"
  shows "volume_layout rs' target pool"
proof (cases "rs' = rs")
  case False
  let ?tb = "TieBreakerNode nodes rs"
  from assms(4) False obtain addr where tb: "?tb \<noteq> ''''" "target = 2"
    and rs': "rs' = rs @ [(bare_replica ?tb)\<lparr>r_nodeID := nextFreeNodeID rs, r_address := addr, r_diskless := True\<rparr>]"
    by (auto simp: withTieBreaker_def Let_def split: if_splits sum.splits)
  have len: "length rs = 2" using assms(1,3) tb(2) by (simp add: volume_layout_def)
  then have hd: "hd rs' = hd rs" unfolding rs' by (cases rs) auto
  have id: "nextFreeNodeID rs \<notin> r_nodeID ` set rs" "0 \<le> nextFreeNodeID rs" "nextFreeNodeID rs \<le> 2"
    using free_ids.pick_unused [of rs] free_ids.pick_ge [of rs] free_ids.pick_bound [of rs] len by simp_all
  have "distinct (leg_ids rs') \<and> (\<forall>i\<in>set (leg_ids rs'). 0 \<le> i \<and> i < 16)"
    using assms(1) id set_leg_ids [of rs] unfolding rs' volume_layout_def
    by (auto simp: leg_ids_def)
  moreover have "diskfulOf rs' = rs" using assms(3) unfolding rs' by (simp add: diskfulOf_def filter_True)
  ultimately show ?thesis
    using assms(1,3) TieBreakerNode_new [OF assms(2) tb(1)] tb len hd
    unfolding volume_layout_def rs' by (auto simp: bare_replica_def)
qed (use assms(1) in simp)
lemma remove_one_node:
  "distinct (map r_node xs) \<Longrightarrow> x \<in> set xs \<Longrightarrow>
   Suc (length (filter (\<lambda>r. r_node r \<noteq> r_node x) xs)) = length xs"
proof (induction xs)
  case (Cons a xs)
  show ?case
  proof (cases "a = x")
    case True
    then have "filter (\<lambda>r. r_node r \<noteq> r_node x) xs = xs" using Cons.prems(1) by (intro filter_other) auto
    then show ?thesis using True by simp
  next
    case False
    then have "x \<in> set xs" using Cons.prems(2) by auto
    moreover from this have "r_node a \<noteq> r_node x" using Cons.prems(1) by auto
    ultimately show ?thesis using Cons by simp
  qed
qed simp

lemma distinct_takes: "distinct (xs @ ys @ zs) \<Longrightarrow> distinct (xs @ take m ys @ take n zs)"
  by (auto dest: in_set_takeD)

lemma mset_split:
  "mset (filter (\<lambda>x. P x \<and> Q x = False) xs) + mset (filter (\<lambda>x. P x \<and> Q x = True) xs) = mset (filter P xs)"
  by (induction xs) simp_all

section \<open>Reshaped restores\<close>

lemma keep_pass_eq:
  "length kept \<le> target \<Longrightarrow>
   keep_pass target pin fs kept xs =
     kept @ take (target - length kept) (filter (\<lambda>r. r_node r \<noteq> pin \<and> r_fullSync r = fs) xs)"
proof (induction xs arbitrary: kept)
  case (Cons x xs)
  show ?case
  proof (cases "r_node x \<noteq> pin \<and> r_fullSync x = fs \<and> length kept < target")
    case True
    then have "target - length kept = Suc (target - length (kept @ [x]))" by auto
    then show ?thesis using True Cons.IH [of "kept @ [x]"] by (simp add: keep_pass_def)
  next
    case False
    then show ?thesis using Cons by (auto simp: keep_pass_def)
  qed
qed (simp add: keep_pass_def)

lemma keep_fill:
  fixes kept others :: "Replica list"
  assumes "length kept \<le> target" and "kept \<noteq> []" and "distinct (map r_node (kept @ filter (\<lambda>r. r_node r \<noteq> pin) others))"
    and "target \<le> length kept + length (filter (\<lambda>r. r_node r \<noteq> pin) others)"
  shows "length (keep_pass target pin True (keep_pass target pin False kept others) others) = target \<and>
    distinct (map r_node (keep_pass target pin True (keep_pass target pin False kept others) others)) \<and>
    set (keep_pass target pin True (keep_pass target pin False kept others) others) \<subseteq> set kept \<union> set others"
proof -
  let ?f = "\<lambda>b. filter (\<lambda>r. r_node r \<noteq> pin \<and> r_fullSync r = b) others"
  let ?k1 = "kept @ take (target - length kept) (?f False)"
  have k1: "keep_pass target pin False kept others = ?k1" by (rule keep_pass_eq [OF assms(1)])
  have l1: "length ?k1 \<le> target" using assms(1) by simp
  have r: "keep_pass target pin True (keep_pass target pin False kept others) others =
      ?k1 @ take (target - length ?k1) (?f True)" unfolding k1 by (rule keep_pass_eq [OF l1])
  have part: "mset (?f False) + mset (?f True) = mset (filter (\<lambda>r. r_node r \<noteq> pin) others)"
    by (rule mset_split)
  from arg_cong [OF this, of size]
  have len: "length (?f False) + length (?f True) = length (filter (\<lambda>r. r_node r \<noteq> pin) others)"
    by (simp only: size_union size_mset)
  have "length (?k1 @ take (target - length ?k1) (?f True)) = target"
    using assms(1,4) len by (auto simp: min_def)
  moreover have "distinct (map r_node (?k1 @ take (target - length ?k1) (?f True)))"
  proof -
    have "mset (map r_node (kept @ ?f False @ ?f True)) = mset (map r_node (kept @ filter (\<lambda>r. r_node r \<noteq> pin) others))"
      using arg_cong [OF part, of "image_mset r_node"]
      by (simp only: map_append mset_append mset_map image_mset_union)
    then have "distinct (map r_node (kept @ ?f False @ ?f True))"
      using assms(3) mset_eq_imp_distinct_iff by blast
    then show ?thesis
      unfolding map_append take_map [symmetric] append_assoc by (rule distinct_takes)
  qed
  moreover have "set (?k1 @ take (target - length ?k1) (?f True)) \<subseteq> set kept \<union> set others"
    by (auto dest: in_set_takeD)
  ultimately show ?thesis unfolding r by blast
qed

lemma keepRestoreLegs_spec:
  assumes "keepRestoreLegs diskful target pin = Inr kept" and "distinct (map r_node diskful)"
    and "'''' \<notin> r_node ` set diskful" and "0 < target" and "target < length diskful"
  shows "length kept = target \<and> distinct (map r_node kept) \<and> set kept \<subseteq> set diskful"
proof -
  obtain seed others where d: "diskful = seed # others" using assms(5) by (cases diskful) auto
  show ?thesis
  proof (cases "pin = ''''")
    case True
    have f: "filter (\<lambda>r. r_node r \<noteq> pin) others = others" using assms(3) d True by (intro filter_other) auto
    have k: "kept = keep_pass target pin True (keep_pass target pin False [seed] others) others"
      using assms(1) True by (simp add: keepRestoreLegs_def d)
    have "distinct (map r_node ([seed] @ others))" "target \<le> length [seed] + length others" "length [seed] \<le> target"
      using assms(2,4,5) d by simp_all
    from keep_fill [of "[seed]" target pin others, unfolded f, OF this(3) _ this(1,2)]
    show ?thesis unfolding k d by simp
  next
    case False
    then obtain pinned where p: "find (\<lambda>rep. r_node rep = pin) diskful = Some pinned"
      using assms(1) by (auto simp: keepRestoreLegs_def d Let_def split: option.splits if_splits)
    have pin: "pinned \<in> set diskful" "r_node pinned = pin" using find_SomeD [OF p] by auto
    consider "target = 1" | "target \<noteq> 1" "pin = r_node seed" | "target \<noteq> 1" "pin \<noteq> r_node seed" by blast
    then show ?thesis
    proof cases
      case 1
      then have "kept = [pinned]" using assms(1) False p by (simp add: keepRestoreLegs_def d Let_def)
      then show ?thesis using 1 pin(1) by simp
    next
      case 2
      have f: "filter (\<lambda>r. r_node r \<noteq> pin) others = others"
        using assms(2) d 2(2) by (intro filter_other) auto
      have k: "kept = keep_pass target pin True (keep_pass target pin False [seed] others) others"
        using assms(1) False p 2 by (simp add: keepRestoreLegs_def d Let_def)
      have "distinct (map r_node ([seed] @ others))" "target \<le> length [seed] + length others" "length [seed] \<le> target"
        using assms(2,4,5) d by simp_all
      from keep_fill [of "[seed]" target pin others, unfolded f, OF this(3) _ this(1,2)]
      show ?thesis unfolding k d by simp
    next
      case 3
      have po: "pinned \<in> set others" using pin 3(2) d by auto
      have "distinct (map r_node others)" using assms(2) d by simp
      then have l: "Suc (length (filter (\<lambda>r. r_node r \<noteq> pin) others)) = length others"
        using remove_one_node [OF _ po] pin(2) by simp
      have k: "kept = keep_pass target pin True (keep_pass target pin False [seed, pinned] others) others"
        using assms(1) False p 3 by (simp add: keepRestoreLegs_def d Let_def)
      have "distinct (map r_node ([seed, pinned] @ filter (\<lambda>r. r_node r \<noteq> pin) others))"
        using assms(2) d 3(2) pin(2) by (auto simp: distinct_map_filter)
      moreover have "target \<le> length [seed, pinned] + length (filter (\<lambda>r. r_node r \<noteq> pin) others)"
        "length [seed, pinned] \<le> target" using assms(4,5) 3(1) l d by simp_all
      ultimately have "length kept = target \<and> distinct (map r_node kept) \<and> set kept \<subseteq> set [seed, pinned] \<union> set others"
        unfolding k by (intro keep_fill) simp_all
      then show ?thesis using po d by auto
    qed
  qed
qed

text \<open>What renumbering leaves alone.\<close>

definition same_leg :: "Replica \<Rightarrow> Replica \<Rightarrow> bool" where
  "same_leg r r' \<longleftrightarrow> r_node r' = r_node r \<and> r_pool r' = r_pool r \<and> r_diskless r' = r_diskless r \<and>
     r_backend r' = r_backend r \<and> r_fullSync r' = r_fullSync r"

lemma renumber_step:
  assumes "renumber nodes getNode used (r # rs) = Inr out"
  obtains r' out' where "out = r' # out'" and "same_leg r r'"
    and "if preserved_leg r then r' = r \<and> renumber nodes getNode used rs = Inr out'
         else r_nodeID r' = lowest_free used 0 \<and> renumber nodes getNode (lowest_free used 0 # used) rs = Inr out'"
  using assms
  by (cases "preserved_leg r") (auto simp: same_leg_def Let_def split: sum.splits if_splits)

lemma renumber_spec:
  assumes "renumber nodes getNode used rs = Inr out"
    and "distinct (map r_nodeID (filter preserved_leg rs))" and "r_nodeID ` set (filter preserved_leg rs) \<subseteq> set used"
  shows "list_all2 same_leg rs out \<and> distinct (map r_nodeID out) \<and>
    r_nodeID ` set out \<inter> (set used - r_nodeID ` set (filter preserved_leg rs)) = {} \<and>
    (\<forall>i\<in>r_nodeID ` set out. i \<in> r_nodeID ` set (filter preserved_leg rs) \<or>
       0 \<le> i \<and> i \<le> int (length used + length rs))"
  using assms
proof (induction rs arbitrary: used out)
  case (Cons r rs)
  obtain r' out' where o: "out = r' # out'" and same: "same_leg r r'"
    and rest: "if preserved_leg r then r' = r \<and> renumber nodes getNode used rs = Inr out'
         else r_nodeID r' = lowest_free used 0 \<and> renumber nodes getNode (lowest_free used 0 # used) rs = Inr out'"
    by (rule renumber_step [OF Cons.prems(1)])
  let ?P = "r_nodeID ` set (filter preserved_leg rs)"
  show ?case
  proof (cases "preserved_leg r")
    case True
    have p: "distinct (map r_nodeID (filter preserved_leg rs))" "?P \<subseteq> set used" "r_nodeID r \<notin> ?P" "r_nodeID r \<in> set used"
      using Cons.prems(2,3) True by auto
    have "r' = r" "renumber nodes getNode used rs = Inr out'" using rest True by simp_all
    with Cons.IH [OF this(2) p(1,2)] p(3,4) same show ?thesis unfolding o using True by auto
  next
    case False
    have p: "distinct (map r_nodeID (filter preserved_leg rs))" "?P \<subseteq> set (lowest_free used 0 # used)"
      using Cons.prems(2,3) False by auto
    have i: "r_nodeID r' = lowest_free used 0" "renumber nodes getNode (lowest_free used 0 # used) rs = Inr out'"
      using rest False by simp_all
    have f: "lowest_free used 0 \<notin> set used" "0 \<le> lowest_free used 0" "lowest_free used 0 \<le> int (length used)"
      using lowest.pick_unused [of used 0] lowest.pick_ge [of 0 used] lowest.pick_bound [of used 0] by simp_all
    then have "lowest_free used 0 \<notin> ?P" using Cons.prems(3) False by auto
    with Cons.IH [OF i(2) p] f i(1) same show ?thesis unfolding o using False by auto
  qed
qed simp

lemma preserved_ids:
  assumes "volume_layout base k pool" and "distinct (map r_node legs)"
    and "\<forall>r\<in>set legs. r \<in> set base \<or> r_fullSync r"
  shows "distinct (map r_nodeID (filter preserved_leg legs)) \<and>
    (\<forall>i\<in>r_nodeID ` set (filter preserved_leg legs). 0 \<le> i \<and> i < 16)"
proof -
  have "distinct (leg_ids base)" and b: "\<forall>i\<in>set (leg_ids base). 0 \<le> i \<and> i < 16"
    using assms(1) by (simp_all add: volume_layout_def)
  then have inj: "inj_on r_nodeID (set (filter (\<lambda>r. r_address r \<noteq> '''') base))"
    by (simp add: leg_ids_def distinct_map)
  have sub: "set (filter preserved_leg legs) \<subseteq> set (filter (\<lambda>r. r_address r \<noteq> '''') base)"
    using assms(3) by (auto simp: preserved_leg_def)
  moreover have "distinct legs" using assms(2) by (simp add: distinct_map)
  ultimately have "distinct (map r_nodeID (filter preserved_leg legs))"
    using inj_on_subset [OF inj] by (simp add: distinct_map)
  moreover have "r_nodeID ` set (filter preserved_leg legs) \<subseteq> set (leg_ids base)"
    unfolding leg_ids_def set_map using sub by (rule image_mono)
  ultimately show ?thesis using b by blast
qed

text \<open>The legs a reshape settles on, before ids and addresses.\<close>

lemma reshapeLegs_spec:
  assumes "reshapeLegs c nodes statsRead getNode reqs base target want name vols remoteAccess (PoolOrDefault p) = Inr legs"
    and lay: "volume_layout base k (PoolOrDefault p)" and nodes: "gomap_ok nodes" "'''' \<notin> fst ` set nodes"
    and t: "0 < target" "target \<le> 3" "target \<noteq> length (diskfulOf base)"
  shows "length legs = target \<and> distinct (map r_node legs) \<and> '''' \<notin> r_node ` set legs \<and>
    (\<forall>r\<in>set legs. \<not> r_diskless r \<and> PoolOrDefault (r_pool r) = PoolOrDefault p \<and> (r \<in> set base \<or> r_fullSync r))"
proof -
  let ?d = "diskfulOf base"
  have d: "distinct (map r_node ?d)" "'''' \<notin> r_node ` set ?d" "set ?d \<subseteq> set base"
      "\<forall>r\<in>set ?d. \<not> r_diskless r \<and> PoolOrDefault (r_pool r) = PoolOrDefault p"
    using lay by (auto simp: volume_layout_def diskfulOf_def distinct_map_filter)
  show ?thesis
  proof (cases "target < length ?d")
    case True
    then obtain pin where "keepRestoreLegs ?d target pin = Inr legs"
      using assms(1) by (auto simp: reshapeLegs_def Let_def split: sum.splits)
    from keepRestoreLegs_spec [OF this d(1,2) t(1) True] show ?thesis using d(2,3,4) by blast
  next
    case False
    then have less: "length ?d < target" using t(3) by simp
    then obtain extra where
      e: "place c nodes statsRead getNode reqs (target - length ?d) want name vols remoteAccess (PoolOrDefault p)
            (map r_node ?d) = Inr extra"
      and legs: "legs = ?d @ map (\<lambda>r. r\<lparr>r_fullSync := True\<rparr>) extra"
      using assms(1) False by (auto simp: reshapeLegs_def Let_def split: sum.splits)
    have n: "0 < target - length ?d" "target - length ?d \<le> 3" using less t(2) by simp_all
    note pl = place_layout [OF nodes n e]
    have "map r_node (map (\<lambda>r. r\<lparr>r_fullSync := True\<rparr>) extra) = map r_node extra" by simp
    moreover have "length extra = target - length ?d" "distinct (map r_node extra)" "'''' \<notin> r_node ` set extra"
      using pl by (auto simp: volume_layout_def)
    moreover have "\<forall>r\<in>set extra. PoolOrDefault (r_pool r) = PoolOrDefault p \<and> \<not> r_diskless r"
      using pl by (auto simp: volume_layout_def)
    ultimately show ?thesis unfolding legs using d pl less by (auto simp: image_image comp_def)
  qed
qed

lemma reshapeRestore_layout:
  assumes "reshapeRestore c nodes statsRead getNode reqs base target want name vols remoteAccess (PoolOrDefault p) quorum = Inr rs"
    and lay: "volume_layout base k (PoolOrDefault p)" and nodes: "gomap_ok nodes" "'''' \<notin> fst ` set nodes"
    and t: "0 < target" "target \<le> 3" "target \<noteq> length (diskfulOf base)"
  shows "volume_layout rs target (PoolOrDefault p)"
proof -
  obtain legs where legs: "reshapeLegs c nodes statsRead getNode reqs base target want name vols remoteAccess (PoolOrDefault p) = Inr legs"
    using assms(1) by (auto simp: reshapeRestore_def split: sum.splits)
  note L = reshapeLegs_spec [OF legs lay nodes t]
  show ?thesis
  proof (cases "target = 1")
    case True
    then obtain r where r: "legs = [r]" using L by (cases legs) auto
    then have "rs = [r\<lparr>r_nodeID := 0, r_address := '''', r_fullSync := False\<rparr>]"
      using assms(1) legs True by (simp add: reshapeRestore_def)
    then show ?thesis using L r True by (simp add: volume_layout_def diskfulOf_def leg_ids_def)
  next
    case False
    let ?used = "map r_nodeID (filter preserved_leg legs)"
    obtain out where out: "renumber nodes getNode ?used legs = Inr out"
      and tb: "withTieBreaker c nodes getNode out target quorum = Inr rs"
      using assms(1) legs False by (auto simp: reshapeRestore_def split: sum.splits)
    have pres: "distinct ?used" "\<forall>i\<in>r_nodeID ` set (filter preserved_leg legs). 0 \<le> i \<and> i < 16"
      using preserved_ids [OF lay, of legs] L by blast+
    have "length ?used \<le> 3" using L t(2) length_filter_le [of preserved_leg legs] by simp
    with renumber_spec [OF out pres(1)] have R: "list_all2 same_leg legs out" "distinct (map r_nodeID out)"
      "\<forall>i\<in>r_nodeID ` set out. 0 \<le> i \<and> i < 16" using pres(2) L t(2) by force+
    have len: "length out = target" using R(1) L by (simp add: list_all2_lengthD)
    have same: "map r_node out = map r_node legs"
      by (rule nth_equalityI) (use R(1) in \<open>auto simp: list_all2_conv_all_nth same_leg_def\<close>)
    have fields: "\<exists>r0\<in>set legs. same_leg r0 r" if "r \<in> set out" for r
      using R(1) that by (metis in_set_conv_nth list_all2_conv_all_nth)
    have "\<forall>r\<in>set out. \<not> r_diskless r \<and> PoolOrDefault (r_pool r) = PoolOrDefault p \<and> 0 \<le> r_nodeID r \<and> r_nodeID r < 16"
      using fields L R(3) by (fastforce simp: same_leg_def)
    moreover have "'''' \<notin> r_node ` set out" using same L by (metis list.set_map)
    ultimately have "volume_layout out target (PoolOrDefault p)" and "\<forall>r\<in>set out. \<not> r_diskless r"
      using diskful_layout [OF len t(1,2)] same L R(2) by auto
    from withTieBreaker_layout [OF this(1) nodes(2) this(2) tb] show ?thesis .
  qed
qed

section \<open>The layout of a source\<close>

lemma traverse_list_all2:
  "traverse f xs = Inr ys \<Longrightarrow> list_all2 (\<lambda>x y. f x = Inr y) xs ys"
  by (induction xs arbitrary: ys) (auto split: sum.splits)

lemma restoreLeg_same:
  assumes "restoreLeg nodes getNode snap r = Inr r'"
  shows "r_node r' = r_node r \<and> r_pool r' = r_pool r \<and> r_diskless r' = r_diskless r \<and> r_nodeID r' = r_nodeID r \<and>
    (r_address r = '''' \<longrightarrow> r_address r' = '''') \<and>
    r_fullSync r' = (\<not> r_diskless r \<and> map_of (sn_perNode snap) (r_node r) \<noteq> Some SnapshotDone)"
  using assms by (auto simp: restoreLeg_def Let_def split: if_splits sum.splits)

lemma restored_leg_ids:
  assumes "list_all2 (\<lambda>r r'. restoreLeg nodes getNode snap r = Inr r') rs rs'"
  shows "set (leg_ids rs') \<subseteq> set (leg_ids rs) \<and> (distinct (leg_ids rs) \<longrightarrow> distinct (leg_ids rs'))"
  using assms
proof (induction rule: list_all2_induct)
  case (Cons r rs r' rs')
  then show ?case using restoreLeg_same [OF Cons.hyps(1)] by (auto simp: leg_ids_def)
qed (simp add: leg_ids_def)

lemma restored_map:
  assumes "list_all2 (\<lambda>r r'. restoreLeg nodes getNode snap r = Inr r') rs rs'"
  shows "map r_node rs' = map r_node rs \<and> map r_diskless rs' = map r_diskless rs \<and> map r_pool rs' = map r_pool rs"
  using assms
proof (induction rule: list_all2_induct)
  case (Cons r rs r' rs')
  then show ?case using restoreLeg_same [OF Cons.hyps(1)] by simp
qed simp

lemma length_diskfulOf: "length (diskfulOf rs) = length (filter Not (map r_diskless rs))"
  by (simp add: diskfulOf_def filter_map comp_def)

text \<open>An admitted volume with distinct node ids has a layout.\<close>

lemma admitted_layout:
  assumes "admit_create s" and "ids_ok s" and "'''' \<notin> r_node ` set (replicas s)"
    and "\<forall>r\<in>set (DiskfulReplicas s). PoolOrDefault (r_pool r) = pool"
  shows "volume_layout (replicas s) (length (diskfulOf (replicas s))) pool"
proof -
  have "completed_ids (spec_legs s) = leg_ids (replicas s) @
      map c_nodeID (filter (\<lambda>c. c_address c \<noteq> '''') (clients s))"
    by (simp add: completed_ids_def spec_legs_def leg_ids_def filter_map comp_def)
  then have ids: "distinct (leg_ids (replicas s))" "\<forall>i\<in>set (leg_ids (replicas s)). 0 \<le> i \<and> i < 16"
    using assms(2) by (auto simp: ids_ok_def list_all_iff)
  have nodes: "distinct (map r_node (replicas s))"
    using assms(1) by (simp add: admit_create_def rule_replica_nodes_unique_iff)
  have "(if has_drbd s then 2 \<le> length (diskfulOf (replicas s)) \<and> length (replicas s) \<le> 3
      else length (replicas s) = 1 \<and> \<not> list_ex r_diskless (replicas s)) \<and> \<not> r_diskless (hd (replicas s))"
    using assms(1)
    by (cases "replicas s")
      (auto simp: admit_create_def rule_replica_count_def rule_two_diskful_def rule_diskless_needs_drbd_def
        rule_first_diskful_def diskfulOf_def split: if_splits)
  then show ?thesis
    using ids nodes assms(3,4)
    by (cases "has_drbd s") (auto simp: volume_layout_def DiskfulReplicas_def list_ex_iff)
qed

lemma layout_transfer:
  assumes "volume_layout rs k pool" and "map r_node rs' = map r_node rs" and "map r_diskless rs' = map r_diskless rs"
    and "map r_pool rs' = map r_pool rs" and "distinct (leg_ids rs')" and "set (leg_ids rs') \<subseteq> set (leg_ids rs)"
  shows "volume_layout rs' k pool"
proof -
  have len: "length rs' = length rs" using assms(2) by (metis length_map)
  have nth: "r_node (rs' ! i) = r_node (rs ! i)" "r_diskless (rs' ! i) = r_diskless (rs ! i)"
      "r_pool (rs' ! i) = r_pool (rs ! i)" if "i < length rs" for i
    using assms(2-4) that len by (metis nth_map)+
  have "length (diskfulOf rs') = k" using assms(1,3) by (simp add: volume_layout_def length_diskfulOf)
  moreover have "r_node ` set rs' = r_node ` set rs" using assms(2) by (metis list.set_map)
  moreover have "\<forall>r\<in>set rs'. \<not> r_diskless r \<longrightarrow> PoolOrDefault (r_pool r) = pool"
    using assms(1) nth len unfolding volume_layout_def by (metis in_set_conv_nth)
  moreover have "\<not> r_diskless (hd rs')"
  proof -
    have "rs \<noteq> []" using assms(1) by (auto simp: volume_layout_def diskfulOf_def)
    moreover from this have "rs' \<noteq> []" using len by auto
    ultimately show ?thesis using nth(2) [of 0] assms(1) by (simp add: volume_layout_def hd_conv_nth)
  qed
  ultimately show ?thesis using assms len unfolding volume_layout_def by auto
qed

lemma resolveSource_layout:
  assumes "resolveSource getSnap getVol nodesRead getNode snapID want reps pool = Inr (src, srcReplicas, fmt)"
    and "snapID \<noteq> ''''"
    and ok: "\<And>v name. getVol name = Inr v \<Longrightarrow> admit_create (spec v) \<and> ids_ok (spec v) \<and> '''' \<notin> r_node ` set (replicas (spec v))"
  shows "volume_layout srcReplicas (length (diskfulOf srcReplicas)) pool \<and>
    (\<forall>r. firstDiskful srcReplicas = Some r \<longrightarrow> \<not> r_fullSync r)"
proof -
  obtain srcVol snap where ss: "snapshotSource getSnap getVol snapID = Inr (srcVol, snap)"
    and p: "\<forall>r\<in>set (DiskfulReplicas (spec srcVol)). PoolOrDefault (r_pool r) = pool"
    and rr: "restoreReplicas nodesRead getNode srcVol snap = Inr srcReplicas"
    using assms(1,2) by (auto simp: resolveSource_def list_ex_iff split: sum.split_asm if_split_asm prod.split_asm)
  have v: "getVol (sn_volumeName snap) = Inr srcVol"
    using ss by (auto simp: snapshotSource_def split: sum.split_asm if_split_asm)
  obtain nodes where tr: "traverse (restoreLeg nodes getNode snap) (replicas (spec srcVol)) = Inr srcReplicas"
    and seed: "\<forall>r. firstDiskful srcReplicas = Some r \<longrightarrow> \<not> r_fullSync r"
    using rr by (auto simp: restoreReplicas_def split: sum.split_asm if_split_asm option.split_asm)
  note R = traverse_list_all2 [OF tr]
  have lay: "volume_layout (replicas (spec srcVol)) (length (diskfulOf (replicas (spec srcVol)))) pool"
    using admitted_layout [OF _ _ _ p] ok [OF v] by blast
  have "length (diskfulOf srcReplicas) = length (diskfulOf (replicas (spec srcVol)))"
    using restored_map [OF R] by (simp add: length_diskfulOf)
  moreover have "distinct (leg_ids (replicas (spec srcVol)))" using lay by (simp only: volume_layout_def)
  then have "volume_layout srcReplicas (length (diskfulOf (replicas (spec srcVol)))) pool"
    using restored_map [OF R] restored_leg_ids [OF R] by (intro layout_transfer [OF lay]) blast+
  ultimately show ?thesis using seed by simp
qed

lemma placeVolume_layout:
  assumes "placeVolume c nodesRead statsRead getNode reqs snapID srcReplicas target want name vols remoteAccess
      (PoolOrDefault p) quorum = Inr rs"
    and "\<And>nodes. nodesRead = Inr nodes \<Longrightarrow> gomap_ok nodes \<and> '''' \<notin> fst ` set nodes"
    and "snapID \<noteq> '''' \<longrightarrow> volume_layout srcReplicas (length (diskfulOf srcReplicas)) (PoolOrDefault p)"
    and "0 < target" and "target \<le> 3"
  shows "volume_layout rs target (PoolOrDefault p)"
proof (cases "snapID \<noteq> '''' \<and> length (diskfulOf srcReplicas) = target")
  case True
  then show ?thesis using assms(1,3) by (auto simp: placeVolume_def)
next
  case False
  then obtain nodes where n: "nodesRead = Inr nodes"
    using assms(1) by (auto simp: placeVolume_def split: sum.splits)
  note nodes = assms(2) [OF n]
  show ?thesis
  proof (cases "snapID = ''''")
    case True
    then obtain q where q: "place c nodes statsRead getNode reqs target want name vols remoteAccess (PoolOrDefault p) [] = Inr q"
      and tb: "withTieBreaker c nodes getNode q target quorum = Inr rs"
      using assms(1) n by (auto simp: placeVolume_def split: sum.splits)
    have pl: "volume_layout q target (PoolOrDefault p)" "\<forall>r\<in>set q. \<not> r_diskless r"
      using place_layout [OF _ _ assms(4,5) q] nodes by auto
    show ?thesis using withTieBreaker_layout [OF pl(1) _ pl(2) tb] nodes by blast
  next
    case s: False
    then have "reshapeRestore c nodes statsRead getNode reqs srcReplicas target want name vols remoteAccess
        (PoolOrDefault p) quorum = Inr rs" using assms(1) n False by (simp add: placeVolume_def)
    then show ?thesis using reshapeRestore_layout [of c nodes] assms(3-5) nodes s False by blast
  qed
qed

section \<open>Restored data\<close>

lemma shrinkPin_complete:
  assumes "shrinkPin reqs diskful selected = Inr pin" and "pin \<noteq> ''''"
  shows "\<exists>r\<in>set diskful. r_node r = pin \<and> \<not> r_fullSync r"
  using assms
  by (auto simp: shrinkPin_def Let_def list_ex_iff split: if_split_asm option.split_asm list.split_asm
      dest!: find_SomeD)

lemma keepRestoreLegs_hd:
  assumes "keepRestoreLegs diskful target pin = Inr kept" and "2 \<le> target"
  shows "hd kept = hd diskful"
proof -
  obtain seed others where d: "diskful = seed # others"
    using assms(1) by (cases diskful) (auto simp: keepRestoreLegs_def)
  have "kept = keep_pass target pin True (keep_pass target pin False [seed] others) others \<or>
      (\<exists>p. kept = keep_pass target pin True (keep_pass target pin False [seed, p] others) others)"
    using assms by (auto simp: keepRestoreLegs_def d Let_def split: if_split_asm option.split_asm)
  moreover have "hd (keep_pass target pin True (keep_pass target pin False (seed # ps) others) others) = seed"
    if "length (seed # ps) \<le> target" for ps
  proof -
    have k: "keep_pass target pin False (seed # ps) others = (seed # ps) @ take (target - length (seed # ps))
        (filter (\<lambda>r. r_node r \<noteq> pin \<and> r_fullSync r = False) others)" by (rule keep_pass_eq [OF that])
    then have "length (keep_pass target pin False (seed # ps) others) \<le> target" using that by simp
    from keep_pass_eq [OF this] show ?thesis unfolding k by simp
  qed
  from this [of "[]"] this [of "[_]"] have "hd (keep_pass target pin True (keep_pass target pin False [seed] others) others) = seed"
    "\<And>p. hd (keep_pass target pin True (keep_pass target pin False [seed, p] others) others) = seed"
    using assms(2) by simp_all
  ultimately show ?thesis using d by auto
qed

lemma keepRestoreLegs_one:
  assumes "keepRestoreLegs diskful 1 pin = Inr kept" and "distinct (map r_node diskful)"
    and "\<not> r_fullSync (hd diskful)" and "pin \<noteq> '''' \<longrightarrow> (\<exists>r\<in>set diskful. r_node r = pin \<and> \<not> r_fullSync r)"
  shows "\<exists>r\<in>set diskful. kept = [r] \<and> \<not> r_fullSync r"
proof -
  obtain seed others where d: "diskful = seed # others"
    using assms(1) by (cases diskful) (auto simp: keepRestoreLegs_def)
  show ?thesis
  proof (cases "pin = ''''")
    case True
    then have "kept = keep_pass 1 pin True (keep_pass 1 pin False [seed] others) others"
      using assms(1) by (simp add: keepRestoreLegs_def d)
    then have "kept = [seed]" by (simp add: keep_pass_eq)
    then show ?thesis using d assms(3) by auto
  next
    case False
    then obtain pinned where p: "find (\<lambda>rep. r_node rep = pin) diskful = Some pinned" "kept = [pinned]"
      using assms(1) by (auto simp: keepRestoreLegs_def d Let_def split: option.split_asm)
    obtain r where r: "r \<in> set diskful" "r_node r = pin" "\<not> r_fullSync r" using assms(4) False by blast
    have "pinned = r" using find_SomeD [OF p(1)] r assms(2) by (metis distinct_map inj_on_def)
    then show ?thesis using p(2) r by blast
  qed
qed

lemma renumber_preserved:
  "renumber nodes getNode used rs = Inr out \<Longrightarrow> list_all2 (\<lambda>r r'. same_leg r r' \<and> (preserved_leg r \<longrightarrow> r' = r)) rs out"
proof (induction rs arbitrary: used out)
  case (Cons r rs)
  obtain r' out' where "out = r' # out'" and "same_leg r r'"
    and "if preserved_leg r then r' = r \<and> renumber nodes getNode used rs = Inr out'
         else r_nodeID r' = lowest_free used 0 \<and> renumber nodes getNode (lowest_free used 0 # used) rs = Inr out'"
    by (rule renumber_step [OF Cons.prems])
  then show ?case using Cons.IH by (auto split: if_split_asm)
qed simp

text \<open>The layout, and where its data comes from: a leg of the source that holds it.\<close>

definition data_kept :: "Replica list \<Rightarrow> nat \<Rightarrow> Replica list \<Rightarrow> bool" where
  "data_kept base target rs \<longleftrightarrow>
     (\<exists>b\<in>set base. \<not> r_diskless b \<and> \<not> r_fullSync b \<and> r_node (hd rs) = r_node b) \<and>
     (2 \<le> target \<longrightarrow> r_node (hd rs) = r_node (hd (diskfulOf base)) \<and> \<not> r_fullSync (hd rs)) \<and>
     (\<forall>r\<in>set rs. 2 \<le> target \<and> \<not> r_diskless r \<and> \<not> r_fullSync r \<longrightarrow>
        (\<exists>b\<in>set base. \<not> r_fullSync b \<and> r_node b = r_node r \<and> (r_address b \<noteq> '''' \<longrightarrow> r = b)))"

lemma reshapeLegs_hd:
  assumes "reshapeLegs c nodes statsRead getNode reqs base target want name vols remoteAccess pool = Inr legs"
    and "2 \<le> target" and "diskfulOf base \<noteq> []"
  shows "hd legs = hd (diskfulOf base)"
  using assms keepRestoreLegs_hd by (auto simp: reshapeLegs_def Let_def split: if_split_asm sum.split_asm)

lemma reshapeLegs_one:
  assumes "reshapeLegs c nodes statsRead getNode reqs base 1 want name vols remoteAccess pool = Inr legs"
    and "distinct (map r_node (diskfulOf base))" and "\<not> r_fullSync (hd (diskfulOf base))"
    and "1 < length (diskfulOf base)"
  shows "\<exists>b\<in>set (diskfulOf base). legs = [b] \<and> \<not> r_fullSync b"
proof -
  obtain pin where "keepRestoreLegs (diskfulOf base) 1 pin = Inr legs"
    and "remoteAccess \<and> pin = '''' \<or> shrinkPin reqs (diskfulOf base) (selectedTopologyNode reqs) = Inr pin"
    using assms(1,4) by (auto simp: reshapeLegs_def Let_def split: sum.split_asm if_split_asm)
  then show ?thesis
    using shrinkPin_complete [of reqs "diskfulOf base" "selectedTopologyNode reqs" pin]
    by (intro keepRestoreLegs_one [OF _ assms(2,3)]) auto
qed

lemma withTieBreaker_prefix:
  "withTieBreaker c nodes getNode rs target quorum = Inr rs' \<Longrightarrow>
   \<exists>ts. rs' = rs @ ts \<and> (\<forall>t\<in>set ts. r_diskless t)"
  by (auto simp: withTieBreaker_def Let_def split: if_split_asm sum.split_asm)

lemma reshapeRestore_data:
  assumes "reshapeRestore c nodes statsRead getNode reqs base target want name vols remoteAccess (PoolOrDefault p) quorum = Inr rs"
    and lay: "volume_layout base k (PoolOrDefault p)" and nodes: "gomap_ok nodes" "'''' \<notin> fst ` set nodes"
    and t: "0 < target" "target \<le> 3" "target \<noteq> length (diskfulOf base)"
    and seed: "\<not> r_fullSync (hd (diskfulOf base))"
  shows "data_kept base target rs"
proof -
  obtain legs where legs: "reshapeLegs c nodes statsRead getNode reqs base target want name vols remoteAccess (PoolOrDefault p) = Inr legs"
    using assms(1) by (auto simp: reshapeRestore_def split: sum.split_asm)
  have d: "diskfulOf base \<noteq> []" "set (diskfulOf base) \<subseteq> {r\<in>set base. \<not> r_diskless r}" "distinct (map r_node (diskfulOf base))"
    using lay by (auto simp: volume_layout_def diskfulOf_def distinct_map_filter)
  show ?thesis
  proof (cases "target = 1")
    case True
    then have len: "1 < length (diskfulOf base)" using t(3) d(1) by (cases "diskfulOf base") auto
    obtain b where b: "b \<in> set (diskfulOf base)" "legs = [b]" "\<not> r_fullSync b"
      using reshapeLegs_one [OF legs [unfolded True] d(3) seed len] by blast
    then have "rs = [b\<lparr>r_nodeID := 0, r_address := '''', r_fullSync := False\<rparr>]"
      using assms(1) legs True by (simp add: reshapeRestore_def)
    then show ?thesis using b d(2) True by (auto simp: data_kept_def)
  next
    case False
    then have t2: "2 \<le> target" using t(1) by simp
    obtain out where out: "renumber nodes getNode (map r_nodeID (filter preserved_leg legs)) legs = Inr out"
      and tb: "withTieBreaker c nodes getNode out target quorum = Inr rs"
      using assms(1) legs False by (auto simp: reshapeRestore_def split: sum.split_asm)
    note R = renumber_preserved [OF out]
    note L = reshapeLegs_spec [OF legs lay nodes t]
    obtain ts where ts: "rs = out @ ts" "\<forall>t\<in>set ts. r_diskless t" using withTieBreaker_prefix [OF tb] by blast
    have ne: "legs \<noteq> []" using L t(1) by auto
    then have "same_leg (hd legs) (hd out)" "out \<noteq> []"
      using R by (cases legs; cases out; auto)+
    then have hd: "r_node (hd rs) = r_node (hd (diskfulOf base))" "\<not> r_fullSync (hd rs)"
      using reshapeLegs_hd [OF legs t2 d(1)] seed by (auto simp: ts(1) same_leg_def)
    have "\<exists>b\<in>set base. \<not> r_fullSync b \<and> r_node b = r_node r \<and> (r_address b \<noteq> '''' \<longrightarrow> r = b)"
      if r: "r \<in> set rs" "\<not> r_diskless r" "\<not> r_fullSync r" for r
    proof -
      have "r \<in> set out" using r ts by auto
      then obtain i where i: "i < length out" "r = out ! i" by (auto simp: in_set_conv_nth)
      have l: "i < length legs" using i(1) list_all2_lengthD [OF R] by simp
      then have r0: "legs ! i \<in> set legs" "same_leg (legs ! i) r" "preserved_leg (legs ! i) \<longrightarrow> r = legs ! i"
        using list_all2_nthD [OF R l] i(2) by simp_all
      then have "\<not> r_fullSync (legs ! i)" using r(3) by (simp add: same_leg_def)
      moreover from this have "legs ! i \<in> set base" using L r0(1) by blast
      ultimately show ?thesis using r0(2,3) by (intro bexI [of _ "legs ! i"]) (auto simp: same_leg_def preserved_leg_def)
    qed
    moreover have "hd (diskfulOf base) \<in> set base" "\<not> r_diskless (hd (diskfulOf base))"
      using d(2) list.set_sel(1) [OF d(1)] by blast+
    ultimately show ?thesis using hd t2 seed unfolding data_kept_def by blast
  qed
qed

text \<open>
  C18. Restoring under a class with another number of diskful legs: the layout is one the API
  server admits, and it never loses the snapshot's data. Its first leg is on a node whose leg is
  complete (the seed itself for a replicated target), every diskful leg not marked for a full sync
  is a complete leg of the source, and one that carried replication metadata keeps the node id its
  metadata is keyed by.
\<close>

theorem reshapeRestore_spec:
  assumes "reshapeRestore c nodes statsRead getNode reqs base target want name vols remoteAccess (PoolOrDefault p) quorum = Inr rs"
    and "volume_layout base k (PoolOrDefault p)" and "gomap_ok nodes" and "'''' \<notin> fst ` set nodes"
    and "0 < target" and "target \<le> 3" and "target \<noteq> length (diskfulOf base)"
    and "\<not> r_fullSync (hd (diskfulOf base))"
  shows "volume_layout rs target (PoolOrDefault p) \<and>
     (\<exists>b\<in>set base. \<not> r_diskless b \<and> \<not> r_fullSync b \<and> r_node (hd rs) = r_node b) \<and>
     (2 \<le> target \<longrightarrow> r_node (hd rs) = r_node (hd (diskfulOf base)) \<and> \<not> r_fullSync (hd rs)) \<and>
     (\<forall>r\<in>set rs. 2 \<le> target \<and> \<not> r_diskless r \<and> \<not> r_fullSync r \<longrightarrow>
        (\<exists>b\<in>set base. \<not> r_fullSync b \<and> r_node b = r_node r \<and> (r_address b \<noteq> '''' \<longrightarrow> r = b)))"
  using reshapeRestore_layout [OF assms(1-7)] reshapeRestore_data [OF assms] unfolding data_kept_def by blast

definition example_base :: "Replica list" where
  "example_base = [example_replica ''a'' 2 ''10.0.0.1'', example_replica ''b'' 0 ''10.0.0.2'']"

theorem reshapeRestore_spec_witness:
  "\<exists>rs. reshapeRestore example_controller example_nodes (Inr example_stats) (\<lambda>_. Inl NotFound) None
       example_base 3 100 ''pvc-9'' [] False ''default'' QuorumFreeze = Inr rs \<and>
     map r_nodeID rs = [2, 0, 1] \<and> volume_layout rs 3 ''default''"
proof -
  let ?p = "reshapeRestore example_controller example_nodes (Inr example_stats) (\<lambda>_. Inl NotFound) None
       example_base 3 100 ''pvc-9'' [] False ''default'' QuorumFreeze"
  have "(case ?p of Inl _ \<Rightarrow> False | Inr rs \<Rightarrow> map r_nodeID rs = [2, 0, 1])" by code_simp
  then obtain rs where rs: "?p = Inr rs" "map r_nodeID rs = [2, 0, 1]" by (cases ?p) auto
  have pd: "PoolOrDefault ''default'' = ''default''" by code_simp
  have rs': "reshapeRestore example_controller example_nodes (Inr example_stats) (\<lambda>_. Inl NotFound) None
       example_base 3 100 ''pvc-9'' [] False (PoolOrDefault ''default'') QuorumFreeze = Inr rs"
    unfolding pd by (rule rs(1))
  have l: "volume_layout example_base 2 (PoolOrDefault ''default'')" by code_simp
  have g: "gomap_ok example_nodes" "'''' \<notin> fst ` set example_nodes" by code_simp+
  have d: "(3::nat) \<noteq> length (diskfulOf example_base)" "\<not> r_fullSync (hd (diskfulOf example_base))" by code_simp+
  have "volume_layout rs 3 ''default''"
    using conjunct1 [OF reshapeRestore_spec [OF rs' l g _ _ d]] unfolding pd by simp
  then show ?thesis by (intro exI [of _ rs] conjI rs)
qed

end
