(* ===== verification/Drbd_Status.thy ===== *)
theory Drbd_Status
  imports Miroir_Prelude
begin

text \<open>
  The kernel's view of one DRBD resource, from \<^verbatim>\<open>internal/drbd/drbd.go\<close>: the fields of
  \<^verbatim>\<open>drbdsetup status --json\<close> the driver reads, and what \<^verbatim>\<open>Status\<close> derives from them
  (connections, peer disks, split brain, resync progress and the three signatures of a resync that
  will not drain). \<^verbatim>\<open>percent-in-sync\<close> is printed with two decimals and is kept in hundredths.
\<close>

section \<open>States\<close>

definition DiskUpToDate :: string where "DiskUpToDate = ''UpToDate''"
definition DiskInconsistent :: string where "DiskInconsistent = ''Inconsistent''"
definition DiskDiskless :: string where "DiskDiskless = ''Diskless''"
definition diskDetaching :: string where "diskDetaching = ''Detaching''"
definition diskConsistent :: string where "diskConsistent = ''Consistent''"
definition connStandAlone :: string where "connStandAlone = ''StandAlone''"
definition connConnected :: string where "connConnected = ''Connected''"
definition rolePrimary :: string where "rolePrimary = ''Primary''"
definition replEstablished :: string where "replEstablished = ''Established''"
definition replOff :: string where "replOff = ''Off''"
definition replVerifyS :: string where "replVerifyS = ''VerifyS''"
definition replVerifyT :: string where "replVerifyT = ''VerifyT''"
definition replWFBitMapS :: string where "replWFBitMapS = ''WFBitMapS''"
definition replWFBitMapT :: string where "replWFBitMapT = ''WFBitMapT''"

lemmas drbd_state_defs = DiskUpToDate_def DiskInconsistent_def DiskDiskless_def diskDetaching_def
  diskConsistent_def connStandAlone_def connConnected_def rolePrimary_def replEstablished_def
  replOff_def replVerifyS_def replVerifyT_def replWFBitMapS_def replWFBitMapT_def

section \<open>The status output\<close>

record jsonPeerDevice =
  pd_replicationState :: string
  pd_peerDiskState :: string
  pd_percentInSync :: int
  pd_outOfSyncKiB :: int

record jsonConnection =
  jc_peerNodeID :: int
  jc_connectionState :: string
  jc_peerRole :: string
  jc_peerDevices :: "jsonPeerDevice list"

record jsonStatus =
  js_name :: string
  js_role :: string
  js_suspendedUser :: bool
  js_devices :: "(string \<times> bool) list"
  js_connections :: "jsonConnection list"

text \<open>Go maps from node ids, looked up with \<^const>\<open>map_of\<close>; a nil map is the empty one.\<close>

type_synonym 'v idmap = "(int \<times> 'v) list"

record Status =
  s_diskState :: string
  s_primary :: bool
  s_peerPrimary :: bool
  s_suspended :: bool
  s_peerConnected :: "bool idmap"
  s_peerDiskState :: "string idmap"
  s_splitBrain :: bool
  s_resyncing :: bool
  s_verifying :: bool
  s_resyncPercent :: int
  s_quorum :: bool
  s_outOfSyncKiB :: int
  s_stuckResyncPeers :: "bool idmap"
  s_staleBitmapPeers :: "bool idmap"
  s_unsettledResyncPeers :: "bool idmap"

definition peer_connected :: "Status \<Rightarrow> int \<Rightarrow> bool" where
  "peer_connected st i = (map_of (s_peerConnected st) i = Some True)"

definition peer_disk :: "Status \<Rightarrow> int \<Rightarrow> string" where
  "peer_disk st i = (case map_of (s_peerDiskState st) i of Some d \<Rightarrow> d | None \<Rightarrow> '''')"

definition zero_drbd_status :: Status where
  "zero_drbd_status = \<lparr>s_diskState = '''', s_primary = False, s_peerPrimary = False, s_suspended = False,
     s_peerConnected = [], s_peerDiskState = [], s_splitBrain = False, s_resyncing = False,
     s_verifying = False, s_resyncPercent = 0, s_quorum = False, s_outOfSyncKiB = 0,
     s_stuckResyncPeers = [], s_staleBitmapPeers = [], s_unsettledResyncPeers = []\<rparr>"

text \<open>\<^verbatim>\<open>unsettledResyncPeers\<close>: the pairs of a connection and a peer device, in order; a resync in
  flight on any of them empties the answer.\<close>

definition peer_pairs :: "jsonStatus \<Rightarrow> (jsonConnection \<times> jsonPeerDevice) list" where
  "peer_pairs s = concat (map (\<lambda>c. map (\<lambda>pd. (c, pd)) (jc_peerDevices c)) (js_connections s))"

fun unsettled_walk :: "(jsonConnection \<times> jsonPeerDevice) list \<Rightarrow> bool idmap \<Rightarrow> bool idmap" where
  "unsettled_walk [] peers = peers"
| "unsettled_walk ((c, pd) # rest) peers =
     (if pd_replicationState pd = replOff \<or> pd_replicationState pd = '''' then unsettled_walk rest peers
      else if pd_replicationState pd = replEstablished \<or> pd_replicationState pd = replWFBitMapT then
        unsettled_walk rest
          (if jc_connectionState c = connConnected \<and> pd_peerDiskState pd = DiskUpToDate \<and> pd_outOfSyncKiB pd = 0
           then AList.update (jc_peerNodeID c) True peers else peers)
      else [])"

definition unsettledResyncPeers :: "jsonStatus \<Rightarrow> bool idmap" where
  "unsettledResyncPeers s =
     (case js_devices s of
        [] \<Rightarrow> []
      | d # _ \<Rightarrow> if fst d \<noteq> DiskInconsistent \<or> js_role s = rolePrimary then []
                 else unsettled_walk (peer_pairs s) [])"

definition wedgeSignature :: "jsonStatus \<Rightarrow> bool" where
  "wedgeSignature s =
     (case js_devices s of
        [] \<Rightarrow> False
      | d # _ \<Rightarrow> fst d = diskDetaching \<and>
          list_all (\<lambda>c. jc_connectionState c = connStandAlone) (js_connections s))"

definition peerIDs :: "jsonStatus \<Rightarrow> int list" where
  "peerIDs s = map jc_peerNodeID (js_connections s)"

section \<open>Status\<close>

definition resync_state :: "string \<Rightarrow> bool" where
  "resync_state rs \<longleftrightarrow> rs \<noteq> '''' \<and> rs \<noteq> replEstablished \<and> rs \<noteq> replOff"

definition stuck_pair :: "jsonConnection \<Rightarrow> jsonPeerDevice \<Rightarrow> bool" where
  "stuck_pair c pd \<longleftrightarrow> jc_connectionState c = connConnected \<and>
     (pd_replicationState pd = replEstablished \<or> pd_replicationState pd = replWFBitMapS) \<and>
     pd_peerDiskState pd = diskConsistent \<and> 0 < pd_outOfSyncKiB pd"

definition stale_pair :: "bool \<Rightarrow> jsonConnection \<Rightarrow> jsonPeerDevice \<Rightarrow> bool" where
  "stale_pair primary c pd \<longleftrightarrow> jc_connectionState c = connConnected \<and>
     (jc_peerRole c \<noteq> rolePrimary \<or> \<not> primary) \<and> pd_replicationState pd = replEstablished \<and>
     pd_peerDiskState pd = DiskUpToDate \<and> 0 < pd_outOfSyncKiB pd"

definition scan_device :: "jsonConnection \<Rightarrow> Status \<Rightarrow> jsonPeerDevice \<Rightarrow> Status" where
  "scan_device c s pd =
     (let rs = pd_replicationState pd;
          s = (if resync_state rs
               then s\<lparr>s_resyncing := True, s_verifying := s_verifying s \<or> rs = replVerifyS \<or> rs = replVerifyT,
                      s_resyncPercent := min (s_resyncPercent s) (pd_percentInSync pd)\<rparr>
               else s);
          s = s\<lparr>s_outOfSyncKiB := max (s_outOfSyncKiB s) (pd_outOfSyncKiB pd)\<rparr>;
          s = (if stuck_pair c pd
               then s\<lparr>s_stuckResyncPeers := AList.update (jc_peerNodeID c) True (s_stuckResyncPeers s)\<rparr> else s)
      in if stale_pair (s_primary s) c pd
         then s\<lparr>s_staleBitmapPeers := AList.update (jc_peerNodeID c) True (s_staleBitmapPeers s)\<rparr> else s)"

definition scan_connection :: "Status \<Rightarrow> jsonConnection \<Rightarrow> Status" where
  "scan_connection s c =
     (let s = (if jc_peerRole c = rolePrimary then s\<lparr>s_peerPrimary := True\<rparr> else s);
          s = foldl (scan_device c) s (jc_peerDevices c);
          s = (case jc_peerDevices c of
                 [] \<Rightarrow> s
               | pd # _ \<Rightarrow> s\<lparr>s_peerDiskState := AList.update (jc_peerNodeID c) (pd_peerDiskState pd) (s_peerDiskState s)\<rparr>);
          s = s\<lparr>s_peerConnected := AList.update (jc_peerNodeID c) (jc_connectionState c = connConnected) (s_peerConnected s)\<rparr>
      in if jc_connectionState c = connStandAlone then s\<lparr>s_splitBrain := True\<rparr> else s)"

text \<open>\<^verbatim>\<open>Driver.Status\<close> over the parsed output: \<^const>\<open>None\<close> where the resource is missing from it.\<close>

definition drbd_Status :: "jsonStatus list \<Rightarrow> Status option" where
  "drbd_Status parsed =
     (case parsed of
        [] \<Rightarrow> None
      | res # _ \<Rightarrow>
          (let s0 = zero_drbd_status\<lparr>s_primary := (js_role res = rolePrimary), s_suspended := js_suspendedUser res,
                 s_resyncPercent := 10000\<rparr>;
               s1 = (case js_devices res of [] \<Rightarrow> s0 | d # _ \<Rightarrow> s0\<lparr>s_diskState := fst d, s_quorum := snd d\<rparr>)
           in Some ((foldl scan_connection s1 (js_connections res))\<lparr>s_unsettledResyncPeers := unsettledResyncPeers res\<rparr>)))"

section \<open>What the fields say\<close>

lemma scan_device_fields:
  "s_primary (scan_device c s pd) = s_primary s"
  "s_diskState (scan_device c s pd) = s_diskState s"
  "s_quorum (scan_device c s pd) = s_quorum s"
  "s_splitBrain (scan_device c s pd) = s_splitBrain s"
  "s_peerPrimary (scan_device c s pd) = s_peerPrimary s"
  "s_peerConnected (scan_device c s pd) = s_peerConnected s"
  "s_peerDiskState (scan_device c s pd) = s_peerDiskState s"
  "s_resyncing (scan_device c s pd) = (s_resyncing s \<or> resync_state (pd_replicationState pd))"
  "s_outOfSyncKiB (scan_device c s pd) = max (s_outOfSyncKiB s) (pd_outOfSyncKiB pd)"
  "map_of (s_stuckResyncPeers (scan_device c s pd)) i =
     (if stuck_pair c pd \<and> i = jc_peerNodeID c then Some True else map_of (s_stuckResyncPeers s) i)"
  "map_of (s_staleBitmapPeers (scan_device c s pd)) i =
     (if stale_pair (s_primary s) c pd \<and> i = jc_peerNodeID c then Some True else map_of (s_staleBitmapPeers s) i)"
  by (simp_all add: scan_device_def Let_def update_conv')

lemma scan_devices_fields:
  "s_primary (foldl (scan_device c) s pds) = s_primary s \<and>
   s_diskState (foldl (scan_device c) s pds) = s_diskState s \<and>
   s_quorum (foldl (scan_device c) s pds) = s_quorum s \<and>
   s_splitBrain (foldl (scan_device c) s pds) = s_splitBrain s \<and>
   s_peerPrimary (foldl (scan_device c) s pds) = s_peerPrimary s \<and>
   s_peerConnected (foldl (scan_device c) s pds) = s_peerConnected s \<and>
   s_peerDiskState (foldl (scan_device c) s pds) = s_peerDiskState s \<and>
   (s_resyncing (foldl (scan_device c) s pds) \<longleftrightarrow> s_resyncing s \<or> (\<exists>pd\<in>set pds. resync_state (pd_replicationState pd))) \<and>
   (\<forall>i. map_of (s_stuckResyncPeers (foldl (scan_device c) s pds)) i =
     (if i = jc_peerNodeID c \<and> (\<exists>pd\<in>set pds. stuck_pair c pd) then Some True else map_of (s_stuckResyncPeers s) i)) \<and>
   (\<forall>i. map_of (s_staleBitmapPeers (foldl (scan_device c) s pds)) i =
     (if i = jc_peerNodeID c \<and> (\<exists>pd\<in>set pds. stale_pair (s_primary s) c pd) then Some True else map_of (s_staleBitmapPeers s) i))"
  by (induction pds arbitrary: s) (auto simp: scan_device_fields)

lemma scan_connection_fields:
  "s_primary (scan_connection s c) = s_primary s"
  "s_diskState (scan_connection s c) = s_diskState s"
  "s_quorum (scan_connection s c) = s_quorum s"
  "s_splitBrain (scan_connection s c) \<longleftrightarrow> s_splitBrain s \<or> jc_connectionState c = connStandAlone"
  "s_peerPrimary (scan_connection s c) \<longleftrightarrow> s_peerPrimary s \<or> jc_peerRole c = rolePrimary"
  "s_resyncing (scan_connection s c) \<longleftrightarrow>
     s_resyncing s \<or> (\<exists>pd\<in>set (jc_peerDevices c). resync_state (pd_replicationState pd))"
  "map_of (s_peerConnected (scan_connection s c)) i =
     (if i = jc_peerNodeID c then Some (jc_connectionState c = connConnected) else map_of (s_peerConnected s) i)"
  "map_of (s_peerDiskState (scan_connection s c)) i =
     (if i = jc_peerNodeID c \<and> jc_peerDevices c \<noteq> [] then Some (pd_peerDiskState (hd (jc_peerDevices c)))
      else map_of (s_peerDiskState s) i)"
  "map_of (s_stuckResyncPeers (scan_connection s c)) i =
     (if i = jc_peerNodeID c \<and> (\<exists>pd\<in>set (jc_peerDevices c). stuck_pair c pd) then Some True
      else map_of (s_stuckResyncPeers s) i)"
  "map_of (s_staleBitmapPeers (scan_connection s c)) i =
     (if i = jc_peerNodeID c \<and> (\<exists>pd\<in>set (jc_peerDevices c). stale_pair (s_primary s) c pd) then Some True
      else map_of (s_staleBitmapPeers s) i)"
proof -
  define s0 where "s0 = (if jc_peerRole c = rolePrimary then s\<lparr>s_peerPrimary := True\<rparr> else s)"
  define t where "t = foldl (scan_device c) s0 (jc_peerDevices c)"
  have s0: "s_primary s0 = s_primary s" "s_diskState s0 = s_diskState s" "s_quorum s0 = s_quorum s"
      "s_splitBrain s0 = s_splitBrain s" "s_peerPrimary s0 = (s_peerPrimary s \<or> jc_peerRole c = rolePrimary)"
      "s_resyncing s0 = s_resyncing s" "s_peerConnected s0 = s_peerConnected s" "s_peerDiskState s0 = s_peerDiskState s"
      "s_stuckResyncPeers s0 = s_stuckResyncPeers s" "s_staleBitmapPeers s0 = s_staleBitmapPeers s"
    by (simp_all add: s0_def)
  have e: "scan_connection s c =
     (let u = (if jc_peerDevices c = [] then t
               else t\<lparr>s_peerDiskState := AList.update (jc_peerNodeID c) (pd_peerDiskState (hd (jc_peerDevices c))) (s_peerDiskState t)\<rparr>);
          u = u\<lparr>s_peerConnected := AList.update (jc_peerNodeID c) (jc_connectionState c = connConnected) (s_peerConnected u)\<rparr>
      in if jc_connectionState c = connStandAlone then u\<lparr>s_splitBrain := True\<rparr> else u)"
    unfolding t_def s0_def by (cases "jc_peerDevices c") (simp_all add: scan_connection_def Let_def)
  note t = scan_devices_fields [of c s0 "jc_peerDevices c", folded t_def, unfolded s0]
  show "s_primary (scan_connection s c) = s_primary s"
    "s_diskState (scan_connection s c) = s_diskState s"
    "s_quorum (scan_connection s c) = s_quorum s"
    "s_splitBrain (scan_connection s c) \<longleftrightarrow> s_splitBrain s \<or> jc_connectionState c = connStandAlone"
    "s_peerPrimary (scan_connection s c) \<longleftrightarrow> s_peerPrimary s \<or> jc_peerRole c = rolePrimary"
    "s_resyncing (scan_connection s c) \<longleftrightarrow>
       s_resyncing s \<or> (\<exists>pd\<in>set (jc_peerDevices c). resync_state (pd_replicationState pd))"
    "map_of (s_peerConnected (scan_connection s c)) i =
       (if i = jc_peerNodeID c then Some (jc_connectionState c = connConnected) else map_of (s_peerConnected s) i)"
    "map_of (s_peerDiskState (scan_connection s c)) i =
       (if i = jc_peerNodeID c \<and> jc_peerDevices c \<noteq> [] then Some (pd_peerDiskState (hd (jc_peerDevices c)))
        else map_of (s_peerDiskState s) i)"
    "map_of (s_stuckResyncPeers (scan_connection s c)) i =
       (if i = jc_peerNodeID c \<and> (\<exists>pd\<in>set (jc_peerDevices c). stuck_pair c pd) then Some True
        else map_of (s_stuckResyncPeers s) i)"
    "map_of (s_staleBitmapPeers (scan_connection s c)) i =
       (if i = jc_peerNodeID c \<and> (\<exists>pd\<in>set (jc_peerDevices c). stale_pair (s_primary s) c pd) then Some True
        else map_of (s_staleBitmapPeers s) i)"
    using t by (auto simp: e Let_def update_conv')
qed

lemma scan_connections_flags:
  "s_primary (foldl scan_connection s cs) = s_primary s \<and>
   s_diskState (foldl scan_connection s cs) = s_diskState s \<and>
   s_quorum (foldl scan_connection s cs) = s_quorum s \<and>
   (s_splitBrain (foldl scan_connection s cs) \<longleftrightarrow> s_splitBrain s \<or> (\<exists>c\<in>set cs. jc_connectionState c = connStandAlone)) \<and>
   (s_peerPrimary (foldl scan_connection s cs) \<longleftrightarrow> s_peerPrimary s \<or> (\<exists>c\<in>set cs. jc_peerRole c = rolePrimary)) \<and>
   (s_resyncing (foldl scan_connection s cs) \<longleftrightarrow> s_resyncing s \<or>
     (\<exists>c\<in>set cs. \<exists>pd\<in>set (jc_peerDevices c). resync_state (pd_replicationState pd)))"
  by (induction cs arbitrary: s) (auto simp: scan_connection_fields)

lemma scan_connections_peers:
  assumes "distinct (map jc_peerNodeID cs)" and "c \<in> set cs"
  shows "map_of (s_peerConnected (foldl scan_connection s cs)) (jc_peerNodeID c) =
      Some (jc_connectionState c = connConnected) \<and>
    (jc_peerDevices c \<noteq> [] \<longrightarrow> map_of (s_peerDiskState (foldl scan_connection s cs)) (jc_peerNodeID c) =
      Some (pd_peerDiskState (hd (jc_peerDevices c)))) \<and>
    (map_of (s_stuckResyncPeers s) (jc_peerNodeID c) = None \<longrightarrow>
      (map_of (s_stuckResyncPeers (foldl scan_connection s cs)) (jc_peerNodeID c) = Some True \<longleftrightarrow>
        (\<exists>pd\<in>set (jc_peerDevices c). stuck_pair c pd))) \<and>
    (map_of (s_staleBitmapPeers s) (jc_peerNodeID c) = None \<longrightarrow>
      (map_of (s_staleBitmapPeers (foldl scan_connection s cs)) (jc_peerNodeID c) = Some True \<longleftrightarrow>
        (\<exists>pd\<in>set (jc_peerDevices c). stale_pair (s_primary s) c pd)))"
  using assms
proof (induction cs arbitrary: s rule: rev_induct)
  case (snoc d cs)
  have p: "s_primary (foldl scan_connection s cs) = s_primary s" by (simp add: scan_connections_flags)
  show ?case
  proof (cases "c = d")
    case True
    then have new: "jc_peerNodeID d \<notin> set (map jc_peerNodeID cs)" using snoc.prems(1) by simp
    have "map_of (s_stuckResyncPeers (foldl scan_connection s cs)) (jc_peerNodeID d) = map_of (s_stuckResyncPeers s) (jc_peerNodeID d) \<and>
        map_of (s_staleBitmapPeers (foldl scan_connection s cs)) (jc_peerNodeID d) = map_of (s_staleBitmapPeers s) (jc_peerNodeID d)"
      using new by (induction cs arbitrary: s) (simp_all add: scan_connection_fields)
    then show ?thesis using True p by (simp add: scan_connection_fields)
  next
    case False
    then have c: "c \<in> set cs" using snoc.prems(2) by simp
    have "jc_peerNodeID d \<notin> jc_peerNodeID ` set cs" using snoc.prems(1) by simp
    then have "jc_peerNodeID c \<noteq> jc_peerNodeID d" using c by (metis imageI)
    then show ?thesis using snoc.IH [OF _ c, of s] snoc.prems(1) by (simp add: scan_connection_fields)
  qed
qed simp

text \<open>
  C32. The kernel view: the flags of a parsed status are exactly the conditions of the output. A
  split brain is a StandAlone connection, a resync is a peer device outside Established and Off,
  a remote primary is a peer in that role; and for every peer the recorded connection, disk state and
  the stranded-bitmap marks are those of its own connection entry.
\<close>

theorem drbd_Status_spec:
  assumes "drbd_Status (res # rest) = Some st" and "distinct (map jc_peerNodeID (js_connections res))"
  shows "(s_splitBrain st \<longleftrightarrow> (\<exists>c\<in>set (js_connections res). jc_connectionState c = connStandAlone)) \<and>
    (s_primary st \<longleftrightarrow> js_role res = rolePrimary) \<and>
    (s_peerPrimary st \<longleftrightarrow> (\<exists>c\<in>set (js_connections res). jc_peerRole c = rolePrimary)) \<and>
    (s_resyncing st \<longleftrightarrow> (\<exists>(c, pd)\<in>set (peer_pairs res). resync_state (pd_replicationState pd))) \<and>
    (\<forall>c\<in>set (js_connections res).
       (peer_connected st (jc_peerNodeID c) \<longleftrightarrow> jc_connectionState c = connConnected) \<and>
       (jc_peerDevices c \<noteq> [] \<longrightarrow> peer_disk st (jc_peerNodeID c) = pd_peerDiskState (hd (jc_peerDevices c))) \<and>
       (map_of (s_stuckResyncPeers st) (jc_peerNodeID c) = Some True \<longleftrightarrow> (\<exists>pd\<in>set (jc_peerDevices c). stuck_pair c pd)) \<and>
       (map_of (s_staleBitmapPeers st) (jc_peerNodeID c) = Some True \<longleftrightarrow>
          (\<exists>pd\<in>set (jc_peerDevices c). stale_pair (js_role res = rolePrimary) c pd)))"
proof -
  define s1 where "s1 = (case js_devices res of
      [] \<Rightarrow> zero_drbd_status\<lparr>s_primary := (js_role res = rolePrimary), s_suspended := js_suspendedUser res, s_resyncPercent := 10000\<rparr>
    | d # _ \<Rightarrow> zero_drbd_status\<lparr>s_primary := (js_role res = rolePrimary), s_suspended := js_suspendedUser res,
        s_resyncPercent := 10000, s_diskState := fst d, s_quorum := snd d\<rparr>)"
  have s1: "s_primary s1 = (js_role res = rolePrimary)" "\<not> s_splitBrain s1" "\<not> s_peerPrimary s1" "\<not> s_resyncing s1"
      "s_stuckResyncPeers s1 = []" "s_staleBitmapPeers s1 = []"
    by (simp_all add: s1_def zero_drbd_status_def split: list.split)
  have st: "st = (foldl scan_connection s1 (js_connections res))\<lparr>s_unsettledResyncPeers := unsettledResyncPeers res\<rparr>"
    using assms(1) by (simp add: drbd_Status_def s1_def Let_def split: list.split_asm)
  have pairs: "(\<exists>(c, pd)\<in>set (peer_pairs res). P pd) \<longleftrightarrow> (\<exists>c\<in>set (js_connections res). \<exists>pd\<in>set (jc_peerDevices c). P pd)" for P
    by (auto simp: peer_pairs_def)
  note peers = scan_connections_peers [OF assms(2), of _ s1]
  show ?thesis unfolding st pairs
    using s1 peers by (simp add: scan_connections_flags peer_connected_def peer_disk_def)
qed

definition example_json :: jsonStatus where
  "example_json = \<lparr>js_name = ''pvc-1'', js_role = ''Secondary'', js_suspendedUser = False, js_devices = [(''UpToDate'', True)],
     js_connections = [\<lparr>jc_peerNodeID = 1, jc_connectionState = ''Connected'', jc_peerRole = ''Primary'',
       jc_peerDevices = [\<lparr>pd_replicationState = ''WFBitMapS'', pd_peerDiskState = ''Consistent'', pd_percentInSync = 9950,
         pd_outOfSyncKiB = 64\<rparr>]\<rparr>]\<rparr>"

theorem drbd_Status_spec_witness:
  "\<exists>st. drbd_Status [example_json] = Some st \<and> s_peerPrimary st \<and> \<not> s_splitBrain st \<and>
     map_of (s_stuckResyncPeers st) 1 = Some True \<and> peer_disk st 1 = ''Consistent''"
proof -
  obtain st where st: "drbd_Status [example_json] = Some st" by (simp add: drbd_Status_def Let_def)
  have d: "distinct (map jc_peerNodeID (js_connections example_json))" by (simp add: example_json_def)
  show ?thesis using drbd_Status_spec [OF st d] st
    by (intro exI [of _ st]) (simp add: example_json_def stuck_pair_def drbd_state_defs)
qed

end
