(* ===== verification/Phase.thy ===== *)
theory Phase
  imports Legs Drbd_Status
begin

text \<open>
  The aggregate phase of a volume: \<^verbatim>\<open>computePhaseAt\<close> of \<^verbatim>\<open>internal/agent/reconciler.go\<close> and
  the \<^verbatim>\<open>PhaseReconciler\<close> of \<^verbatim>\<open>internal/agent/phase.go\<close>, which ages the phase of a volume whose
  agents have gone silent. The clock is an argument.
\<close>

section \<open>Status conditions\<close>

text \<open>\<^verbatim>\<open>meta.FindStatusCondition\<close>, \<^verbatim>\<open>meta.SetStatusCondition\<close> and \<^verbatim>\<open>meta.IsStatusConditionTrue\<close>;
  the transition time is left out.\<close>

definition findCondition :: "Condition list \<Rightarrow> string \<Rightarrow> Condition option" where
  "findCondition cs ty = find (\<lambda>c. cond_type c = ty) cs"

fun setCondition :: "Condition list \<Rightarrow> Condition \<Rightarrow> Condition list" where
  "setCondition [] c = [c]"
| "setCondition (d # ds) c = (if cond_type d = cond_type c then c # ds else d # setCondition ds c)"

definition isConditionTrue :: "Condition list \<Rightarrow> string \<Rightarrow> bool" where
  "isConditionTrue cs ty = (case findCondition cs ty of Some c \<Rightarrow> cond_status c | None \<Rightarrow> False)"

definition ConditionNodeUnreachable :: string where
  "ConditionNodeUnreachable = ''NodeUnreachable''"

definition reachableCondition :: Condition where
  "reachableCondition = \<lparr>cond_type = ConditionNodeUnreachable, cond_status = False, cond_reason = ''NodeReachable'',
     cond_message = ''''\<rparr>"

lemma find_setCondition:
  "findCondition (setCondition cs c) ty = (if ty = cond_type c then Some c else findCondition cs ty)"
  by (induction cs) (auto simp: findCondition_def)

section \<open>The phase\<close>

definition deepCheckInterval :: duration where
  "deepCheckInterval = 5 * 60 * 10 ^ 9"

definition drbdPollInterval :: duration where
  "drbdPollInterval = 30 * 10 ^ 9"

definition StaleProbeThreshold :: duration where
  "StaleProbeThreshold = 2 * deepCheckInterval"

definition probeStale :: "gotime \<Rightarrow> ReplicaStatus \<Rightarrow> bool" where
  "probeStale now st = (case st_lastProbedAt st of Some t \<Rightarrow> StaleProbeThreshold < now - t | None \<Rightarrow> False)"

definition realizedReplica :: "MiroirVolume \<Rightarrow> Replica \<Rightarrow> bool" where
  "realizedReplica v rep =
     (case map_of (perNode (status v)) (r_node rep) of
        Some st \<Rightarrow> st_deviceCreated st \<and> sizeBytes (spec v) \<le> st_sizeBytes st \<and>
          (drbd (spec v) = None \<or> st_diskState st = DiskUpToDate)
      | None \<Rightarrow> False)"

definition readyReplica :: "MiroirVolume \<Rightarrow> gotime \<Rightarrow> Replica \<Rightarrow> bool" where
  "readyReplica v now rep \<longleftrightarrow> realizedReplica v rep \<and>
     (drbd (spec v) = None \<or> st_connected (status_of v (r_node rep))) \<and>
     \<not> probeStale now (status_of v (r_node rep))"

definition failedReplica :: "MiroirVolume \<Rightarrow> Replica \<Rightarrow> bool" where
  "failedReplica v rep \<longleftrightarrow> \<not> realizedReplica v rep \<and>
     (case map_of (perNode (status v)) (r_node rep) of
        Some st \<Rightarrow> st_message st \<noteq> '''' \<and> \<not> st_deviceCreated st | None \<Rightarrow> False)"

definition computePhaseAt :: "MiroirVolume \<Rightarrow> gotime \<Rightarrow> VolumePhase \<times> string" where
  "computePhaseAt v now =
     (let diskful = DiskfulReplicas (spec v);
          ready = length (filter (readyReplica v now) diskful);
          realized = length (filter (realizedReplica v) diskful);
          summary = itoa (int ready) @ ''/'' @ itoa (int (length diskful))
      in (if list_ex (failedReplica v) diskful then VolumeFailed
          else if ready = length diskful then VolumeReady
          else if 0 < realized then VolumeDegraded
          else VolumeCreating, summary))"

definition replicasReachable :: "MiroirVolume \<Rightarrow> gotime \<Rightarrow> bool" where
  "replicasReachable v now =
     list_all (\<lambda>rep. case map_of (perNode (status v)) (r_node rep) of
         None \<Rightarrow> False | Some st \<Rightarrow> \<not> probeStale now st) (DiskfulReplicas (spec v))"

definition nextProbeExpiry :: "MiroirVolume \<Rightarrow> gotime \<Rightarrow> duration" where
  "nextProbeExpiry v now =
     foldl (\<lambda>nxt rep. case st_lastProbedAt (status_of v (r_node rep)) of
         None \<Rightarrow> nxt
       | Some t \<Rightarrow>
           (let remaining = t + StaleProbeThreshold - now
            in if 0 < remaining \<and> (nxt = 0 \<or> remaining < nxt) then remaining else nxt))
       0 (DiskfulReplicas (spec v))"

definition phase_write :: "MiroirVolume \<Rightarrow> gotime \<Rightarrow> MiroirVolume option" where
  "phase_write v now =
     (let (ph, ready) = computePhaseAt v now;
          clearUnreachable = replicasReachable v now \<and> isConditionTrue (conditions (status v)) ConditionNodeUnreachable
      in if ph \<noteq> phase (status v) \<or> ready \<noteq> readyReplicas (status v) \<or> clearUnreachable
         then Some (v\<lparr>status := (status v)\<lparr>phase := ph, readyReplicas := ready,
                conditions := (if clearUnreachable then setCondition (conditions (status v)) reachableCondition
                               else conditions (status v))\<rparr>\<rparr>)
         else None)"

definition phase_Reconcile ::
    "api_error + MiroirVolume \<Rightarrow> (MiroirVolume \<Rightarrow> api_error option) \<Rightarrow> gotime \<Rightarrow> outcome" where
  "phase_Reconcile get patch now =
     (case get of
        Inl e \<Rightarrow> ([], ignoreNotFound e)
      | Inr v \<Rightarrow>
          if deletionTimestamp v \<noteq> None then ([], Inr 0)
          else case phase_write v now of
                 None \<Rightarrow> ([], Inr (nextProbeExpiry v now))
               | Some v' \<Rightarrow> ([PatchVolume v'],
                   case patch v' of Some e \<Rightarrow> Inl (ApiErr e) | None \<Rightarrow> Inr (nextProbeExpiry v' now)))"

section \<open>Properties\<close>

lemma all_ready_iff:
  "length (filter (readyReplica v now) ds) = length ds \<longleftrightarrow> (\<forall>r\<in>set ds. readyReplica v now r)"
  by (rule length_filter_all)


text \<open>Only the freshness of the probes depends on the clock.\<close>

lemma computePhaseAt_stable:
  assumes "\<And>r. r \<in> set (DiskfulReplicas (spec v)) \<Longrightarrow> map_of (perNode (status v)) (r_node r) \<noteq> None \<Longrightarrow>
      probeStale t (status_of v (r_node r)) = probeStale now (status_of v (r_node r))"
  shows "computePhaseAt v t = computePhaseAt v now"
proof -
  have "readyReplica v t r = readyReplica v now r" if "r \<in> set (DiskfulReplicas (spec v))" for r
    using assms [OF that] by (auto simp: readyReplica_def realizedReplica_def split: option.splits)
  then have "filter (readyReplica v t) (DiskfulReplicas (spec v)) = filter (readyReplica v now) (DiskfulReplicas (spec v))"
    by (rule filter_cong [OF refl])
  then show ?thesis by (simp add: computePhaseAt_def)
qed

lemma nextProbeExpiry_bound:
  fixes v :: MiroirVolume and now :: gotime
  defines "step \<equiv> \<lambda>nxt rep. case st_lastProbedAt (status_of v (r_node rep)) of
         None \<Rightarrow> nxt
       | Some t \<Rightarrow>
           (let remaining = t + StaleProbeThreshold - now
            in if 0 < remaining \<and> (nxt = 0 \<or> remaining < nxt) then remaining else nxt)"
  assumes "0 \<le> a"
  shows "0 \<le> foldl step a rs \<and> (0 < a \<longrightarrow> 0 < foldl step a rs \<and> foldl step a rs \<le> a) \<and>
    (\<forall>r\<in>set rs. \<forall>t. st_lastProbedAt (status_of v (r_node r)) = Some t \<longrightarrow> 0 < t + StaleProbeThreshold - now \<longrightarrow>
       0 < foldl step a rs \<and> foldl step a rs \<le> t + StaleProbeThreshold - now)"
  using assms(2)
proof (induction rs arbitrary: a)
  case (Cons r rs)
  have s: "0 \<le> step a r" "0 < a \<longrightarrow> 0 < step a r \<and> step a r \<le> a"
    "\<forall>t. st_lastProbedAt (status_of v (r_node r)) = Some t \<longrightarrow> 0 < t + StaleProbeThreshold - now \<longrightarrow>
       0 < step a r \<and> step a r \<le> t + StaleProbeThreshold - now"
    using Cons.prems by (auto simp: step_def Let_def split: option.split)
  have IH: "0 \<le> foldl step (step a r) rs" "0 < step a r \<longrightarrow> 0 < foldl step (step a r) rs \<and> foldl step (step a r) rs \<le> step a r"
    "\<forall>q\<in>set rs. \<forall>t. st_lastProbedAt (status_of v (r_node q)) = Some t \<longrightarrow> 0 < t + StaleProbeThreshold - now \<longrightarrow>
       0 < foldl step (step a r) rs \<and> foldl step (step a r) rs \<le> t + StaleProbeThreshold - now"
    using Cons.IH [OF s(1)] by blast+
  have "0 < foldl step (step a r) rs \<and> foldl step (step a r) rs \<le> t + StaleProbeThreshold - now"
    if "st_lastProbedAt (status_of v (r_node r)) = Some t" "0 < t + StaleProbeThreshold - now" for t
    using s(3) that IH(2) by (meson order_trans)
  moreover have "0 < a \<longrightarrow> 0 < foldl step (step a r) rs \<and> foldl step (step a r) rs \<le> a"
    using s(2) IH(2) by (meson order_trans)
  ultimately show ?case using IH(1,3) by simp
qed simp

text \<open>
  C40. The phase reconciler's timer: between a pass and the delay it asks for, and for good where
  it asks for none, the phase computed from the same status does not change, provided no probe
  reaches its age limit at the very instant of the pass.
\<close>

theorem nextProbeExpiry_sound:
  assumes "now \<le> t" and "nextProbeExpiry v now = 0 \<or> t \<le> now + nextProbeExpiry v now"
    and "\<And>r p. r \<in> set (DiskfulReplicas (spec v)) \<Longrightarrow> st_lastProbedAt (status_of v (r_node r)) = Some p \<Longrightarrow>
      now - p \<noteq> StaleProbeThreshold"
  shows "computePhaseAt v t = computePhaseAt v now"
proof (rule computePhaseAt_stable)
  fix r assume r: "r \<in> set (DiskfulReplicas (spec v))"
  show "probeStale t (status_of v (r_node r)) = probeStale now (status_of v (r_node r))"
  proof (cases "st_lastProbedAt (status_of v (r_node r))")
    case (Some p)
    show ?thesis
    proof (cases "0 < p + StaleProbeThreshold - now")
      case True
      then have "0 < nextProbeExpiry v now \<and> nextProbeExpiry v now \<le> p + StaleProbeThreshold - now"
        using nextProbeExpiry_bound [where a = 0 and v = v and now = now and rs = "DiskfulReplicas (spec v)"] r Some
        unfolding nextProbeExpiry_def by blast
      then show ?thesis using assms(1,2) Some True by (auto simp: probeStale_def)
    next
      case False
      then show ?thesis using assms(1) assms(3) [OF r Some] Some by (auto simp: probeStale_def)
    qed
  qed (simp add: probeStale_def)
qed

definition probed_volume :: "gotime \<Rightarrow> MiroirVolume" where
  "probed_volume p = (example_volume ((example_spec [example_replica ''a'' 0 ''10.0.0.1'', example_replica ''b'' 1 ''10.0.0.2''] [])
     \<lparr>sizeBytes := 512\<rparr>) [])
     \<lparr>status := (status (example_volume (example_spec [] []) []))\<lparr>perNode := map (\<lambda>n. (n, zero_status\<lparr>st_deviceCreated := True,
        st_sizeBytes := 512, st_diskState := DiskUpToDate, st_connected := True, st_lastProbedAt := Some p\<rparr>)) [''a'', ''b'']\<rparr>\<rparr>"

theorem nextProbeExpiry_sound_witness:
  "computePhaseAt (probed_volume 1000) 7000 = computePhaseAt (probed_volume 1000) 5000"
proof -
  have s: "StaleProbeThreshold = 600000000000" by (simp add: StaleProbeThreshold_def deepCheckInterval_def)
  have p: "st_lastProbedAt (status_of (probed_volume 1000) (r_node r)) = Some 1000"
    if "r \<in> set (DiskfulReplicas (spec (probed_volume 1000)))" for r
    using that by (auto simp: probed_volume_def example_volume_def example_spec_def DiskfulReplicas_def example_replica_def
        bare_replica_def status_of_def)
  have n: "nextProbeExpiry (probed_volume 1000) 5000 = 599999996000"
    by (simp add: nextProbeExpiry_def s probed_volume_def example_volume_def example_spec_def DiskfulReplicas_def
        example_replica_def bare_replica_def status_of_def)
  show ?thesis
    by (rule nextProbeExpiry_sound) (use n p s in auto)
qed

text \<open>
  At the very instant a probe reaches its age limit the timer is lost: the phase is still
  \<open>Ready\<close>, the pass asks for no further one, and a nanosecond later the same status is
  \<open>Degraded\<close>.
\<close>

theorem nextProbeExpiry_boundary:
  "fst (computePhaseAt (probed_volume 1000) (1000 + StaleProbeThreshold)) = VolumeReady \<and>
   nextProbeExpiry (probed_volume 1000) (1000 + StaleProbeThreshold) = 0 \<and>
   fst (computePhaseAt (probed_volume 1000) (1000 + StaleProbeThreshold + 1)) = VolumeDegraded"
  by (simp add: nextProbeExpiry_def computePhaseAt_def readyReplica_def realizedReplica_def failedReplica_def
      probeStale_def probed_volume_def example_volume_def example_spec_def DiskfulReplicas_def
      example_replica_def bare_replica_def status_of_def Let_def zero_status_def)


end
