(* ===== verification/Csi_Controller.thy ===== *)
theory Csi_Controller
  imports Csi_Restore Phase
begin

text \<open>
  The RPCs of the CSI controller service in \<^verbatim>\<open>internal/csi/controller.go\<close>. An RPC reads the
  API server's answers from a \<open>CsiEnv\<close> and yields the writes it issues, in order, with its answer.
  A polling wait is a list of the observations made before its deadline; running out of them is
  the deadline. Error texts, events and log lines are left out.
\<close>

section \<open>Requests, answers, writes\<close>

record CreateVolumeRequest =
  q_name :: string
  q_caps :: "VolumeCapability list"
  q_required :: int
  q_limit :: int
  q_params :: "string gomap"
  q_source :: ContentSource
  q_topology :: "TopologyRequirement option"

record CsiVolume =
  cv_id :: string
  cv_capacity :: int
  cv_topology :: "string gomap list option"
  cv_source :: ContentSource

record CsiEnv =
  getVolume :: "string \<Rightarrow> api_error + MiroirVolume"
  readVolume :: "string \<Rightarrow> api_error + MiroirVolume"
  getSnapshot :: "string \<Rightarrow> api_error + MiroirSnapshot"
  readSnapshot :: "string \<Rightarrow> api_error + MiroirSnapshot"
  readMiroirNode :: "string \<Rightarrow> api_error + MiroirNode"
  getKNode :: "string \<Rightarrow> api_error + KNode"
  listVolumes :: "api_error + MiroirVolume list"
  listSnapshots :: "api_error + MiroirSnapshot list"
  restoreNodes :: "nodemap rpc"
  placeNodemap :: "nodemap rpc"
  statsOf :: "node_stats rpc"
  randomBytes :: "int list option"
  createVolume :: "MiroirVolume \<Rightarrow> api_error option"
  patchVolume :: "MiroirVolume \<Rightarrow> api_error option"
  patchVolumeStatus :: "MiroirVolume \<Rightarrow> api_error option"
  createSnapshot :: "MiroirSnapshot \<Rightarrow> api_error option"
  deleteVolume :: "string \<Rightarrow> api_error option"
  deleteSnapshot :: "string \<Rightarrow> api_error option"
  volumePolls :: "(gotime \<times> (api_error + MiroirVolume)) list"
  snapshotPolls :: "(api_error + MiroirSnapshot) list"
  timeoutVolume :: "api_error + MiroirVolume"
  timeoutNow :: gotime

datatype csi_write = CreateVolumeW MiroirVolume | PatchVolumeW MiroirVolume | PatchStatusW MiroirVolume
  | CreateSnapshotW MiroirSnapshot | DeleteVolumeW string | DeleteSnapshotW string

type_synonym 'a csi = "csi_write list \<times> 'a rpc"

text \<open>Running one step after another: the writes add up, the first error ends the RPC.\<close>

definition andThen :: "'a csi \<Rightarrow> ('a \<Rightarrow> 'b csi) \<Rightarrow> 'b csi" where
  "andThen m f = (case m of (ws, Inl e) \<Rightarrow> (ws, Inl e) | (ws, Inr x) \<Rightarrow> (case f x of (ws', r) \<Rightarrow> (ws @ ws', r)))"

definition answer :: "'a rpc \<Rightarrow> 'a csi" where
  "answer r = ([], r)"

section \<open>Volumes and snapshots by name\<close>

definition requireVolume :: "CsiEnv \<Rightarrow> string \<Rightarrow> MiroirVolume rpc" where
  "requireVolume env volumeID =
     (if volumeID = '''' then Inl InvalidArgument
      else case getVolume env volumeID of
             Inl e \<Rightarrow> Inl (if e = NotFound then NotFoundCode else Internal)
           | Inr v \<Rightarrow> Inr v)"

definition volumeKind :: string where
  "volumeKind = ''MiroirVolume''"

definition apiGroup :: string where
  "apiGroup = ''miroir.home-operations.com''"

definition isCloneSourceSnapshot :: "MiroirSnapshot \<Rightarrow> bool" where
  "isCloneSourceSnapshot snap \<longleftrightarrow> has_prefix (sn_name snap) CloneSnapshotPrefix \<and>
     list_ex (\<lambda>(kind, apiVersion). kind = volumeKind \<and> has_prefix apiVersion apiGroup) (sn_ownerKinds snap)"

definition newSnapshot :: "string \<Rightarrow> MiroirVolume \<Rightarrow> string \<Rightarrow> bool \<Rightarrow> MiroirSnapshot" where
  "newSnapshot name vol grp owned =
     \<lparr>sn_name = name, sn_uid = '''',
      sn_ownerKinds = (if owned then [(volumeKind, apiGroup @ ''/v1alpha1'')] else []),
      sn_volumeName = vname vol, sn_group = grp, sn_readyToUse = False, sn_perNode = [], sn_sizeBytes = 0,
      sn_sourceFormatted = False, sn_ioSuspended = False, sn_suspendedAt = None,
      sn_finalizers = map (\<lambda>rep. FinalizerPrefix @ r_node rep) (replicas (spec vol)),
      sn_deletionTimestamp = None\<rparr>"

definition ensureSnapshot :: "CsiEnv \<Rightarrow> string \<Rightarrow> MiroirVolume \<Rightarrow> string \<Rightarrow> bool \<Rightarrow> MiroirSnapshot csi" where
  "ensureSnapshot env name vol grp owned =
     (let snap = newSnapshot name vol grp owned
      in ([CreateSnapshotW snap],
          case createSnapshot env snap of
            None \<Rightarrow> Inr snap
          | Some Invalid \<Rightarrow> Inl InvalidArgument
          | Some AlreadyExists \<Rightarrow>
              (case readSnapshot env name of
                 Inl e \<Rightarrow> Inl Unavailable
               | Inr existing \<Rightarrow>
                   if sn_volumeName existing \<noteq> vname vol \<or> sn_group existing \<noteq> grp then Inl AlreadyExistsCode
                   else if owned \<and> \<not> isCloneSourceSnapshot existing then Inl AlreadyExistsCode
                   else Inr existing)
          | Some _ \<Rightarrow> Inl Internal))"

section \<open>Polling\<close>

fun waitSnapshotReady :: "(api_error + MiroirSnapshot) list \<Rightarrow> unit rpc" where
  "waitSnapshotReady [] = Inl DeadlineExceeded"
| "waitSnapshotReady (Inl NotFound # os) = waitSnapshotReady os"
| "waitSnapshotReady (Inl e # os) = Inl DeadlineExceeded"
| "waitSnapshotReady (Inr s # os) = (if sn_readyToUse s then Inr () else waitSnapshotReady os)"

definition unreachableReplicaNodes :: "MiroirVolume \<Rightarrow> gotime \<Rightarrow> string list" where
  "unreachableReplicaNodes v now =
     map r_node (filter (\<lambda>rep. \<not> r_diskless rep \<and>
       (case map_of (perNode (status v)) (r_node rep) of
          None \<Rightarrow> True
        | Some ps \<Rightarrow> (case st_lastProbedAt ps of Some t \<Rightarrow> StaleProbeThreshold < now - t | None \<Rightarrow> False)))
       (replicas (spec v)))"

datatype poll_end = PollDone | PollFailed | PollExpired

fun pollReady ::
    "(gotime \<times> (api_error + MiroirVolume)) list \<Rightarrow> MiroirVolume option \<Rightarrow> poll_end \<times> MiroirVolume option" where
  "pollReady [] polled = (PollExpired, polled)"
| "pollReady ((now, Inl NotFound) # os) polled = pollReady os polled"
| "pollReady ((now, Inl e) # os) polled = (PollExpired, polled)"
| "pollReady ((now, Inr v) # os) polled =
     (case phase (status v) of
        VolumeReady \<Rightarrow> (PollDone, Some v)
      | VolumeDegraded \<Rightarrow> if unreachableReplicaNodes v now = [] then (PollDone, Some v) else pollReady os (Some v)
      | VolumeFailed \<Rightarrow> (PollFailed, Some v)
      | _ \<Rightarrow> pollReady os (Some v))"

definition agentHeartbeatFresh :: "CsiEnv \<Rightarrow> string \<Rightarrow> gotime \<Rightarrow> bool" where
  "agentHeartbeatFresh env node now =
     (case readMiroirNode env node of
        Inl e \<Rightarrow> False
      | Inr mn \<Rightarrow> (case mns_observedAt (mn_status mn) of None \<Rightarrow> False | Some t \<Rightarrow> now - t \<le> StatsStaleAfter))"

definition unreachableCondition :: "string list \<Rightarrow> Condition" where
  "unreachableCondition ns = \<lparr>cond_type = ConditionNodeUnreachable, cond_status = True, cond_reason = ''AgentUnreachable'',
     cond_message = ''Node agent unreachable on '' @ join '', '' ns @ '' (no status received within 10m0s)''\<rparr>"

definition checkNodeUnreachable :: "CsiEnv \<Rightarrow> MiroirVolume \<Rightarrow> csi_write list \<times> string list" where
  "checkNodeUnreachable env v =
     (let now = timeoutNow env;
          unreachable = filter (\<lambda>n. \<not> (map_of (perNode (status v)) n = None \<and> agentHeartbeatFresh env n now))
            (unreachableReplicaNodes v now)
      in if unreachable = [] then ([], [])
         else ([PatchStatusW (v\<lparr>status := (status v)\<lparr>conditions :=
                 setCondition (conditions (status v)) (unreachableCondition unreachable)\<rparr>\<rparr>)], unreachable))"

definition clearNodeUnreachableCondition :: "MiroirVolume \<Rightarrow> csi_write list" where
  "clearNodeUnreachableCondition v =
     (if isConditionTrue (conditions (status v)) ConditionNodeUnreachable
      then [PatchStatusW (v\<lparr>status := (status v)\<lparr>conditions := setCondition (conditions (status v)) reachableCondition\<rparr>\<rparr>)]
      else [])"

definition waitReady :: "CsiEnv \<Rightarrow> unit csi" where
  "waitReady env =
     (case pollReady (volumePolls env) None of
        (PollDone, polled) \<Rightarrow>
          (case polled of None \<Rightarrow> [] | Some v \<Rightarrow> clearNodeUnreachableCondition v, Inr ())
      | (PollFailed, _) \<Rightarrow> ([], Inl ResourceExhausted)
      | (PollExpired, polled) \<Rightarrow>
          (case (case polled of Some v \<Rightarrow> Inr v | None \<Rightarrow> timeoutVolume env) of
             Inl e \<Rightarrow> ([], Inl DeadlineExceeded)
           | Inr v \<Rightarrow>
               (case checkNodeUnreachable env v of
                  (ws, ns) \<Rightarrow> (ws, Inl (if ns \<noteq> [] then FailedPrecondition else DeadlineExceeded)))))"

section \<open>Clones\<close>

definition ensureCloneSnapshot :: "CsiEnv \<Rightarrow> string \<Rightarrow> string \<Rightarrow> int \<Rightarrow> string \<Rightarrow> string csi" where
  "ensureCloneSnapshot env srcVolID cloneVolID want pool =
     (let snapName = CloneSnapshotPrefix @ cloneVolID;
          taken = (case getVolume env cloneVolID of
              Inr existing \<Rightarrow>
                (case source (spec existing) of
                   Some s \<Rightarrow> if src_snapshotName s \<noteq> snapName then Some AlreadyExistsCode else None
                 | None \<Rightarrow> Some AlreadyExistsCode)
            | Inl e \<Rightarrow> if e = NotFound then None else Some Internal)
      in case taken of
           Some e \<Rightarrow> answer (Inl e)
         | None \<Rightarrow>
        (case getVolume env srcVolID of
           Inl e \<Rightarrow> answer (Inl (if e = NotFound then NotFoundCode else Internal))
         | Inr srcVol \<Rightarrow>
             if want < sizeBytes (spec srcVol) then answer (Inl InvalidArgument)
             else if list_ex (\<lambda>rep. PoolOrDefault (r_pool rep) \<noteq> pool) (DiskfulReplicas (spec srcVol))
             then answer (Inl InvalidArgument)
             else andThen (ensureSnapshot env snapName srcVol '''' True)
                    (\<lambda>_. case waitSnapshotReady (snapshotPolls env) of
                           Inl e \<Rightarrow> answer (Inl e) | Inr _ \<Rightarrow> answer (Inr snapName))))"

definition resolveContentSource ::
    "CsiEnv \<Rightarrow> CreateVolumeRequest \<Rightarrow> int \<Rightarrow> string \<Rightarrow> (string \<times> string) csi" where
  "resolveContentSource env req want pool =
     (case contentSourceIDs (q_source req) of
        Inl e \<Rightarrow> answer (Inl e)
      | Inr (snapID, cloneSrc) \<Rightarrow>
          if cloneSrc = '''' then answer (Inr (snapID, cloneSrc))
          else andThen (ensureCloneSnapshot env cloneSrc (q_name req) want pool) (\<lambda>s. answer (Inr (s, cloneSrc))))"

section \<open>CreateVolume\<close>

definition paramPVCName :: string where
  "paramPVCName = ''csi.storage.k8s.io/pvc/name''"

definition paramPVCNamespace :: string where
  "paramPVCNamespace = ''csi.storage.k8s.io/pvc/namespace''"

definition handleCreateErr ::
    "CsiEnv \<Rightarrow> api_error option \<Rightarrow> MiroirVolume \<Rightarrow> int \<Rightarrow> nat \<Rightarrow> QuorumPolicy \<Rightarrow> string \<Rightarrow> string \<Rightarrow> MiroirVolume csi" where
  "handleCreateErr env err vol want reps quorum sourceSnapshot pool =
     (case err of
        None \<Rightarrow> answer (Inr vol)
      | Some e \<Rightarrow>
          if e \<noteq> AlreadyExists then answer (Inl Internal)
          else case readVolume env (vname vol) of
            Inl _ \<Rightarrow> answer (Inl Unavailable)
          | Inr existing \<Rightarrow>
              (let existingSource = (case source (spec existing) of Some s \<Rightarrow> src_snapshotName s | None \<Rightarrow> '''');
                   existingPool = (case FirstDiskfulReplica (spec existing) of
                      Some first \<Rightarrow> PoolOrDefault (r_pool first) | None \<Rightarrow> pool)
               in if alignSector (sizeBytes (spec existing)) \<noteq> want \<or> length (DiskfulReplicas (spec existing)) \<noteq> reps \<or>
                     (1 < reps \<and> quorumPolicy (spec existing) \<noteq> quorum) \<or> existingSource \<noteq> sourceSnapshot \<or>
                     existingPool \<noteq> pool \<or> (export (spec existing) \<noteq> None) \<noteq> (export (spec vol) \<noteq> None)
                  then answer (Inl AlreadyExistsCode)
                  else if sizeBytes (spec existing) < want then
                    (let grown = existing\<lparr>spec := (spec existing)\<lparr>sizeBytes := want\<rparr>\<rparr>
                     in ([PatchVolumeW grown],
                         case patchVolume env grown of Some _ \<Rightarrow> Inl Unavailable | None \<Rightarrow> Inr grown))
                  else answer (Inr existing)))"

text \<open>\<^verbatim>\<open>stage.MarkFormatted\<close> and the controller's fresh read before it.\<close>

definition MarkFormatted :: "(MiroirVolume \<Rightarrow> api_error option) \<Rightarrow> MiroirVolume \<Rightarrow> MiroirVolume list \<times> api_error option" where
  "MarkFormatted patch v =
     (if formatted (status v) then ([], None)
      else (let v' = v\<lparr>status := (status v)\<lparr>formatted := True\<rparr>\<rparr> in ([v'], patch v')))"

definition markVolumeFormatted :: "CsiEnv \<Rightarrow> string \<Rightarrow> csi_write list \<times> api_error option" where
  "markVolumeFormatted env name =
     (case readVolume env name of
        Inl e \<Rightarrow> ([], Some e)
      | Inr v \<Rightarrow> (case MarkFormatted (patchVolumeStatus env) v of (ws, r) \<Rightarrow> (map PatchStatusW ws, r)))"

definition newVolume ::
    "CreateVolumeRequest \<Rightarrow> classParams \<Rightarrow> int \<Rightarrow> VolumeSource option \<Rightarrow> Replica list \<Rightarrow> DRBDSpec option \<Rightarrow> MiroirVolume" where
  "newVolume req params want src placed drbdSpec =
     (let shared = isShared (q_caps req)
      in \<lparr>vname = q_name req,
          labels = (case PVCRefLabels (str_at (q_params req) paramPVCName) (str_at (q_params req) paramPVCNamespace) of
             Some ls \<Rightarrow> ls | None \<Rightarrow> []),
          finalizers = map (\<lambda>r. FinalizerPrefix @ r_node r) placed,
          deletionTimestamp = None,
          spec = \<lparr>sizeBytes = want, replicas = placed,
             quorumPolicy = (if 1 < cp_replicas params then cp_quorum params else QuorumUnset),
             drbd = drbdSpec, source = src, allowRemoteAccess = (cp_remoteAccess params \<and> \<not> shared), clients = [],
             export = (if shared then Some \<lparr>e_fsType = exportFSType (q_caps req)\<rparr> else None)\<rparr>,
          status = \<lparr>phase = PhaseUnset, readyReplicas = '''', perNode = [], exportAddress = None, formatted = False,
             activated = False, conditions = []\<rparr>\<rparr>)"

text \<open>The critical section: one listing, placement, port, object.\<close>

definition buildVolume ::
    "Controller \<Rightarrow> CsiEnv \<Rightarrow> CreateVolumeRequest \<Rightarrow> classParams \<Rightarrow> int \<Rightarrow> string \<Rightarrow> VolumeSource option \<Rightarrow>
     Replica list \<Rightarrow> MiroirVolume rpc" where
  "buildVolume c env req params want snapID src srcReplicas =
     (case (if snapID = '''' \<or> 1 < cp_replicas params
            then (case listVolumes env of Inl _ \<Rightarrow> Inl Internal | Inr vs \<Rightarrow> Inr vs) else Inr []) of
        Inl e \<Rightarrow> Inl e
      | Inr vols \<Rightarrow>
     (case placeVolume c (placeNodemap env) (statsOf env) (getKNode env) (q_topology req) snapID srcReplicas
             (nat (cp_replicas params)) want (q_name req) vols (cp_remoteAccess params) (cp_pool params)
             (cp_quorum params) of
        Inl e \<Rightarrow> Inl e
      | Inr placed \<Rightarrow>
          if 1 < cp_replicas params then
            (case allocateDRBD c (randomBytes env) vols of
               Inl e \<Rightarrow> Inl e
             | Inr d \<Rightarrow> Inr (newVolume req params want src placed
                 (Some (d\<lparr>d_bitmapGranularityBytes := cp_bitmapGranularity params\<rparr>))))
          else Inr (newVolume req params want src placed None)))"

definition finishCreate ::
    "CsiEnv \<Rightarrow> bool \<Rightarrow> MiroirVolume \<Rightarrow> unit csi" where
  "finishCreate env sourceFormatted vol =
     andThen
       (if sourceFormatted then
          (case markVolumeFormatted env (vname vol) of (ws, Some _) \<Rightarrow> (ws, Inl Unavailable) | (ws, None) \<Rightarrow> (ws, Inr ()))
        else answer (Inr ()))
       (\<lambda>_. waitReady env)"

text \<open>From the resolved content source on: the snapshot's layout, the critical section, the wait.\<close>

definition provisionVolume ::
    "Controller \<Rightarrow> CsiEnv \<Rightarrow> CreateVolumeRequest \<Rightarrow> classParams \<Rightarrow> int \<Rightarrow> string \<Rightarrow> string \<Rightarrow> CsiVolume csi" where
  "provisionVolume c env req params want snapID cloneSrc =
     (case resolveSource (getSnapshot env) (getVolume env) (restoreNodes env) (getKNode env) snapID want
             (nat (cp_replicas params)) (cp_pool params) of
        Inl e \<Rightarrow> answer (Inl e)
      | Inr (src, srcReplicas, sourceFormatted) \<Rightarrow>
     (case buildVolume c env req params want snapID src srcReplicas of
        Inl e \<Rightarrow> answer (Inl e)
      | Inr vol \<Rightarrow>
          andThen ([CreateVolumeW vol], Inr ()) (\<lambda>_.
          andThen (handleCreateErr env (createVolume env vol) vol want (nat (cp_replicas params)) (cp_quorum params)
              (case src of Some s \<Rightarrow> src_snapshotName s | None \<Rightarrow> '''') (cp_pool params)) (\<lambda>vol.
          andThen (finishCreate env sourceFormatted vol) (\<lambda>_.
            answer (Inr \<lparr>cv_id = vname vol, cv_capacity = want, cv_topology = accessibleTopology vol,
              cv_source = responseContentSource cloneSrc src\<rparr>))))))"

definition CreateVolume :: "Controller \<Rightarrow> CsiEnv \<Rightarrow> CreateVolumeRequest \<Rightarrow> CsiVolume csi" where
  "CreateVolume c env req =
     (if q_name req = '''' then answer (Inl InvalidArgument)
      else
     (case validateCapabilities (q_caps req) of
        Inl e \<Rightarrow> answer (Inl e)
      | Inr _ \<Rightarrow>
     (case requestSize (q_required req) (q_limit req) of
        Inl e \<Rightarrow> answer (Inl e)
      | Inr want \<Rightarrow>
     (case parseClassParams (q_params req) of
        Inl e \<Rightarrow> answer (Inl e)
      | Inr params \<Rightarrow>
     (case validateSharedRequest (RWXEnabled c) (isShared (q_caps req)) (cp_replicas params) (cp_quorum params) of
        Inl e \<Rightarrow> answer (Inl e)
      | Inr _ \<Rightarrow>
          andThen (resolveContentSource env req want (cp_pool params))
            (\<lambda>(snapID, cloneSrc). provisionVolume c env req params want snapID cloneSrc))))))"

section \<open>Deletion\<close>

definition ignoresNotFound :: "api_error option \<Rightarrow> bool" where
  "ignoresNotFound e \<longleftrightarrow> e = None \<or> e = Some NotFound"

definition DeleteVolume :: "CsiEnv \<Rightarrow> string \<Rightarrow> unit csi" where
  "DeleteVolume env volumeID =
     (if volumeID = '''' then answer (Inl InvalidArgument)
      else if \<not> ignoresNotFound (deleteVolume env volumeID) then ([DeleteVolumeW volumeID], Inl Internal)
      else
        (let snapName = CloneSnapshotPrefix @ volumeID
         in case getSnapshot env snapName of
              Inl e \<Rightarrow> ([DeleteVolumeW volumeID], if e = NotFound then Inr () else Inl Internal)
            | Inr snap \<Rightarrow>
                if isCloneSourceSnapshot snap then
                  ([DeleteVolumeW volumeID, DeleteSnapshotW (sn_name snap)],
                   if ignoresNotFound (deleteSnapshot env (sn_name snap)) then Inr () else Inl Internal)
                else ([DeleteVolumeW volumeID], Inr ())))"

definition DeleteSnapshot :: "CsiEnv \<Rightarrow> string \<Rightarrow> unit csi" where
  "DeleteSnapshot env snapID =
     (if snapID = '''' then answer (Inl InvalidArgument)
      else
        (case (case getSnapshot env snapID of
                 Inr existing \<Rightarrow> if sn_group existing \<noteq> '''' then Some FailedPrecondition else None
               | Inl e \<Rightarrow> if e = NotFound then None else Some Internal) of
           Some e \<Rightarrow> answer (Inl e)
         | None \<Rightarrow> ([DeleteSnapshotW snapID],
             if ignoresNotFound (deleteSnapshot env snapID) then Inr () else Inl Internal)))"

section \<open>Snapshots\<close>

record CsiSnapshot =
  cs_id :: string
  cs_source :: string
  cs_size :: int
  cs_ready :: bool
  cs_group :: string

definition csiSnapshot :: "MiroirSnapshot \<Rightarrow> int \<Rightarrow> CsiSnapshot" where
  "csiSnapshot snap b = \<lparr>cs_id = sn_name snap, cs_source = sn_volumeName snap, cs_size = b,
     cs_ready = sn_readyToUse snap, cs_group = sn_group snap\<rparr>"

definition CreateSnapshot :: "CsiEnv \<Rightarrow> string \<Rightarrow> string \<Rightarrow> CsiSnapshot csi" where
  "CreateSnapshot env name sourceVolume =
     (if name = '''' \<or> sourceVolume = '''' then answer (Inl InvalidArgument)
      else if has_prefix name CloneSnapshotPrefix then answer (Inl InvalidArgument)
      else
        (case requireVolume env sourceVolume of
           Inl e \<Rightarrow> answer (Inl e)
         | Inr vol \<Rightarrow>
             andThen (ensureSnapshot env name vol '''' False) (\<lambda>snap.
               answer (Inr (csiSnapshot snap
                 (if sn_sizeBytes snap \<noteq> 0 then sn_sizeBytes snap else sizeBytes (spec vol)))))))"

definition ListSnapshots :: "CsiEnv \<Rightarrow> string \<Rightarrow> string \<Rightarrow> CsiSnapshot list rpc" where
  "ListSnapshots env snapID sourceVolume =
     (case listSnapshots env of
        Inl e \<Rightarrow> Inl Internal
      | Inr items \<Rightarrow>
          Inr (map (\<lambda>s. csiSnapshot s (sn_sizeBytes s))
            (filter (\<lambda>s. \<not> isCloneSourceSnapshot s \<and> (snapID = '''' \<or> sn_name s = snapID) \<and>
               (sourceVolume = '''' \<or> sn_volumeName s = sourceVolume)) items)))"

section \<open>Expansion, validation, listing\<close>

definition expandWithinHeadroom :: "Controller \<Rightarrow> CsiEnv \<Rightarrow> MiroirVolume \<Rightarrow> int \<Rightarrow> unit rpc" where
  "expandWithinHeadroom c env vol newSize =
     (case statsOf env of
        Inl e \<Rightarrow> Inl e
      | Inr stats \<Rightarrow>
     (case listVolumes env of
        Inl e \<Rightarrow> Inl Internal
      | Inr vols \<Rightarrow>
          (let prov = provisionedPerPool vols (vname vol);
               pool = (case FirstDiskfulReplica (spec vol) of
                  Some first \<Rightarrow> PoolOrDefault (r_pool first) | None \<Rightarrow> PoolOrDefault '''')
           in if list_ex (\<lambda>rep. \<not> r_diskless rep \<and> overcommitted c stats prov pool newSize (r_node rep))
                   (replicas (spec vol))
              then Inl ResourceExhausted else Inr ())))"

fun pollGrown :: "int \<Rightarrow> (gotime \<times> (api_error + MiroirVolume)) list \<Rightarrow> bool" where
  "pollGrown newSize [] = False"
| "pollGrown newSize ((now, Inl NotFound) # os) = pollGrown newSize os"
| "pollGrown newSize ((now, Inl e) # os) = False"
| "pollGrown newSize ((now, Inr v) # os) =
     (if list_ex (\<lambda>rep. \<not> r_diskless rep \<and> st_sizeBytes (status_of v (r_node rep)) < newSize) (replicas (spec v))
      then pollGrown newSize os else True)"

definition ControllerExpandVolume ::
    "Controller \<Rightarrow> CsiEnv \<Rightarrow> string \<Rightarrow> int \<Rightarrow> bool \<Rightarrow> (int \<times> bool) csi" where
  "ControllerExpandVolume c env volumeID required block =
     (if volumeID = '''' then answer (Inl InvalidArgument)
      else if required = 0 then answer (Inl InvalidArgument)
      else
        (let newSize = alignSector required
         in case requireVolume env volumeID of
              Inl e \<Rightarrow> answer (Inl e)
            | Inr vol \<Rightarrow>
                andThen
                  (if sizeBytes (spec vol) < newSize then
                     (case expandWithinHeadroom c env vol newSize of
                        Inl e \<Rightarrow> answer (Inl e)
                      | Inr _ \<Rightarrow>
                          (let grown = vol\<lparr>spec := (spec vol)\<lparr>sizeBytes := newSize\<rparr>\<rparr>
                           in ([PatchVolumeW grown],
                               case patchVolume env grown of Some _ \<Rightarrow> Inl Internal | None \<Rightarrow> Inr grown)))
                   else answer (Inr vol))
                  (\<lambda>vol'. if pollGrown newSize (volumePolls env)
                          then answer (Inr (max newSize (sizeBytes (spec vol')), \<not> block \<and> export (spec vol') = None))
                          else answer (Inl DeadlineExceeded))))"

datatype validation = Confirmed "VolumeCapability list" | Rejected

definition ValidateVolumeCapabilities :: "CsiEnv \<Rightarrow> string \<Rightarrow> VolumeCapability list \<Rightarrow> validation rpc" where
  "ValidateVolumeCapabilities env volumeID caps =
     (if volumeID = '''' then Inl InvalidArgument
      else if caps = [] then Inl InvalidArgument
      else
        (case requireVolume env volumeID of
           Inl e \<Rightarrow> Inl e
         | Inr vol \<Rightarrow>
             (case validateCapabilities caps of
                Inl _ \<Rightarrow> Inr Rejected
              | Inr _ \<Rightarrow> if isShared caps \<noteq> (export (spec vol) \<noteq> None) then Inr Rejected else Inr (Confirmed caps))))"

definition sortedVolumes :: "CsiEnv \<Rightarrow> MiroirVolume list rpc" where
  "sortedVolumes env = (case listVolumes env of Inl _ \<Rightarrow> Inl Internal | Inr vs \<Rightarrow> Inr (sort_key vname vs))"

definition csiVolumeOf :: "MiroirVolume \<Rightarrow> CsiVolume" where
  "csiVolumeOf v = \<lparr>cv_id = vname v, cv_capacity = sizeBytes (spec v), cv_topology = accessibleTopology v,
     cv_source = NoSource\<rparr>"

definition ListVolumes :: "CsiEnv \<Rightarrow> string \<Rightarrow> int \<Rightarrow> (CsiVolume list \<times> string) rpc" where
  "ListVolumes env startingToken maxEntries =
     (case sortedVolumes env of
        Inl e \<Rightarrow> Inl e
      | Inr vols \<Rightarrow> listPage (map csiVolumeOf vols) startingToken maxEntries False)"

definition ControllerGetVolume :: "CsiEnv \<Rightarrow> string \<Rightarrow> CsiVolume rpc" where
  "ControllerGetVolume env volumeID =
     (case requireVolume env volumeID of Inl e \<Rightarrow> Inl e | Inr v \<Rightarrow> Inr (csiVolumeOf v))"

section \<open>Which objects an RPC creates\<close>

lemma andThen_writes:
  "w \<in> set (fst (andThen m f)) \<longleftrightarrow> w \<in> set (fst m) \<or> (\<exists>x. snd m = Inr x \<and> w \<in> set (fst (f x)))"
  by (cases m) (auto simp: andThen_def split: sum.splits prod.splits)

lemma andThen_result: "snd (andThen m f) = (case snd m of Inl e \<Rightarrow> Inl e | Inr x \<Rightarrow> snd (f x))"
  by (cases m) (auto simp: andThen_def split: sum.splits prod.splits)

lemma answer_writes [simp]: "fst (answer r) = []" and answer_result [simp]: "snd (answer r) = r"
  by (simp_all add: answer_def)

definition creates_volume :: "csi_write \<Rightarrow> bool" where
  "creates_volume w \<longleftrightarrow> (case w of CreateVolumeW _ \<Rightarrow> True | _ \<Rightarrow> False)"

lemma resolveContentSource_writes: "w \<in> set (fst (resolveContentSource env req want pool)) \<Longrightarrow> \<not> creates_volume w"
  by (auto simp: resolveContentSource_def ensureCloneSnapshot_def ensureSnapshot_def creates_volume_def Let_def
      andThen_writes split: sum.splits option.splits if_splits)

lemma handleCreateErr_writes: "w \<in> set (fst (handleCreateErr env err vol want reps q s p)) \<Longrightarrow> \<not> creates_volume w"
  by (auto simp: handleCreateErr_def creates_volume_def Let_def split: sum.splits option.splits if_splits)

lemma finishCreate_writes: "w \<in> set (fst (finishCreate env b vol)) \<Longrightarrow> \<not> creates_volume w"
  by (auto simp: finishCreate_def waitReady_def markVolumeFormatted_def MarkFormatted_def checkNodeUnreachable_def
      clearNodeUnreachableCondition_def creates_volume_def Let_def andThen_writes
      split: sum.splits option.splits if_splits prod.splits poll_end.splits)

lemma provisionVolume_creates:
  assumes "CreateVolumeW v \<in> set (fst (provisionVolume c env req params want snapID cloneSrc))"
  obtains src srcReplicas fmt where
    "resolveSource (getSnapshot env) (getVolume env) (restoreNodes env) (getKNode env) snapID want
       (nat (cp_replicas params)) (cp_pool params) = Inr (src, srcReplicas, fmt)"
    "buildVolume c env req params want snapID src srcReplicas = Inr v"
proof -
  have no: "CreateVolumeW v \<notin> set (fst (handleCreateErr env err vol w reps q s p))"
    "CreateVolumeW v \<notin> set (fst (finishCreate env b vol))" for err vol w reps q s p b
    using handleCreateErr_writes finishCreate_writes by (fastforce simp: creates_volume_def)+
  show thesis
    using assms that by (auto simp: provisionVolume_def andThen_writes no split: sum.split_asm prod.split_asm)
qed

lemma CreateVolume_creates:
  assumes "CreateVolumeW v \<in> set (fst (CreateVolume c env req))"
  obtains want params snapID cloneSrc where
    "q_name req \<noteq> ''''" "requestSize (q_required req) (q_limit req) = Inr want"
    "parseClassParams (q_params req) = Inr params"
    "validateSharedRequest (RWXEnabled c) (isShared (q_caps req)) (cp_replicas params) (cp_quorum params) = Inr ()"
    "CreateVolumeW v \<in> set (fst (provisionVolume c env req params want snapID cloneSrc))"
proof -
  have no: "CreateVolumeW v \<notin> set (fst (resolveContentSource env req w p))" for w p
    using resolveContentSource_writes by (fastforce simp: creates_volume_def)
  show thesis
    using assms that
    by (auto simp: CreateVolume_def andThen_writes no split: if_split_asm sum.split_asm prod.split_asm)
qed
section \<open>Accepted requests\<close>

text \<open>The power-of-two test of \<^verbatim>\<open>parseBitmapGranularity\<close>.\<close>

lemma and_pred_power_of_two:
  fixes n :: int
  assumes "0 < n" and "and n (n - 1) = 0"
  shows "\<exists>k. n = 2 ^ k"
  using assms
proof (induction "nat n" arbitrary: n rule: less_induct)
  case less
  show ?case
  proof (cases "even n")
    case True
    then obtain m where m: "n = 2 * m" by blast
    have "(2 * m - 1) div 2 = m - 1" by simp
    then have "and m (m - 1) = 0" using less.prems(2) by (simp add: m and_int_rec [of "2 * m"])
    then obtain k where "m = 2 ^ k" using less.hyps [of m] less.prems(1) by (auto simp: m)
    then have "n = 2 ^ Suc k" by (simp add: m)
    then show ?thesis by blast
  next
    case False
    then obtain m where m: "n = 2 * m + 1" by (blast elim: oddE)
    then have "2 * m = 0" using less.prems(2) by (simp add: and_int_rec [of "2 * m + 1"])
    then have "n = 2 ^ 0" by (simp add: m)
    then show ?thesis by blast
  qed
qed

lemma granularity_listed:
  fixes g :: int
  assumes "4096 \<le> g" and "g \<le> 2 ^ 20" and "and g (g - 1) = 0"
  shows "g \<in> set [0, 4096, 8192, 16384, 32768, 65536, 131072, 262144, 524288, 1048576]"
proof -
  obtain k where k: "g = 2 ^ k" using and_pred_power_of_two [OF _ assms(3)] assms(1) by auto
  have "12 \<le> k" using assms(1) power_le_imp_le_exp [of "2 :: int" 12 k] by (simp add: k)
  moreover have "k \<le> 20" using assms(2) power_le_imp_le_exp [of "2 :: int" k 20] by (simp add: k)
  ultimately have "k \<in> {12..20}" by simp
  moreover have "{12..20} = {12, 13, 14, 15, 16, 17, 18, 19, 20 :: nat}" by auto
  ultimately show ?thesis by (auto simp: k)
qed

lemma parseClassParams_ok:
  assumes "parseClassParams raw = Inr params"
  shows "1 \<le> cp_replicas params \<and> cp_replicas params \<le> 3 \<and> cp_quorum params \<in> {QuorumFreeze, QuorumLastManStanding} \<and>
    cp_pool params = PoolOrDefault (str_at raw ParamPool) \<and>
    cp_bitmapGranularity params \<in> set [0, 4096, 8192, 16384, 32768, 65536, 131072, 262144, 524288, 1048576]"
proof -
  obtain reps quorum remote gran where p: "parseReplicas raw = Inr reps" "parseQuorum raw = Inr quorum"
    "parseBitmapGranularity raw reps = Inr gran"
    "params = \<lparr>cp_replicas = reps, cp_quorum = quorum, cp_remoteAccess = remote, cp_bitmapGranularity = gran,
       cp_pool = parsePool raw\<rparr>"
    using assms by (auto simp: parseClassParams_def split: sum.split_asm)
  have "1 \<le> reps \<and> reps \<le> 3" using p(1) by (auto simp: parseReplicas_def split: option.split_asm if_split_asm)
  moreover have "quorum \<in> {QuorumFreeze, QuorumLastManStanding}"
    using p(2) by (auto simp: parseQuorum_def Let_def split: if_split_asm)
  moreover have "gran = 0 \<or> (4096 \<le> gran \<and> gran \<le> 2 ^ 20 \<and> and gran (gran - 1) = 0)"
    using p(3) by (auto simp: parseBitmapGranularity_def Let_def not_less split: option.split_asm if_split_asm)
  then have "gran \<in> set [0, 4096, 8192, 16384, 32768, 65536, 131072, 262144, 524288, 1048576]"
    using granularity_listed by auto
  ultimately show ?thesis by (simp add: p(4) parsePool_def)
qed

lemma requestSize_pos:
  assumes "0 \<le> required" and "required \<le> 2 ^ 63 - 512" and "requestSize required limitBytes = Inr s"
  shows "1 \<le> s"
proof -
  have cut: "and limitBytes (not (511 :: int)) = limitBytes - limitBytes mod 512"
    using and_not_mask_int [of limitBytes 9] by simp
  have floor: "0 \<le> limitBytes - limitBytes mod 512 \<and> limitBytes - limitBytes mod 512 \<le> limitBytes" if "0 < limitBytes"
    using that by (simp add: minus_mod_eq_mult_div)
  obtain n where n: "s = alignSector n" "0 < n" "n \<le> 2 ^ 63 - 512"
    using assms floor cut
    by (auto simp: requestSize_def Let_def sectorSize_def split: if_split_asm)
  then show ?thesis using alignSector_bounds [of n] by simp
qed

section \<open>Admission of a new volume\<close>

lemma completed_ids_new: "clients s = [] \<Longrightarrow> completed_ids (spec_legs s) = leg_ids (replicas s)"
  by (simp add: completed_ids_def spec_legs_def leg_ids_def filter_map comp_def)

lemma cel_pool_eq: "cel_pool r = PoolOrDefault (r_pool r)"
  by (simp add: cel_pool_def PoolOrDefault_def DefaultPoolName_def)

lemma layout_admitted:
  assumes "volume_layout (replicas s) target pool" and "clients s = []" and "1 \<le> sizeBytes s"
    and "1 < target \<longleftrightarrow> has_drbd s" and "\<forall>d. drbd s = Some d \<longrightarrow> schema_drbd d"
    and "\<forall>e. export s = Some e \<longrightarrow> schema_export e \<and> quorumPolicy s = QuorumFreeze"
  shows "admit_create s \<and> ids_ok s"
proof (cases "has_drbd s")
  case True
  then have "legs_ok (replicas s) (clients s)" "frame_ok s"
    using assms by (auto simp: legs_ok_def frame_ok_def volume_layout_def diskfulOf_def pools_agree_def cel_pool_eq
        split: option.splits)
  then show ?thesis
    using assms(1,2) True
    by (auto simp: admit_create_drbd ids_ok_def completed_ids_new volume_layout_def list_all_iff)
next
  case False
  then have "target = 1" using assms(1,4) by (simp add: volume_layout_def)
  then have "length (replicas s) = 1" using assms(1) by (simp add: volume_layout_def)
  then obtain r where r: "replicas s = [r]" by (auto simp: length_Suc_conv)
  then have "\<not> r_diskless r" using assms(1) by (simp add: volume_layout_def)
  then show ?thesis
    using assms False r
    by (auto simp: admit_create_def admit_rule_defs rule_replica_nodes_unique_iff rule_client_nodes_unique_iff
        ids_ok_def completed_ids_new volume_layout_def list_all_iff has_drbd_def split: option.splits)
qed
lemma allocateDRBD_fresh:
  assumes "allocateDRBD c random vols = Inr d" and "\<And>raw. random = Some raw \<Longrightarrow> length raw = 24"
    and "1024 \<le> portBase c" and "portBase c + int (length vols) \<le> 65535"
  shows "d_port d \<notin> set (usedPorts vols) \<and> d_bitmapGranularityBytes d = 0 \<and> schema_drbd d"
proof -
  have "length (usedPorts vols) \<le> length vols" by (simp add: usedPorts_def List.map_filter_def)
  then show ?thesis
    using assms ports.pick_unused [of "portBase c" "(c, vols)"] ports.pick_ge [of "portBase c" "(c, vols)"]
      ports.pick_bound [of "portBase c" "(c, vols)"]
    by (auto simp: allocateDRBD_def length_EncodeToString schema_drbd_def split: option.split_asm)
qed

text \<open>
  What the controller may rely on at a fresh volume: stored volumes were admitted by the API
  server and keep the node-id invariant, the folded topology names its nodes once, the random
  source fills its buffer, and the port range has room for all volumes.
\<close>

definition api_sound :: "Controller \<Rightarrow> CsiEnv \<Rightarrow> bool" where
  "api_sound c env \<longleftrightarrow>
     (\<forall>n v. getVolume env n = Inr v \<longrightarrow> admit_create (spec v) \<and> ids_ok (spec v) \<and> '''' \<notin> r_node ` set (replicas (spec v))) \<and>
     (\<forall>nodes. placeNodemap env = Inr nodes \<longrightarrow> gomap_ok nodes \<and> '''' \<notin> fst ` set nodes) \<and>
     (\<forall>raw. randomBytes env = Some raw \<longrightarrow> length raw = 24) \<and>
     (\<forall>vols. listVolumes env = Inr vols \<longrightarrow> 1024 \<le> portBase c \<and> portBase c + int (length vols) \<le> 65535)"

lemma buildVolume_cases:
  assumes "buildVolume c env req params want snapID src srcReplicas = Inr v"
  obtains placed drbdSpec vols where "v = newVolume req params want src placed drbdSpec"
    "placeVolume c (placeNodemap env) (statsOf env) (getKNode env) (q_topology req) snapID srcReplicas
       (nat (cp_replicas params)) want (q_name req) vols (cp_remoteAccess params) (cp_pool params) (cp_quorum params)
       = Inr placed"
    "1 < cp_replicas params \<longleftrightarrow> drbdSpec \<noteq> None"
    "\<forall>d. drbdSpec = Some d \<longrightarrow> listVolumes env = Inr vols \<and>
       (\<exists>d'. allocateDRBD c (randomBytes env) vols = Inr d' \<and> d = d'\<lparr>d_bitmapGranularityBytes := cp_bitmapGranularity params\<rparr>)"
  using assms that by (auto simp: buildVolume_def split: if_split_asm sum.split_asm)

lemma buildVolume_admitted:
  assumes "buildVolume c env req params want snapID src srcReplicas = Inr v" and "api_sound c env"
    and "parseClassParams (q_params req) = Inr params" and "1 \<le> want"
    and "validateSharedRequest (RWXEnabled c) (isShared (q_caps req)) (cp_replicas params) (cp_quorum params) = Inr ()"
    and "isShared (q_caps req) \<Longrightarrow> exportFSType (q_caps req) \<in> {''ext4'', ''xfs''}"
    and "snapID \<noteq> '''' \<longrightarrow> volume_layout srcReplicas (length (diskfulOf srcReplicas)) (cp_pool params)"
  shows "admit_create (spec v) \<and> ids_ok (spec v) \<and> int (length (DiskfulReplicas (spec v))) = cp_replicas params \<and>
    (\<forall>d vols. drbd (spec v) = Some d \<longrightarrow> listVolumes env = Inr vols \<longrightarrow> d_port d \<notin> set (usedPorts vols)) \<and>
    (\<forall>r\<in>set (DiskfulReplicas (spec v)). PoolOrDefault (r_pool r) = cp_pool params)"
proof -
  obtain vols placed drbdSpec where v: "v = newVolume req params want src placed drbdSpec"
    and pl: "placeVolume c (placeNodemap env) (statsOf env) (getKNode env) (q_topology req) snapID srcReplicas
       (nat (cp_replicas params)) want (q_name req) vols (cp_remoteAccess params) (cp_pool params) (cp_quorum params)
       = Inr placed"
    and repl: "1 < cp_replicas params \<longleftrightarrow> drbdSpec \<noteq> None"
    and d': "\<forall>d. drbdSpec = Some d \<longrightarrow> listVolumes env = Inr vols \<and> (\<exists>d'. allocateDRBD c (randomBytes env) vols = Inr d' \<and>
        d = d'\<lparr>d_bitmapGranularityBytes := cp_bitmapGranularity params\<rparr>)"
    using assms(1) by (rule buildVolume_cases) (rule that)
  note d = d' [rule_format]
  note p = parseClassParams_ok [OF assms(3)]
  have pool: "cp_pool params = PoolOrDefault (str_at (q_params req) ParamPool)" using p by blast
  have cnt: "0 < nat (cp_replicas params)" "nat (cp_replicas params) \<le> 3" using p by auto
  have nodes: "gomap_ok nodes \<and> '''' \<notin> fst ` set nodes" if "placeNodemap env = Inr nodes" for nodes
    using assms(2) that by (simp add: api_sound_def)
  have lay: "volume_layout placed (nat (cp_replicas params)) (cp_pool params)"
    unfolding pool using assms(7) pool by (intro placeVolume_layout [OF pl [unfolded pool] nodes _ cnt]) auto
  have fresh: "d_port d \<notin> set (usedPorts vols) \<and> schema_drbd d" if w: "drbdSpec = Some d" for d
  proof -
    obtain d' where "allocateDRBD c (randomBytes env) vols = Inr d'"
      and e: "d = d'\<lparr>d_bitmapGranularityBytes := cp_bitmapGranularity params\<rparr>" using d [OF w] by blast
    then have "d_port d' \<notin> set (usedPorts vols) \<and> schema_drbd d'"
      using allocateDRBD_fresh [of c "randomBytes env" vols d'] assms(2) d [OF w] by (simp add: api_sound_def)
    then show ?thesis using p by (simp add: e schema_drbd_def)
  qed
  have spec: "replicas (spec v) = placed" "clients (spec v) = []" "sizeBytes (spec v) = want" "drbd (spec v) = drbdSpec"
    by (simp_all add: v newVolume_def Let_def)
  have "quorumPolicy (spec v) = QuorumFreeze \<and> schema_export e" if "export (spec v) = Some e" for e
    using that assms(5,6) p
    by (auto simp: v newVolume_def Let_def validateSharedRequest_def schema_export_def split: if_split_asm)
  then have "admit_create (spec v) \<and> ids_ok (spec v)"
    using layout_admitted [of "spec v" "nat (cp_replicas params)" "cp_pool params"] lay fresh repl assms(4)
    by (auto simp: spec has_drbd_def)
  then show ?thesis
    using lay fresh d p by (auto simp: spec DiskfulReplicas_def volume_layout_def diskfulOf_def)
qed

definition example_csi_env :: CsiEnv where
  "example_csi_env = \<lparr>getVolume = (\<lambda>_. Inl NotFound), readVolume = (\<lambda>_. Inl NotFound), getSnapshot = (\<lambda>_. Inl NotFound),
     readSnapshot = (\<lambda>_. Inl NotFound), readMiroirNode = (\<lambda>_. Inl NotFound), getKNode = (\<lambda>_. Inl NotFound),
     listVolumes = Inr [], listSnapshots = Inr [], restoreNodes = Inr example_nodes, placeNodemap = Inr example_nodes,
     statsOf = Inr example_stats, randomBytes = Some (replicate 24 171), createVolume = (\<lambda>_. None),
     patchVolume = (\<lambda>_. None), patchVolumeStatus = (\<lambda>_. None), createSnapshot = (\<lambda>_. None),
     deleteVolume = (\<lambda>_. None), deleteSnapshot = (\<lambda>_. None), volumePolls = [(7000, Inr (probed_volume 1000))],
     snapshotPolls = [], timeoutVolume = Inl NotFound, timeoutNow = 0\<rparr>"

definition example_request :: CreateVolumeRequest where
  "example_request = \<lparr>q_name = ''pvc-9'', q_caps = [\<lparr>cap_mode = SINGLE_NODE_WRITER, cap_type = Mount ''xfs''\<rparr>],
     q_required = 500, q_limit = 0, q_params = example_class, q_source = NoSource, q_topology = example_topology_req\<rparr>"


section \<open>What success means\<close>

lemma pollReady_done:
  assumes "pollReady os p = (PollDone, q)"
  shows "\<exists>now v. q = Some v \<and> (now, Inr v) \<in> set os \<and>
    (phase (status v) = VolumeReady \<or> phase (status v) = VolumeDegraded \<and> unreachableReplicaNodes v now = [])"
  using assms
proof (induction os p rule: pollReady.induct)
  case (4 now v os polled)
  then show ?case by (cases "phase (status v)") (auto split: if_split_asm)
qed auto

lemma waitReady_Inr:
  assumes "snd (waitReady env) = Inr u"
  shows "\<exists>now v. (now, Inr v) \<in> set (volumePolls env) \<and>
    (phase (status v) = VolumeReady \<or> phase (status v) = VolumeDegraded \<and> unreachableReplicaNodes v now = [])"
proof -
  obtain e q where r: "pollReady (volumePolls env) None = (e, q)" by (cases "pollReady (volumePolls env) None")
  with assms have "e = PollDone"
    by (cases e) (auto simp: waitReady_def split: sum.split_asm prod.split_asm option.split_asm)
  then show ?thesis using pollReady_done [of "volumePolls env" None q] r by blast
qed

lemma set_andThen:
  "set (fst (andThen m f)) = set (fst m) \<union> (case snd m of Inl _ \<Rightarrow> {} | Inr x \<Rightarrow> set (fst (f x)))"
  by (cases m) (auto simp: andThen_def split: sum.splits prod.splits)

lemma handleCreateErr_Inr:
  assumes "snd (handleCreateErr env err vol want reps q s p) = Inr v" and "\<And>n w. readVolume env n = Inr w \<Longrightarrow> vname w = n"
  shows "vname v = vname vol"
  using assms by (auto simp: handleCreateErr_def Let_def split: option.split_asm if_split_asm sum.split_asm)

lemma finishCreate_marks:
  assumes "snd (finishCreate env True vol) = Inr u"
  shows "\<exists>v. readVolume env (vname vol) = Inr v \<and>
    (formatted (status v) \<or> PatchStatusW (v\<lparr>status := (status v)\<lparr>formatted := True\<rparr>\<rparr>) \<in> set (fst (finishCreate env True vol)))"
  using assms
  by (auto simp: finishCreate_def andThen_result andThen_writes markVolumeFormatted_def MarkFormatted_def Let_def
      split: sum.split_asm option.split_asm if_split_asm prod.split_asm)

lemma provisionVolume_Inr:
  assumes "snd (provisionVolume c env req params want snapID cloneSrc) = Inr r"
  obtains src srcReplicas fmt built vol where
    "resolveSource (getSnapshot env) (getVolume env) (restoreNodes env) (getKNode env) snapID want
       (nat (cp_replicas params)) (cp_pool params) = Inr (src, srcReplicas, fmt)"
    "buildVolume c env req params want snapID src srcReplicas = Inr built"
    "snd (handleCreateErr env (createVolume env built) built want (nat (cp_replicas params)) (cp_quorum params)
       (case src of Some s \<Rightarrow> src_snapshotName s | None \<Rightarrow> '''') (cp_pool params)) = Inr vol"
    "snd (finishCreate env fmt vol) = Inr ()" "cv_id r = vname vol" "cv_capacity r = want"
    "set (fst (finishCreate env fmt vol)) \<subseteq> set (fst (provisionVolume c env req params want snapID cloneSrc))"
    "CreateVolumeW built \<in> set (fst (provisionVolume c env req params want snapID cloneSrc))"
  using assms that
  by (auto simp: provisionVolume_def andThen_result set_andThen split: sum.split_asm prod.split_asm) blast

lemma CreateVolume_Inr:
  assumes "snd (CreateVolume c env req) = Inr r"
  obtains want params snapID cloneSrc where "requestSize (q_required req) (q_limit req) = Inr want"
    "snd (resolveContentSource env req want (cp_pool params)) = Inr (snapID, cloneSrc)"
    "snd (provisionVolume c env req params want snapID cloneSrc) = Inr r"
    "set (fst (provisionVolume c env req params want snapID cloneSrc)) \<subseteq> set (fst (CreateVolume c env req))"
  using assms that
  by (auto simp: CreateVolume_def andThen_result set_andThen split: if_split_asm sum.split_asm prod.split_asm)

lemma resolveSource_formatted:
  assumes "resolveSource getSnap getVol nodesRead getNode snapID want reps pool = Inr (src, srcReplicas, fmt)"
    and "getSnap snapID = Inr snap" and "sn_sourceFormatted snap" and "snapID \<noteq> ''''"
  shows "fmt"
  using assms by (auto simp: resolveSource_def snapshotSource_def split: sum.split_asm if_split_asm prod.split_asm)

lemma snapshot_content_source:
  assumes "snd (resolveContentSource env req want pool) = Inr (snapID, cloneSrc)" and "q_source req = SnapshotSource s"
  shows "snapID = s \<and> s \<noteq> ''''"
  using assms by (auto simp: resolveContentSource_def contentSourceIDs_def split: if_split_asm sum.split_asm)



section \<open>Retries\<close>

lemma alignSector_id:
  assumes "n mod 512 = 0" and "0 \<le> n" and "n < 2 ^ 63 - 512"
  shows "alignSector n = n"
proof -
  have b: "n \<le> alignSector n" "alignSector n < n + 512" "alignSector n mod 512 = 0"
    using alignSector_bounds [of n] assms(2,3) by simp_all
  then have "alignSector n \<le> n" using aligned_least [OF b(3) assms(1) b(2)] by simp
  then show ?thesis using b(1) by simp
qed

lemma requestSize_aligned: "requestSize required limitBytes = Inr s \<Longrightarrow> s mod 512 = 0"
  by (auto simp: requestSize_def Let_def alignSector_eq mod_diff_eq [symmetric] split: sum.split_asm if_split_asm)

lemma buildVolume_fields:
  assumes "buildVolume c env req params want snapID src srcReplicas = Inr v"
  shows "vname v = q_name req \<and> sizeBytes (spec v) = want \<and> source (spec v) = src \<and>
    (export (spec v) \<noteq> None) = isShared (q_caps req) \<and>
    quorumPolicy (spec v) = (if 1 < cp_replicas params then cp_quorum params else QuorumUnset)"
  using assms by (rule buildVolume_cases) (simp add: newVolume_def Let_def)

lemma grown_admitted:
  assumes "admit_create s" and "sizeBytes s \<le> n"
  shows "admit_update s (s\<lparr>sizeBytes := n\<rparr>)"
proof -
  have u: "distinct (map r_node (replicas s))" using assms(1) by (simp add: admit_create_def rule_replica_nodes_unique_iff)
  have "r = o'" if "r \<in> set (replicas s)" "o' \<in> set (replicas s)" "r_node o' = r_node r" for r o'
    using u that by (simp add: distinct_map inj_on_def)
  then have "rule_no_disk_loss s (s\<lparr>sizeBytes := n\<rparr>)" "rule_pool_immutable s (s\<lparr>sizeBytes := n\<rparr>)"
    by (auto simp: rule_no_disk_loss_def rule_pool_immutable_def list_all_iff)
  moreover have "admit_create (s\<lparr>sizeBytes := n\<rparr>)"
    using assms by (simp add: admit_create_def admit_rule_defs has_drbd_def rule_replica_nodes_unique_def
        rule_client_nodes_unique_def)
  ultimately show ?thesis
    using assms(2) by (auto simp: admit_update_def admit_transition_def rule_drbd_kept_def rule_export_kept_def
        rule_port_immutable_def rule_source_immutable_def rule_fsType_immutable_def rule_size_monotone_def has_drbd_def
        split: option.splits)
qed


definition unaligned_volume :: MiroirVolume where
  "unaligned_volume = example_volume ((example_spec [example_replica ''a'' 0 ''10.0.0.1'', example_replica ''b'' 1 ''10.0.0.2''] [])
     \<lparr>sizeBytes := 500\<rparr>) []"




section \<open>Deletion, expansion, listing\<close>

text \<open>
  C23. Deletions reach only what they may: DeleteVolume deletes no snapshot but the volume's own
  clone source, recognised by its name and its owner reference; DeleteSnapshot never deletes a
  member of a group; and a snapshot made for a user never looks like a clone source.
\<close>

theorem snapshot_deletion_safe:
  assumes "\<And>n s. getSnapshot env n = Inr s \<Longrightarrow> sn_name s = n"
  shows "(\<forall>n. DeleteSnapshotW n \<in> set (fst (DeleteVolume env volumeID)) \<longrightarrow>
      n = CloneSnapshotPrefix @ volumeID \<and>
      (\<exists>s a. getSnapshot env n = Inr s \<and> (volumeKind, a) \<in> set (sn_ownerKinds s) \<and> has_prefix a apiGroup)) \<and>
    (\<forall>n. DeleteSnapshotW n \<in> set (fst (DeleteSnapshot env snapID)) \<longrightarrow>
      n = snapID \<and> n \<noteq> '''' \<and> (\<forall>s. getSnapshot env n = Inr s \<longrightarrow> sn_group s = '''')) \<and>
    (\<forall>s. CreateSnapshotW s \<in> set (fst (CreateSnapshot env name sourceVolume)) \<longrightarrow>
      sn_name s = name \<and> sn_group s = '''' \<and> sn_ownerKinds s = [] \<and> \<not> isCloneSourceSnapshot s)"
proof (intro conjI allI impI)
  fix n assume "DeleteSnapshotW n \<in> set (fst (DeleteVolume env volumeID))"
  then have "\<exists>s. getSnapshot env (CloneSnapshotPrefix @ volumeID) = Inr s \<and> isCloneSourceSnapshot s \<and> n = sn_name s"
    by (auto simp: DeleteVolume_def Let_def split: if_split_asm sum.split_asm)
  then show "n = CloneSnapshotPrefix @ volumeID"
    "\<exists>s a. getSnapshot env n = Inr s \<and> (volumeKind, a) \<in> set (sn_ownerKinds s) \<and> has_prefix a apiGroup"
    using assms by (auto simp: isCloneSourceSnapshot_def list_ex_iff)
qed (auto simp: DeleteSnapshot_def CreateSnapshot_def ensureSnapshot_def newSnapshot_def Let_def andThen_writes
    isCloneSourceSnapshot_def split: if_split_asm sum.split_asm option.split_asm)

theorem snapshot_deletion_safe_witness:
  "DeleteSnapshotW ''user-1'' \<notin> set (fst (DeleteVolume example_csi_env ''pvc-9'')) \<and>
   DeleteSnapshotW ''user-1'' \<in> set (fst (DeleteSnapshot example_csi_env ''user-1''))"
proof -
  have n: "sn_name s = n" if "getSnapshot example_csi_env n = Inr s" for n s using that by (simp add: example_csi_env_def)
  have "DeleteSnapshotW ''user-1'' \<in> set (fst (DeleteSnapshot example_csi_env ''user-1''))" by code_simp
  then show ?thesis
    using snapshot_deletion_safe [of example_csi_env "''pvc-9''", OF n, THEN conjunct1] by (auto simp: CloneSnapshotPrefix_def)
qed

lemma pollGrown_sound:
  assumes "pollGrown n os"
  shows "\<exists>now v. (now, Inr v) \<in> set os \<and> (\<forall>r\<in>set (DiskfulReplicas (spec v)). n \<le> st_sizeBytes (status_of v (r_node r)))"
  using assms
proof (induction n os rule: pollGrown.induct)
  case (4 n now v os)
  show ?case
  proof (cases "list_ex (\<lambda>rep. \<not> r_diskless rep \<and> st_sizeBytes (status_of v (r_node rep)) < n) (replicas (spec v))")
    case True
    then show ?thesis using 4 by auto
  next
    case False
    then have "\<forall>r\<in>set (DiskfulReplicas (spec v)). n \<le> st_sizeBytes (status_of v (r_node r))"
      by (auto simp: list_ex_iff DiskfulReplicas_def not_less)
    then show ?thesis by auto
  qed
qed auto



text \<open>A client that follows the tokens of a listing from the first page on.\<close>

fun fetchAll :: "nat \<Rightarrow> (string \<Rightarrow> ('a list \<times> string) rpc) \<Rightarrow> string \<Rightarrow> 'a list option" where
  "fetchAll 0 fetch token = None"
| "fetchAll (Suc n) fetch token =
     (case fetch token of
        Inl e \<Rightarrow> None
      | Inr (xs, nxt) \<Rightarrow> if nxt = '''' then Some xs else map_option ((@) xs) (fetchAll n fetch nxt))"

lemma itoa_nonempty: "itoa x \<noteq> []"
  by (simp add: itoa_def show_nat_nonempty)

lemma listPage_at:
  assumes "start < length xs" and "length xs < 2 ^ 63"
  shows "\<exists>stop. start < stop \<and> stop \<le> length xs \<and> listPage xs (if start = 0 then '''' else itoa (int start)) n clamp =
     Inr (take (stop - start) (drop start xs), if stop < length xs then itoa (int stop) else '''')"
proof -
  let ?stop = "if n \<le> 0 then length xs else min (start + nat n) (length xs)"
  have "atoi (itoa (int start)) = Some (int start)"
    unfolding atoi_def using assms by (intro parse_int_itoa) auto
  then have "listPage xs (if start = 0 then '''' else itoa (int start)) n clamp =
      Inr (take (?stop - start) (drop start xs), if ?stop < length xs then itoa (int ?stop) else '''')"
    using assms(1) by (auto simp: listPage_def page_def Let_def itoa_nonempty)
  moreover have "start < ?stop \<and> ?stop \<le> length xs" using assms(1) by auto
  ultimately show ?thesis by blast
qed

lemma fetchAll_from:
  assumes "start < length xs" and "length xs < 2 ^ 63" and "length xs - start \<le> k"
  shows "fetchAll k (\<lambda>t. listPage xs t n clamp) (if start = 0 then '''' else itoa (int start)) = Some (drop start xs)"
  using assms
proof (induction k arbitrary: start)
  case (Suc k)
  obtain stop where s: "start < stop" "stop \<le> length xs"
    "listPage xs (if start = 0 then '''' else itoa (int start)) n clamp =
     Inr (take (stop - start) (drop start xs), if stop < length xs then itoa (int stop) else '''')"
    using listPage_at [OF Suc.prems(1,2)] by blast
  have d: "take (stop - start) (drop start xs) @ drop stop xs = drop start xs"
    using s(1,2) append_take_drop_id [of "stop - start" "drop start xs"] by simp
  show ?case
  proof (cases "stop < length xs")
    case True
    then have "fetchAll k (\<lambda>t. listPage xs t n clamp) (itoa (int stop)) = Some (drop stop xs)"
      using Suc.IH [of stop] Suc.prems s(1) by (simp split: if_split_asm)
    then show ?thesis using s(3) True d by (simp add: itoa_nonempty)
  next
    case False
    then show ?thesis using s d by simp
  qed
qed simp

text \<open>
  C29. Paging loses and repeats nothing: a client that follows the tokens, with any page size,
  receives every volume once, in name order, within as many pages as there are volumes, and the
  last page carries no token.
\<close>

theorem ListVolumes_pages:
  assumes "listVolumes env = Inr vs" and "length vs < 2 ^ 63"
  shows "fetchAll (Suc (length vs)) (\<lambda>token. ListVolumes env token maxEntries) '''' =
    Some (map csiVolumeOf (sort_key vname vs)) \<and> set (sort_key vname vs) = set vs \<and>
    sorted (map vname (sort_key vname vs))"
proof (cases "vs = []")
  case True
  then show ?thesis
    using assms(1) by (simp add: ListVolumes_def sortedVolumes_def listPage_def page_def Let_def)
next
  case False
  let ?xs = "map csiVolumeOf (sort_key vname vs)"
  have "ListVolumes env token maxEntries = listPage ?xs token maxEntries False" for token
    using assms(1) by (simp add: ListVolumes_def sortedVolumes_def)
  then show ?thesis
    using fetchAll_from [of 0 ?xs "Suc (length vs)" maxEntries False] False assms(2) by simp
qed

theorem ListVolumes_pages_witness:
  "fetchAll 3 (\<lambda>token. ListVolumes (example_csi_env\<lparr>listVolumes := Inr [unaligned_volume, unaligned_volume\<lparr>vname := ''pvc-0''\<rparr>]\<rparr>)
       token 1) '''' = Some (map csiVolumeOf [unaligned_volume\<lparr>vname := ''pvc-0''\<rparr>, unaligned_volume])"
proof -
  let ?vs = "[unaligned_volume, unaligned_volume\<lparr>vname := ''pvc-0''\<rparr>]"
  have three: "Suc (length ?vs) = 3" by simp
  have "vname unaligned_volume = ''pvc-1''" "\<not> ''pvc-1'' \<le> ''pvc-0''" "''pvc-0'' \<le> ''pvc-1''" by code_simp+
  then have s: "sort_key vname ?vs = [unaligned_volume\<lparr>vname := ''pvc-0''\<rparr>, unaligned_volume]" by simp
  have l: "listVolumes (example_csi_env\<lparr>listVolumes := Inr ?vs\<rparr>) = Inr ?vs" "length ?vs < 2 ^ 63" by simp_all
  show ?thesis using ListVolumes_pages [OF l, of 1, THEN conjunct1] unfolding three s .
qed

text \<open>
  C31. Two components judge reachability and never fight over it: the phase reconciler clears the
  NodeUnreachable condition on exactly the volumes for which the CSI controller finds no
  unreachable diskful node, and a timed-out wait sets it only where the phase reconciler would not
  clear it at that instant.
\<close>

theorem unreachable_agrees:
  "(replicasReachable v now \<longleftrightarrow> unreachableReplicaNodes v now = []) \<and>
   (fst (checkNodeUnreachable env v) \<noteq> [] \<longrightarrow> \<not> replicasReachable v (timeoutNow env) \<and>
      (\<forall>w. fst (checkNodeUnreachable env v) = [PatchStatusW w] \<longrightarrow> isConditionTrue (conditions (status w)) ConditionNodeUnreachable))"
proof -
  have e: "replicasReachable v t \<longleftrightarrow> unreachableReplicaNodes v t = []" for t
    by (auto simp: replicasReachable_def unreachableReplicaNodes_def filter_empty_conv DiskfulReplicas_def list_all_iff
        probeStale_def split: option.splits)
  moreover have "unreachableReplicaNodes v (timeoutNow env) \<noteq> []" if "fst (checkNodeUnreachable env v) \<noteq> []"
    using that by (auto simp: checkNodeUnreachable_def Let_def split: if_split_asm)
  moreover have "isConditionTrue (conditions (status w)) ConditionNodeUnreachable"
    if "fst (checkNodeUnreachable env v) = [PatchStatusW w]" for w
    using that by (auto simp: checkNodeUnreachable_def Let_def isConditionTrue_def find_setCondition
        unreachableCondition_def split: if_split_asm)
  ultimately show ?thesis by blast
qed

theorem unreachable_agrees_witness:
  "unreachableReplicaNodes (probed_volume 1000) (1001 + StaleProbeThreshold) = [''a'', ''b''] \<and>
   \<not> replicasReachable (probed_volume 1000) (1001 + StaleProbeThreshold)"
proof -
  have "unreachableReplicaNodes (probed_volume 1000) (1001 + StaleProbeThreshold) = [''a'', ''b'']" by code_simp
  then show ?thesis using unreachable_agrees [of "probed_volume 1000" "1001 + StaleProbeThreshold"] by simp
qed

end
