(* ===== verification/Agent_Common.thy ===== *)
theory Agent_Common
  imports Phase
begin

text \<open>
  What the reconcilers of the node agent share: the local leg of a volume, the health of its
  diskful peers as the kernel reports it, the pool of the local leg (\<^verbatim>\<open>internal/agent/pools.go\<close>),
  the coordinator election and the check for another live snapshot round
  (\<^verbatim>\<open>internal/agent/snapshot.go\<close>), and the release of a node's finalizer.
\<close>

section \<open>Legs\<close>

definition replicaOn :: "MiroirVolume \<Rightarrow> string \<Rightarrow> bool" where
  "replicaOn v node = list_ex (\<lambda>rep. r_node rep = node) (replicas (spec v))"

definition diskfulOn :: "MiroirVolume \<Rightarrow> string \<Rightarrow> bool" where
  "diskfulOn v node = list_ex (\<lambda>rep. r_node rep = node) (DiskfulReplicas (spec v))"

definition disklessOn :: "MiroirVolume \<Rightarrow> string \<Rightarrow> bool" where
  "disklessOn v node \<longleftrightarrow> ClientForNode (spec v) node \<noteq> None \<or>
     list_ex (\<lambda>rep. r_node rep = node \<and> r_diskless rep) (replicas (spec v))"

definition disklessNodes :: "MiroirVolume \<Rightarrow> string list" where
  "disklessNodes v = map r_node (filter r_diskless (replicas (spec v))) @ map c_node (clients (spec v))"

definition volumePoolOn :: "MiroirVolume \<Rightarrow> string \<Rightarrow> string" where
  "volumePoolOn v node =
     (case find (\<lambda>rep. r_node rep = node) (replicas (spec v)) of
        Some rep \<Rightarrow> PoolOrDefault (r_pool rep)
      | None \<Rightarrow> PoolOrDefault (st_pool (status_of v node)))"

section \<open>Peers\<close>

definition peer_leg :: "string \<Rightarrow> Replica \<Rightarrow> bool" where
  "peer_leg self rep \<longleftrightarrow> \<not> (r_node rep = self \<or> r_diskless rep \<or> r_address rep = '''')"

definition diskfulPeersConnected :: "Status \<Rightarrow> MiroirVolume \<Rightarrow> string \<Rightarrow> bool" where
  "diskfulPeersConnected st v self =
     list_all (\<lambda>rep. peer_leg self rep \<longrightarrow> peer_connected st (r_nodeID rep)) (replicas (spec v))"

definition diskfulPeersUpToDate :: "Status \<Rightarrow> MiroirVolume \<Rightarrow> string \<Rightarrow> bool" where
  "diskfulPeersUpToDate st v self =
     list_all (\<lambda>rep. peer_leg self rep \<longrightarrow> peer_disk st (r_nodeID rep) = DiskUpToDate) (replicas (spec v))"

section \<open>Election\<close>

text \<open>The walk over the diskful replicas in spec order when no node is Primary.\<close>

fun electWalk :: "string \<Rightarrow> Status \<Rightarrow> Replica list \<Rightarrow> bool" where
  "electWalk self st [] = False"
| "electWalk self st (rep # rs) =
     (if r_diskless rep then electWalk self st rs
      else if r_node rep = self then True
      else if r_address rep = '''' \<or> peer_connected st (r_nodeID rep) then False
      else electWalk self st rs)"

definition coordinatorFor :: "string \<Rightarrow> MiroirVolume \<Rightarrow> Status \<Rightarrow> bool" where
  "coordinatorFor self v st =
     (if s_primary st then True else if s_peerPrimary st then False else electWalk self st (replicas (spec v)))"

section \<open>Rounds of other snapshots\<close>

definition sameSnapshotRound :: "MiroirSnapshot \<Rightarrow> MiroirSnapshot \<Rightarrow> bool" where
  "sameSnapshotRound observed live \<longleftrightarrow> sn_uid observed \<noteq> '''' \<and> sn_uid live \<noteq> '''' \<and> sn_uid observed = sn_uid live \<and>
     sn_suspendedAt observed \<noteq> None \<and> sn_suspendedAt live \<noteq> None \<and> sn_suspendedAt observed = sn_suspendedAt live"

text \<open>\<^verbatim>\<open>volumeRoundActive\<close>: \<^const>\<open>Inl\<close> is a failed read. Go visits the groups in any order; the list
  stands for one.\<close>

fun groupRoundActive :: "(string \<Rightarrow> api_error + MiroirSnapshotGroup) \<Rightarrow> string list \<Rightarrow> api_error + bool" where
  "groupRoundActive getGroup [] = Inr False"
| "groupRoundActive getGroup (name # names) =
     (case getGroup name of
        Inl e \<Rightarrow> if e = NotFound then groupRoundActive getGroup names else Inl e
      | Inr g \<Rightarrow> if g_ioSuspended g then Inr True else groupRoundActive getGroup names)"

definition volumeRoundActive ::
    "api_error + MiroirSnapshot list \<Rightarrow> (string \<Rightarrow> api_error + MiroirSnapshotGroup) \<Rightarrow> string \<Rightarrow> string \<Rightarrow> string \<Rightarrow>
     api_error + bool" where
  "volumeRoundActive listed getGroup volume ownSnap ownGroup =
     (case listed of
        Inl e \<Rightarrow> Inl e
      | Inr items \<Rightarrow>
          (let here = filter (\<lambda>s. sn_volumeName s = volume) items
           in if list_ex (\<lambda>s. sn_group s = '''' \<and> sn_name s \<noteq> ownSnap \<and> sn_ioSuspended s) here then Inr True
              else groupRoundActive getGroup
                (remdups (map sn_group (filter (\<lambda>s. sn_group s \<noteq> '''' \<and> sn_group s \<noteq> ownGroup) here)))))"

section \<open>Finalizers\<close>

text \<open>\<^verbatim>\<open>removeNodeFinalizer\<close> on the finalizers of an object: the remaining ones, when an update is due.\<close>

definition removeNodeFinalizer :: "string list \<Rightarrow> string \<Rightarrow> string list option" where
  "removeNodeFinalizer fs node =
     (let f = FinalizerPrefix @ node in if f \<in> set fs then Some (filter (\<lambda>x. x \<noteq> f) fs) else None)"

end
