(* ===== verification/Snapshot.thy ===== *)
theory Snapshot
  imports Agent_Common
begin

text \<open>
  The agent's snapshot reconciler, \<^verbatim>\<open>internal/agent/snapshot.go\<close>. A pass on one node reads the
  cached objects, the kernel's status and the answers of the commands it runs from a
  \<open>snap_env\<close>, and yields the actions it takes, in order, with its result. An action is
  recorded when it is attempted; whether it succeeded is a field of the environment.
\<close>

section \<open>Passes\<close>

definition SuspendDeadline :: duration where
  "SuspendDeadline = 60 * 10 ^ 9"

definition suspendRetryBackoff :: duration where
  "suspendRetryBackoff = 30 * 10 ^ 9"

definition barrierFailLimit :: nat where
  "barrierFailLimit = 5"

definition barrierRetryAfter :: duration where
  "barrierRetryAfter = 60 * 10 ^ 9"

definition seconds :: "int \<Rightarrow> duration" where
  "seconds n = n * 10 ^ 9"

text \<open>\<open>CountFail\<close> and \<open>ClearFails\<close> are the updates of the snapshot's entry in \<^verbatim>\<open>barrierFails\<close>.\<close>

datatype snap_action = FreezeFS | ThawFS | SuspendIO | ResumeIO | SyncLeg | DeleteLeg | CutLeg | SweepLegs
  | ApplySnap MiroirSnapshot | PatchSlot SnapshotNodeState gotime | UpdateFinalizers "string list"
  | CountFail | ClearFails

datatype pass_end = Requeue duration | PassError

type_synonym snap_pass = "snap_action list \<times> pass_end"

datatype sweep_result = SweepOk | SweepBusy | SweepFailed

record snap_env =
  se_node :: string
  se_snap :: "api_error + MiroirSnapshot"
  se_vol :: "api_error + MiroirVolume"
  se_status :: "Status option"
  se_now :: gotime
  se_fails :: nat
  se_backend :: bool
  se_freeze :: bool
  se_suspend :: bool
  se_resume :: bool
  se_sync :: bool
  se_delete :: bool
  se_cut :: bool
  se_sweep :: sweep_result
  se_apply :: bool
  se_patch :: bool
  se_update :: "api_error option"
  se_live :: "api_error + MiroirSnapshot"
  se_list :: "api_error + MiroirSnapshot list"
  se_group :: "string \<Rightarrow> api_error + MiroirSnapshotGroup"

definition before :: "snap_action list \<Rightarrow> snap_pass \<Rightarrow> snap_pass" where
  "before as p = (as @ fst p, snd p)"

text \<open>\<^verbatim>\<open>return ctrl.Result{RequeueAfter: after}, err\<close>.\<close>

definition ending :: "duration \<Rightarrow> bool \<Rightarrow> pass_end" where
  "ending after ok = (if ok then Requeue after else PassError)"

section \<open>Barriers\<close>

definition otherRoundActive :: "snap_env \<Rightarrow> MiroirSnapshot \<Rightarrow> api_error + bool" where
  "otherRoundActive env snap =
     (let others = volumeRoundActive (se_list env) (se_group env) (sn_volumeName snap) (sn_name snap) ''''
      in case se_live env of
           Inl e \<Rightarrow> if e \<noteq> NotFound then Inl e else others
         | Inr live \<Rightarrow> if sn_ioSuspended live \<and> \<not> sameSnapshotRound snap live then Inr True else others)"

definition resumeUnlessSiblingRound :: "snap_env \<Rightarrow> MiroirSnapshot \<Rightarrow> snap_action list \<times> bool" where
  "resumeUnlessSiblingRound env snap =
     (case otherRoundActive env snap of
        Inl e \<Rightarrow> ([], False)
      | Inr active \<Rightarrow>
          if active then ([], True)
          else if se_resume env then ([ResumeIO, ThawFS], True) else ([ResumeIO], False))"

definition barrierFailed :: "snap_env \<Rightarrow> snap_pass" where
  "barrierFailed env =
     ([CountFail], if se_fails env + 1 < barrierFailLimit then PassError else Requeue barrierRetryAfter)"

definition set_slots :: "string list \<Rightarrow> SnapshotNodeState \<Rightarrow> SnapshotNodeState gomap \<Rightarrow> SnapshotNodeState gomap" where
  "set_slots ns st m = foldl (\<lambda>m n. AList.update n st m) m ns"

definition openedSnap :: "snap_env \<Rightarrow> MiroirSnapshot \<Rightarrow> MiroirVolume \<Rightarrow> MiroirSnapshot" where
  "openedSnap env snap v =
     snap\<lparr>sn_ioSuspended := True, sn_suspendedAt := Some (se_now env),
       sn_perNode := AList.update (se_node env) SnapshotSuspended
         (set_slots (map r_node (filter (\<lambda>rep. r_node rep \<noteq> se_node env) (DiskfulReplicas (spec v)))) SnapshotPending
           (sn_perNode snap))\<rparr>"

definition patchOwnState :: "snap_env \<Rightarrow> MiroirSnapshot \<Rightarrow> SnapshotNodeState \<Rightarrow> snap_action list \<times> bool" where
  "patchOwnState env snap st =
     (case sn_suspendedAt snap of
        Some t \<Rightarrow> if sn_ioSuspended snap then ([PatchSlot st t], se_patch env) else ([], False)
      | None \<Rightarrow> ([], False))"

definition failedSuspend :: "snap_env \<Rightarrow> MiroirSnapshot \<Rightarrow> snap_action list" where
  "failedSuspend env snap =
     (case otherRoundActive env snap of
        Inl e \<Rightarrow> []
      | Inr active \<Rightarrow> if active then [] else [ResumeIO])"

definition raiseBarrier :: "snap_env \<Rightarrow> MiroirSnapshot \<Rightarrow> MiroirVolume \<Rightarrow> bool \<Rightarrow> snap_pass" where
  "raiseBarrier env snap v opensRound =
     (if diskfulOn v (se_node env) \<and> \<not> se_backend env then ([], PassError)
      else if \<not> se_freeze env then before [FreezeFS] (barrierFailed env)
      else if \<not> se_suspend env then
        before ([FreezeFS, SuspendIO, ThawFS] @ failedSuspend env snap) (barrierFailed env)
      else
        before [FreezeFS, SuspendIO, ClearFails]
          (if opensRound then ([ApplySnap (openedSnap env snap v)], ending (seconds 1) (se_apply env))
           else (case patchOwnState env snap SnapshotSuspended of (as, ok) \<Rightarrow> (as, ending (seconds 1) ok))))"

definition cutLeg :: "snap_env \<Rightarrow> MiroirSnapshot \<Rightarrow> snap_pass" where
  "cutLeg env snap =
     (if \<not> se_backend env then ([], PassError)
      else if \<not> se_suspend env then before [SuspendIO] (barrierFailed env)
      else if \<not> se_sync env then ([SuspendIO, ClearFails, SyncLeg], PassError)
      else if \<not> se_delete env then ([SuspendIO, ClearFails, SyncLeg, DeleteLeg], PassError)
      else if \<not> se_cut env then ([SuspendIO, ClearFails, SyncLeg, DeleteLeg, CutLeg], PassError)
      else before [SuspendIO, ClearFails, SyncLeg, DeleteLeg, CutLeg]
        (case patchOwnState env snap SnapshotDone of (as, ok) \<Rightarrow> (as, ending (seconds 1) ok)))"

definition legsDone :: "MiroirVolume \<Rightarrow> MiroirSnapshot \<Rightarrow> bool" where
  "legsDone v snap \<longleftrightarrow>
     length (filter (\<lambda>rep. map_of (sn_perNode snap) (r_node rep) = Some SnapshotDone) (DiskfulReplicas (spec v))) =
     length (DiskfulReplicas (spec v))"

definition publishedSnap :: "MiroirSnapshot \<Rightarrow> MiroirVolume \<Rightarrow> MiroirSnapshot" where
  "publishedSnap snap v = snap\<lparr>sn_ioSuspended := False, sn_sizeBytes := sizeBytes (spec v),
     sn_sourceFormatted := formatted (status v), sn_readyToUse := True\<rparr>"

definition voidedSnap :: "snap_env \<Rightarrow> MiroirSnapshot \<Rightarrow> MiroirVolume \<Rightarrow> MiroirSnapshot" where
  "voidedSnap env snap v = snap\<lparr>sn_ioSuspended := False, sn_suspendedAt := Some (se_now env),
     sn_perNode := AList.update (se_node env) SnapshotError
       (set_slots (map r_node (DiskfulReplicas (spec v))) SnapshotPending (sn_perNode snap))\<rparr>"

definition collectLegs :: "snap_env \<Rightarrow> MiroirSnapshot \<Rightarrow> MiroirVolume \<Rightarrow> bool \<Rightarrow> snap_pass" where
  "collectLegs env snap v expired =
     (if \<not> legsDone v snap \<and> \<not> expired then ([], Requeue (seconds 2))
      else
        (case resumeUnlessSiblingRound env snap of
           (as, ok) \<Rightarrow>
             if \<not> ok then (as, PassError)
             else before as
               ([ApplySnap (if legsDone v snap then publishedSnap snap v else voidedSnap env snap v)],
                ending 0 (se_apply env))))"

definition allSuspended :: "MiroirVolume \<Rightarrow> MiroirSnapshot \<Rightarrow> bool" where
  "allSuspended v snap =
     list_all (\<lambda>rep. map_of (sn_perNode snap) (r_node rep) \<in> set [Some SnapshotSuspended, Some SnapshotDone])
       (DiskfulReplicas (spec v))"

definition openRound :: "snap_env \<Rightarrow> MiroirSnapshot \<Rightarrow> MiroirVolume \<Rightarrow> snap_pass" where
  "openRound env snap v =
     (if map_of (sn_perNode snap) (se_node env) = Some SnapshotError \<and>
         (case sn_suspendedAt snap of Some t \<Rightarrow> se_now env - t < suspendRetryBackoff | None \<Rightarrow> False)
      then ([], Requeue suspendRetryBackoff)
      else
        (case otherRoundActive env snap of
           Inl e \<Rightarrow> ([], PassError)
         | Inr active \<Rightarrow> if active then ([], Requeue (seconds 2)) else raiseBarrier env snap v True))"

section \<open>The state machine\<close>

definition healthyView :: "Status \<Rightarrow> MiroirVolume \<Rightarrow> string \<Rightarrow> bool" where
  "healthyView st v self \<longleftrightarrow> diskfulPeersConnected st v self \<and> diskfulPeersUpToDate st v self \<and>
     (\<not> diskfulOn v self \<or> s_diskState st = DiskUpToDate)"

definition roundExpired :: "gotime \<Rightarrow> MiroirSnapshot \<Rightarrow> bool" where
  "roundExpired now snap = (case sn_suspendedAt snap of Some t \<Rightarrow> SuspendDeadline < now - t | None \<Rightarrow> False)"

definition reconcileReplicated :: "snap_env \<Rightarrow> MiroirSnapshot \<Rightarrow> MiroirVolume \<Rightarrow> snap_pass" where
  "reconcileReplicated env snap v =
     (case se_status env of
        None \<Rightarrow> barrierFailed env
      | Some st \<Rightarrow>
          (let self = se_node env;
               coordinator = coordinatorFor self v st;
               localDiskful = diskfulOn v self;
               myState = map_of (sn_perNode snap) self;
               expired = roundExpired (se_now env) snap;
               healthy = healthyView st v self;
               resume = (case resumeUnlessSiblingRound env snap of (as, ok) \<Rightarrow> (as, ending (seconds 2) ok))
           in if coordinator \<and> \<not> sn_ioSuspended snap \<and> healthy \<and> \<not> s_suspended st then openRound env snap v
              else if \<not> coordinator \<and> localDiskful \<and> sn_ioSuspended snap \<and> \<not> expired \<and> healthy \<and>
                myState \<noteq> Some SnapshotSuspended \<and> myState \<noteq> Some SnapshotDone then raiseBarrier env snap v False
              else if localDiskful \<and> sn_ioSuspended snap \<and> \<not> expired \<and> healthy \<and>
                myState = Some SnapshotSuspended \<and> allSuspended v snap then cutLeg env snap
              else if coordinator \<and> sn_ioSuspended snap then collectLegs env snap v expired
              else if sn_ioSuspended snap \<and> expired \<and> s_suspended st then resume
              else if \<not> sn_ioSuspended snap \<and> s_suspended st then resume
              else ([], Requeue (seconds 2))))"

section \<open>Reconcile\<close>

definition removeFinalizer :: "snap_env \<Rightarrow> MiroirSnapshot \<Rightarrow> snap_pass" where
  "removeFinalizer env snap =
     (case removeNodeFinalizer (sn_finalizers snap) (se_node env) of
        None \<Rightarrow> ([], Requeue 0)
      | Some fs \<Rightarrow> ([UpdateFinalizers fs],
          ending 0 (se_update env \<in> set [None, Some Conflict, Some NotFound])))"

text \<open>A held barrier is lifted first; a kernel that cannot report holds none.\<close>

definition liftHeld :: "snap_env \<Rightarrow> MiroirSnapshot \<Rightarrow> MiroirVolume \<Rightarrow> (snap_action list \<times> bool) option" where
  "liftHeld env snap v =
     (if drbd (spec v) \<noteq> None \<and> (case se_status env of Some st \<Rightarrow> s_suspended st | None \<Rightarrow> False)
      then Some (resumeUnlessSiblingRound env snap) else None)"

definition deletedSnap :: "snap_env \<Rightarrow> MiroirSnapshot \<Rightarrow> MiroirVolume \<Rightarrow> snap_pass" where
  "deletedSnap env snap v =
     before [ClearFails]
       (let (as, ok) = (case liftHeld env snap v of Some r \<Rightarrow> r | None \<Rightarrow> ([], True))
        in if \<not> ok then (as, PassError)
           else before as
             (if disklessOn v (se_node env) then removeFinalizer env snap
              else
                (case se_sweep env of
                   SweepBusy \<Rightarrow> ([SweepLegs], Requeue (seconds 30))
                 | SweepFailed \<Rightarrow> ([SweepLegs], PassError)
                 | SweepOk \<Rightarrow> before [SweepLegs] (removeFinalizer env snap))))"

definition cutUnreplicated :: "snap_env \<Rightarrow> MiroirSnapshot \<Rightarrow> MiroirVolume \<Rightarrow> snap_pass" where
  "cutUnreplicated env snap v =
     (if \<not> st_deviceCreated (status_of v (se_node env)) then ([], Requeue (seconds 5))
      else if \<not> se_backend env then ([], PassError)
      else if \<not> se_sync env then ([SyncLeg], PassError)
      else if \<not> se_cut env then ([SyncLeg, CutLeg], PassError)
      else ([SyncLeg, CutLeg, ApplySnap (snap\<lparr>sn_perNode := [(se_node env, SnapshotDone)],
              sn_sizeBytes := sizeBytes (spec v), sn_sourceFormatted := formatted (status v), sn_readyToUse := True\<rparr>)],
            ending 0 (se_apply env)))"

definition snapshot_Reconcile :: "snap_env \<Rightarrow> snap_pass" where
  "snapshot_Reconcile env =
     (case se_snap env of
        Inl e \<Rightarrow> ([], ending 0 (e = NotFound))
      | Inr snap \<Rightarrow>
     (case se_vol env of
        Inl e \<Rightarrow>
          if e = NotFound \<and> sn_deletionTimestamp snap \<noteq> None then before [ClearFails] (removeFinalizer env snap)
          else ([], ending 0 (e = NotFound))
      | Inr v \<Rightarrow>
          (let self = se_node env; st = status_of v self
           in if sn_deletionTimestamp snap \<noteq> None then deletedSnap env snap v
              else if \<not> replicaOn v self \<and> ClientForNode (spec v) self = None then ([], Requeue 0)
              else if sn_group snap \<noteq> '''' then ([], Requeue 0)
              else if sn_readyToUse snap then
                (case liftHeld env snap v of
                   Some (as, ok) \<Rightarrow> (as, ending 0 ok)
                 | None \<Rightarrow> ([ThawFS], Requeue 0))
              else if drbd (spec v) = None then cutUnreplicated env snap v
              else if st_diskState st = '''' then ([], Requeue (seconds 5))
              else if st_splitBrain st then ([], Requeue (seconds 30))
              else reconcileReplicated env snap v)))"

end
