(* ===== verification/Snapshot_Round.thy ===== *)
theory Snapshot_Round
  imports Snapshot
begin

text \<open>
  The snapshot barrier as a distributed protocol: the agents of a volume's nodes run
  \<open>snapshot_Reconcile\<close> against one shared snapshot object, each with its own kernel barrier and
  its own leg, while the workload writes, legs drop out and resync, the Primary role moves and the
  periodic barrier sweep runs. The legs of a snapshot that becomes ready all hold the same bytes.

  The volume's spec is fixed during a round and all its legs are completed. A pass is one atomic
  step that sees the current snapshot object, except that the patch of a node's own slot travels
  for a while and may be lost; any command and any write of a pass may fail, and a failing
  suspend-io, resume-io or status write may have taken effect all the same. A node that is not
  diskful is not promoted while the round is open, and the sweep does not run at the very instant
  of the deadline. The kernel is the documented behaviour of DRBD: suspend-io stops the writes
  that originate on its node, a write reaches every leg that is connected and up to date, and a
  resync ends with a copy of such a leg.
\<close>

section \<open>The system\<close>

record round_sys =
  y_snap :: MiroirSnapshot
  y_kernel :: "string \<Rightarrow> bool"
  y_data :: "string \<Rightarrow> nat"
  y_leg :: "string \<Rightarrow> nat option"
  y_up :: "string \<Rightarrow> bool"
  y_primary :: "string option"
  y_now :: gotime
  y_flight :: "string \<Rightarrow> (SnapshotNodeState \<times> gotime) option"

text \<open>What the kernel reports on a node.\<close>

definition kernel_status :: "MiroirVolume \<Rightarrow> round_sys \<Rightarrow> string \<Rightarrow> Status" where
  "kernel_status v s n = zero_drbd_status\<lparr>
     s_diskState := (if \<not> diskfulOn v n then DiskDiskless else if y_up s n then DiskUpToDate else DiskInconsistent),
     s_primary := (y_primary s = Some n),
     s_peerPrimary := (y_primary s \<noteq> None \<and> y_primary s \<noteq> Some n),
     s_suspended := y_kernel s n,
     s_peerConnected := map (\<lambda>rep. (r_nodeID rep, y_up s (r_node rep))) (replicas (spec v)),
     s_peerDiskState := map (\<lambda>rep. (r_nodeID rep, if r_diskless rep then DiskDiskless
        else if y_up s (r_node rep) then DiskUpToDate else DiskInconsistent)) (replicas (spec v))\<rparr>"

text \<open>How the commands and writes of a pass turn out; \<open>k_landed\<close> is whether a failing suspend-io
  or resume-io took effect, \<open>k_committed\<close> whether a failing status write did.\<close>

record luck =
  k_answers :: bool
  k_fails :: nat
  k_backend :: bool
  k_freeze :: bool
  k_suspend :: bool
  k_resume :: bool
  k_sync :: bool
  k_delete :: bool
  k_cut :: bool
  k_apply :: bool
  k_patch :: bool
  k_landed :: bool
  k_committed :: bool

definition pass_env :: "MiroirVolume \<Rightarrow> string \<Rightarrow> MiroirSnapshot \<Rightarrow> luck \<Rightarrow> round_sys \<Rightarrow> snap_env" where
  "pass_env v n view k s = \<lparr>se_node = n, se_snap = Inr view, se_vol = Inr v,
     se_status = (if k_answers k then Some (kernel_status v s n) else None), se_now = y_now s, se_fails = k_fails k,
     se_backend = k_backend k, se_freeze = k_freeze k, se_suspend = k_suspend k, se_resume = k_resume k,
     se_sync = k_sync k, se_delete = k_delete k, se_cut = k_cut k, se_sweep = SweepOk, se_apply = k_apply k,
     se_patch = k_patch k, se_update = None, se_live = Inr (y_snap s), se_list = Inr [y_snap s],
     se_group = (\<lambda>_. Inl NotFound)\<rparr>"

fun perform :: "string \<Rightarrow> luck \<Rightarrow> round_sys \<Rightarrow> snap_action \<Rightarrow> round_sys" where
  "perform n k s SuspendIO = s\<lparr>y_kernel := (y_kernel s)(n := k_suspend k \<or> k_landed k \<or> y_kernel s n)\<rparr>"
| "perform n k s ResumeIO = s\<lparr>y_kernel := (y_kernel s)(n := \<not> (k_resume k \<or> k_landed k) \<and> y_kernel s n)\<rparr>"
| "perform n k s DeleteLeg = (if k_delete k then s\<lparr>y_leg := (y_leg s)(n := None)\<rparr> else s)"
| "perform n k s CutLeg =
     (if k_cut k \<and> y_leg s n = None then s\<lparr>y_leg := (y_leg s)(n := Some (y_data s n))\<rparr> else s)"
| "perform n k s (ApplySnap t) = (if k_apply k \<or> k_committed k then s\<lparr>y_snap := t\<rparr> else s)"
| "perform n k s (PatchSlot st t) = s\<lparr>y_flight := (y_flight s)(n := Some (st, t))\<rparr>"
| "perform n k s _ = s"

definition agent_pass :: "MiroirVolume \<Rightarrow> string \<Rightarrow> MiroirSnapshot \<Rightarrow> luck \<Rightarrow> round_sys \<Rightarrow> round_sys" where
  "agent_pass v n view k s = foldl (perform n k) s (fst (snapshot_Reconcile (pass_env v n view k s)))"

text \<open>The arrival of a slot patch: its two tests, then the assignment.\<close>

definition land :: "string \<Rightarrow> round_sys \<Rightarrow> round_sys" where
  "land n s =
     (case y_flight s n of
        None \<Rightarrow> s
      | Some (st, t) \<Rightarrow>
          (let s' = s\<lparr>y_flight := (y_flight s)(n := None)\<rparr>
           in if sn_ioSuspended (y_snap s) \<and> sn_suspendedAt (y_snap s) = Some t
              then s'\<lparr>y_snap := (y_snap s)\<lparr>sn_perNode := AList.update n st (sn_perNode (y_snap s))\<rparr>\<rparr>
              else s'))"

text \<open>\<^verbatim>\<open>resumeStaleBarriers\<close> of \<^verbatim>\<open>cmd/main.go\<close> for this volume: a round within the deadline is kept.\<close>

definition round_fresh :: "gotime \<Rightarrow> MiroirSnapshot \<Rightarrow> bool" where
  "round_fresh now snap \<longleftrightarrow> sn_ioSuspended snap \<and>
     (case sn_suspendedAt snap of Some t \<Rightarrow> now - t < SuspendDeadline | None \<Rightarrow> False)"

inductive round_step :: "MiroirVolume \<Rightarrow> round_sys \<Rightarrow> round_sys \<Rightarrow> bool" for v where
  Pass: "y_flight s n = None \<Longrightarrow> round_step v s (agent_pass v n (y_snap s) k s)"
| Land: "round_step v s (land n s)"
| Lost: "round_step v s (s\<lparr>y_flight := (y_flight s)(n := None)\<rparr>)"
| Tick: "0 \<le> d \<Longrightarrow> round_step v s (s\<lparr>y_now := y_now s + d\<rparr>)"
| Write: "y_primary s = Some p \<Longrightarrow> \<not> y_kernel s p \<Longrightarrow>
    round_step v s (s\<lparr>y_data := (\<lambda>n. if y_up s n then c else y_data s n)\<rparr>)"
| Promote: "y_primary s = None \<Longrightarrow> diskfulOn v p \<or> \<not> sn_ioSuspended (y_snap s) \<Longrightarrow>
    round_step v s (s\<lparr>y_primary := Some p\<rparr>)"
| Demote: "round_step v s (s\<lparr>y_primary := None\<rparr>)"
| Drop: "round_step v s (s\<lparr>y_up := (y_up s)(n := False)\<rparr>)"
| Resync: "y_up s m \<Longrightarrow> diskfulOn v m \<Longrightarrow>
    round_step v s (s\<lparr>y_up := (y_up s)(n := True), y_data := (y_data s)(n := y_data s m)\<rparr>)"
| Sweep: "\<not> round_fresh (y_now s) (y_snap s) \<Longrightarrow> sn_suspendedAt (y_snap s) \<noteq> Some (y_now s - SuspendDeadline) \<Longrightarrow>
    round_step v s (s\<lparr>y_kernel := (y_kernel s)(n := False)\<rparr>)"

inductive round_reach :: "MiroirVolume \<Rightarrow> round_sys \<Rightarrow> round_sys \<Rightarrow> bool" for v s where
  Start: "round_reach v s s"
| Step: "round_reach v s t \<Longrightarrow> round_step v t u \<Longrightarrow> round_reach v s u"

inductive_cases round_stepE: "round_step v s t"

section \<open>The invariant\<close>

definition diskful_nodes :: "MiroirVolume \<Rightarrow> string set" where
  "diskful_nodes v = r_node ` set (DiskfulReplicas (spec v))"

definition slot :: "round_sys \<Rightarrow> string \<Rightarrow> SnapshotNodeState option" where
  "slot s n = map_of (sn_perNode (y_snap s)) n"

definition raised :: "round_sys \<Rightarrow> string \<Rightarrow> bool" where
  "raised s n \<longleftrightarrow> slot s n = Some SnapshotSuspended \<or> slot s n = Some SnapshotDone"

definition in_round :: "round_sys \<Rightarrow> string \<Rightarrow> SnapshotNodeState \<Rightarrow> bool" where
  "in_round s n st \<longleftrightarrow> (\<exists>t. y_flight s n = Some (st, t) \<and> sn_suspendedAt (y_snap s) = Some t)"

definition has_cut :: "round_sys \<Rightarrow> string \<Rightarrow> bool" where
  "has_cut s n \<longleftrightarrow> slot s n = Some SnapshotDone \<or> in_round s n SnapshotDone"

definition all_done :: "MiroirVolume \<Rightarrow> round_sys \<Rightarrow> bool" where
  "all_done v s \<longleftrightarrow> (\<forall>n\<in>diskful_nodes v. slot s n = Some SnapshotDone)"

definition open_round :: "MiroirVolume \<Rightarrow> round_sys \<Rightarrow> bool" where
  "open_round v s \<longleftrightarrow> sn_ioSuspended (y_snap s) \<and> \<not> roundExpired (y_now s) (y_snap s) \<and> \<not> all_done v s"

definition clock_ok :: "round_sys \<Rightarrow> bool" where
  "clock_ok s \<longleftrightarrow> (sn_ioSuspended (y_snap s) \<longrightarrow> sn_suspendedAt (y_snap s) \<noteq> None) \<and>
     (\<forall>t. sn_suspendedAt (y_snap s) = Some t \<longrightarrow> t \<le> y_now s)"

definition copies_ok :: "MiroirVolume \<Rightarrow> round_sys \<Rightarrow> bool" where
  "copies_ok v s \<longleftrightarrow> (\<forall>n\<in>diskful_nodes v. \<forall>m\<in>diskful_nodes v. y_up s n \<longrightarrow> y_up s m \<longrightarrow> y_data s n = y_data s m)"

definition flights_ok :: "MiroirVolume \<Rightarrow> round_sys \<Rightarrow> bool" where
  "flights_ok v s \<longleftrightarrow> (\<forall>n st t. y_flight s n = Some (st, t) \<longrightarrow> n \<in> diskful_nodes v \<and>
     (st = SnapshotSuspended \<or> st = SnapshotDone) \<and>
     (\<exists>t'. sn_suspendedAt (y_snap s) = Some t' \<and> t \<le> t' \<and>
        (\<not> sn_ioSuspended (y_snap s) \<and> \<not> sn_readyToUse (y_snap s) \<longrightarrow> t < t') \<and>
        (st = SnapshotSuspended \<and> t = t' \<and> sn_ioSuspended (y_snap s) \<longrightarrow> \<not> raised s n)))"

definition barrier_ok :: "MiroirVolume \<Rightarrow> round_sys \<Rightarrow> bool" where
  "barrier_ok v s \<longleftrightarrow> (open_round v s \<longrightarrow>
     (\<forall>n\<in>diskful_nodes v. raised s n \<or> (\<exists>st. in_round s n st) \<longrightarrow> y_kernel s n) \<and>
     (\<forall>p. y_primary s = Some p \<longrightarrow> p \<notin> diskful_nodes v \<longrightarrow> y_kernel s p))"

definition cuts_ok :: "MiroirVolume \<Rightarrow> round_sys \<Rightarrow> bool" where
  "cuts_ok v s \<longleftrightarrow> (sn_ioSuspended (y_snap s) \<longrightarrow> (\<exists>n\<in>diskful_nodes v. has_cut s n) \<longrightarrow>
     (\<forall>n\<in>diskful_nodes v. raised s n) \<and>
     (\<exists>c. (\<forall>n\<in>diskful_nodes v. has_cut s n \<longrightarrow> y_leg s n = Some c) \<and>
        (open_round v s \<longrightarrow> (\<forall>n\<in>diskful_nodes v. y_data s n = c))))"

definition ready_ok :: "MiroirVolume \<Rightarrow> round_sys \<Rightarrow> bool" where
  "ready_ok v s \<longleftrightarrow> (sn_readyToUse (y_snap s) \<longrightarrow> \<not> sn_ioSuspended (y_snap s) \<and>
     (\<exists>c. \<forall>n\<in>diskful_nodes v. y_leg s n = Some c))"

definition round_inv :: "MiroirVolume \<Rightarrow> round_sys \<Rightarrow> bool" where
  "round_inv v s \<longleftrightarrow> sn_uid (y_snap s) \<noteq> '''' \<and> sn_deletionTimestamp (y_snap s) = None \<and> clock_ok s \<and> copies_ok v s \<and>
     flights_ok v s \<and> barrier_ok v s \<and> cuts_ok v s \<and> ready_ok v s"

lemmas round_inv_defs = round_inv_def clock_ok_def copies_ok_def flights_ok_def barrier_ok_def cuts_ok_def ready_ok_def

text \<open>The fixed volume: replicated, legs on distinct nodes with distinct node ids, all completed.\<close>

definition round_volume :: "MiroirVolume \<Rightarrow> bool" where
  "round_volume v \<longleftrightarrow> drbd (spec v) \<noteq> None \<and> distinct (map r_node (replicas (spec v))) \<and>
     distinct (map r_nodeID (replicas (spec v))) \<and> list_all (\<lambda>r. r_address r \<noteq> '''') (replicas (spec v)) \<and>
     DiskfulReplicas (spec v) \<noteq> []"

section \<open>What a pass does to the system\<close>

text \<open>The effects of a pass that saw the current snapshot object, with what its guards ensured.\<close>

inductive pass_effect :: "MiroirVolume \<Rightarrow> string \<Rightarrow> round_sys \<Rightarrow> round_sys \<Rightarrow> bool" for v n s where
  Barrier: "b \<or> b = y_kernel s n \<or> \<not> open_round v s \<or> n \<in> diskful_nodes v \<and> \<not> raised s n \<Longrightarrow>
    pass_effect v n s (s\<lparr>y_kernel := (y_kernel s)(n := b)\<rparr>)"
| Open: "\<not> sn_ioSuspended (y_snap s) \<Longrightarrow> \<not> sn_readyToUse (y_snap s) \<Longrightarrow> coordinatorFor n v (kernel_status v s n) \<Longrightarrow>
    se_node env = n \<Longrightarrow> se_now env = y_now s \<Longrightarrow>
    pass_effect v n s (s\<lparr>y_kernel := (y_kernel s)(n := True), y_snap := openedSnap env (y_snap s) v\<rparr>)"
| Raise: "sn_ioSuspended (y_snap s) \<Longrightarrow> sn_suspendedAt (y_snap s) = Some t \<Longrightarrow> n \<in> diskful_nodes v \<Longrightarrow> \<not> raised s n \<Longrightarrow>
    pass_effect v n s (s\<lparr>y_kernel := (y_kernel s)(n := True),
      y_flight := (y_flight s)(n := Some (SnapshotSuspended, t))\<rparr>)"
| Cut: "sn_ioSuspended (y_snap s) \<Longrightarrow> sn_suspendedAt (y_snap s) = Some t \<Longrightarrow> \<not> roundExpired (y_now s) (y_snap s) \<Longrightarrow>
    n \<in> diskful_nodes v \<Longrightarrow> slot s n = Some SnapshotSuspended \<Longrightarrow> \<forall>m\<in>diskful_nodes v. raised s m \<and> y_up s m \<Longrightarrow>
    f = Some (SnapshotDone, t) \<and> l = Some (y_data s n) \<or> f = None \<Longrightarrow>
    pass_effect v n s (s\<lparr>y_kernel := (y_kernel s)(n := True), y_leg := (y_leg s)(n := l), y_flight := (y_flight s)(n := f)\<rparr>)"
| Publish: "sn_ioSuspended (y_snap s) \<Longrightarrow> all_done v s \<Longrightarrow>
    pass_effect v n s (s\<lparr>y_kernel := (y_kernel s)(n := b), y_snap := publishedSnap (y_snap s) v\<rparr>)"
| Void: "sn_ioSuspended (y_snap s) \<Longrightarrow> roundExpired (y_now s) (y_snap s) \<Longrightarrow> \<not> sn_readyToUse (y_snap s) \<Longrightarrow>
    se_now env = y_now s \<Longrightarrow> se_node env = n \<Longrightarrow>
    pass_effect v n s (s\<lparr>y_kernel := (y_kernel s)(n := b), y_snap := voidedSnap env (y_snap s) v\<rparr>)"

lemma diskful_nodes_iff: "n \<in> diskful_nodes v \<longleftrightarrow> diskfulOn v n"
  by (auto simp: diskful_nodes_def diskfulOn_def list_ex_iff)

lemma legsDone_iff: "legsDone v (y_snap s) \<longleftrightarrow> all_done v s"
  unfolding legsDone_def length_filter_all by (auto simp: all_done_def diskful_nodes_def slot_def)

lemma allSuspended_iff: "allSuspended v (y_snap s) \<longleftrightarrow> (\<forall>n\<in>diskful_nodes v. raised s n)"
  by (auto simp: allSuspended_def diskful_nodes_def raised_def slot_def list_all_iff)

lemma own_round:
  assumes "round_inv v s"
  shows "otherRoundActive (pass_env v n (y_snap s) k s) (y_snap s) = Inr False"
proof -
  have "volumeRoundActive (Inr [y_snap s]) (\<lambda>_. Inl NotFound) vn (sn_name (y_snap s)) '''' = Inr False" for vn
    by (simp add: volumeRoundActive_def Let_def)
  then show ?thesis
    using assms by (auto simp: otherRoundActive_def pass_env_def sameSnapshotRound_def round_inv_def clock_ok_def Let_def)
qed

lemma peers_up:
  assumes "round_volume v" and "healthyView (kernel_status v s n) v n" and "n \<in> diskful_nodes v" and "m \<in> diskful_nodes v"
  shows "y_up s m"
proof (cases "m = n")
  case True
  then show ?thesis
    using assms(2,3) by (auto simp: healthyView_def kernel_status_def diskful_nodes_iff zero_drbd_status_def DiskUpToDate_def
        DiskInconsistent_def split: if_split_asm)
next
  case False
  obtain rep where rep: "rep \<in> set (replicas (spec v))" "\<not> r_diskless rep" "r_node rep = m"
    using assms(4) by (auto simp: diskful_nodes_def DiskfulReplicas_def)
  have "peer_leg n rep" using assms(1) rep False by (simp add: peer_leg_def round_volume_def list_all_iff)
  then have "peer_connected (kernel_status v s n) (r_nodeID rep)"
    using assms(2) rep(1) by (auto simp: healthyView_def diskfulPeersConnected_def list_all_iff)
  moreover have "map_of (map (\<lambda>rep. (r_nodeID rep, y_up s (r_node rep))) (replicas (spec v))) (r_nodeID rep) = Some (y_up s m)"
    using assms(1) rep by (intro map_of_is_SomeI) (auto simp: round_volume_def comp_def)
  ultimately show ?thesis by (simp add: peer_connected_def kernel_status_def)
qed

lemma pass_env_simps [simp]:
  "se_node (pass_env v n view k s) = n" "se_snap (pass_env v n view k s) = Inr view" "se_vol (pass_env v n view k s) = Inr v"
  "se_status (pass_env v n view k s) = (if k_answers k then Some (kernel_status v s n) else None)"
  "se_now (pass_env v n view k s) = y_now s" "se_fails (pass_env v n view k s) = k_fails k"
  "se_backend (pass_env v n view k s) = k_backend k" "se_freeze (pass_env v n view k s) = k_freeze k"
  "se_suspend (pass_env v n view k s) = k_suspend k" "se_resume (pass_env v n view k s) = k_resume k"
  "se_sync (pass_env v n view k s) = k_sync k" "se_delete (pass_env v n view k s) = k_delete k"
  "se_cut (pass_env v n view k s) = k_cut k" "se_apply (pass_env v n view k s) = k_apply k"
  "se_patch (pass_env v n view k s) = k_patch k"
  by (simp_all add: pass_env_def)

lemma pass_resume:
  assumes "round_inv v s"
  shows "resumeUnlessSiblingRound (pass_env v n (y_snap s) k s) (y_snap s) =
    (if k_resume k then ([ResumeIO, ThawFS], True) else ([ResumeIO], False))"
  using own_round [OF assms, of n k] by (simp add: resumeUnlessSiblingRound_def)

lemma resume_effect:
  assumes "round_inv v s" and "\<not> open_round v s"
  shows "pass_effect v n s (foldl (perform n k) s (fst (resumeUnlessSiblingRound (pass_env v n (y_snap s) k s) (y_snap s))))"
  using assms(2) by (auto simp: pass_resume [OF assms(1)] intro: pass_effect.Barrier)

lemma idle_effect: "pass_effect v n s s"
  using pass_effect.Barrier [of "y_kernel s n" s n v] by simp

lemma raise_effect:
  assumes "round_inv v s" and "sn_ioSuspended (y_snap s)" and "n \<in> diskful_nodes v" and "\<not> raised s n"
  shows "pass_effect v n s (foldl (perform n k) s (fst (raiseBarrier (pass_env v n (y_snap s) k s) (y_snap s) v False)))"
proof -
  obtain t where t: "sn_suspendedAt (y_snap s) = Some t" using assms(1,2) by (auto simp: round_inv_def clock_ok_def)
  have b: "pass_effect v n s (s\<lparr>y_kernel := (y_kernel s)(n := b)\<rparr>)" for b using assms(3,4) by (intro pass_effect.Barrier) simp
  show ?thesis
    using own_round [OF assms(1), of n k] assms t b idle_effect pass_effect.Raise [OF assms(2) t assms(3,4)]
    by (simp add: raiseBarrier_def failedSuspend_def before_def barrierFailed_def patchOwnState_def)
qed

lemma open_effect:
  assumes "round_inv v s" and "\<not> sn_ioSuspended (y_snap s)" and "\<not> sn_readyToUse (y_snap s)"
    and "coordinatorFor n v (kernel_status v s n)"
  shows "pass_effect v n s (foldl (perform n k) s (fst (openRound (pass_env v n (y_snap s) k s) (y_snap s) v)))"
proof -
  have b: "pass_effect v n s (s\<lparr>y_kernel := (y_kernel s)(n := b)\<rparr>)" for b
    using assms(2) by (intro pass_effect.Barrier) (simp add: open_round_def)
  have o: "pass_effect v n s (s\<lparr>y_kernel := (y_kernel s)(n := True),
      y_snap := openedSnap (pass_env v n (y_snap s) k s) (y_snap s) v\<rparr>)"
    using assms by (intro pass_effect.Open) simp_all
  show ?thesis
    using own_round [OF assms(1), of n k] b idle_effect o
    by (simp add: openRound_def raiseBarrier_def failedSuspend_def before_def barrierFailed_def)
qed
lemma cut_effect:
  assumes "round_inv v s" and "sn_ioSuspended (y_snap s)" and "\<not> roundExpired (y_now s) (y_snap s)" and "n \<in> diskful_nodes v"
    and "slot s n = Some SnapshotSuspended" and "\<forall>m\<in>diskful_nodes v. raised s m \<and> y_up s m" and "y_flight s n = None"
  shows "pass_effect v n s (foldl (perform n k) s (fst (cutLeg (pass_env v n (y_snap s) k s) (y_snap s))))"
proof -
  obtain t where t: "sn_suspendedAt (y_snap s) = Some t" using assms(1,2) by (auto simp: round_inv_def clock_ok_def)
  have b: "pass_effect v n s (s\<lparr>y_kernel := (y_kernel s)(n := b \<or> y_kernel s n)\<rparr>)" for b
    by (rule pass_effect.Barrier) auto
  have f: "(y_flight s)(n := None) = y_flight s" using assms(7) by auto
  have c: "pass_effect v n s (s\<lparr>y_kernel := (y_kernel s)(n := True), y_leg := (y_leg s)(n := l)\<rparr>)" for l
    using pass_effect.Cut [OF assms(2) t assms(3-6), where f = None and l = l] f by simp
  have d: "pass_effect v n s (s\<lparr>y_kernel := (y_kernel s)(n := True), y_leg := (y_leg s)(n := Some (y_data s n)),
      y_flight := (y_flight s)(n := Some (SnapshotDone, t))\<rparr>)"
    by (rule pass_effect.Cut [OF assms(2) t assms(3-6)]) simp
  show ?thesis
    using b [of "k_landed k"] b [of True] c [of None] d idle_effect assms(2) t
    by (auto simp: cutLeg_def before_def barrierFailed_def patchOwnState_def)
qed

lemma collect_effect:
  assumes "round_inv v s" and "sn_ioSuspended (y_snap s)"
  shows "pass_effect v n s (foldl (perform n k) s (fst (collectLegs (pass_env v n (y_snap s) k s) (y_snap s) v
    (roundExpired (y_now s) (y_snap s)))))"
proof (cases "all_done v s \<or> roundExpired (y_now s) (y_snap s)")
  case True
  have b: "pass_effect v n s (s\<lparr>y_kernel := (y_kernel s)(n := b)\<rparr>)" for b
    using True by (intro pass_effect.Barrier) (auto simp: open_round_def)
  have r: "\<not> sn_readyToUse (y_snap s)" using assms by (auto simp: round_inv_def ready_ok_def)
  show ?thesis
  proof (cases "all_done v s")
    case d: True
    have "pass_effect v n s (s\<lparr>y_kernel := (y_kernel s)(n := b), y_snap := publishedSnap (y_snap s) v\<rparr>)" for b
      by (rule pass_effect.Publish [OF assms(2) d])
    then show ?thesis using b d by (simp add: collectLegs_def legsDone_iff pass_resume [OF assms(1)] before_def)
  next
    case d: False
    have "pass_effect v n s (s\<lparr>y_kernel := (y_kernel s)(n := b),
        y_snap := voidedSnap (pass_env v n (y_snap s) k s) (y_snap s) v\<rparr>)" for b
      using d True by (intro pass_effect.Void [OF assms(2) _ r]) simp_all
    then show ?thesis using b d True by (simp add: collectLegs_def legsDone_iff pass_resume [OF assms(1)] before_def)
  qed
next
  case False
  then show ?thesis using idle_effect by (simp add: collectLegs_def legsDone_iff)
qed

lemma replicated_effect:
  assumes "round_volume v" and "round_inv v s" and "y_flight s n = None" and "\<not> sn_readyToUse (y_snap s)"
  shows "pass_effect v n s (foldl (perform n k) s (fst (reconcileReplicated (pass_env v n (y_snap s) k s) (y_snap s) v)))"
proof (cases "k_answers k")
  case True
  let ?env = "pass_env v n (y_snap s) k s" and ?st = "kernel_status v s n" and ?x = "roundExpired (y_now s) (y_snap s)"
  have up: "\<forall>m\<in>diskful_nodes v. y_up s m" if "healthyView ?st v n" "diskfulOn v n"
    using peers_up [OF assms(1) that(1)] that(2) by (simp add: diskful_nodes_iff)
  have raised: "\<not> raised s n" if "map_of (sn_perNode (y_snap s)) n \<noteq> Some SnapshotSuspended"
      "map_of (sn_perNode (y_snap s)) n \<noteq> Some SnapshotDone"
    using that by (simp add: raised_def slot_def)
  have resume: "pass_effect v n s (foldl (perform n k) s
      (fst (case resumeUnlessSiblingRound ?env (y_snap s) of (as, ok) \<Rightarrow> (as, ending (seconds 2) ok))))"
    if "\<not> open_round v s"
    using resume_effect [OF assms(2) that, of n k] by (simp add: split_beta)
  have "\<not> open_round v s" if "\<not> sn_ioSuspended (y_snap s) \<or> ?x" using that by (auto simp: open_round_def)
  then show ?thesis
    unfolding reconcileReplicated_def pass_env_simps if_P [OF True] option.case Let_def
    using open_effect [OF assms(2) _ assms(4)] raise_effect [OF assms(2)] cut_effect [OF assms(2) _ _ _ _ _ assms(3)]
      collect_effect [OF assms(2)] up raised resume idle_effect
    by (auto simp: diskful_nodes_iff slot_def allSuspended_iff)
next
  case False
  then show ?thesis using idle_effect by (simp add: reconcileReplicated_def barrierFailed_def)
qed

lemma agent_pass_effect:
  assumes "round_volume v" and "round_inv v s" and "y_flight s n = None"
  shows "pass_effect v n s (agent_pass v n (y_snap s) k s)"
proof -
  let ?env = "pass_env v n (y_snap s) k s"
  have del: "sn_deletionTimestamp (y_snap s) = None" and drbd: "drbd (spec v) \<noteq> None"
    using assms(1,2) by (simp_all add: round_inv_def round_volume_def)
  have ready: "pass_effect v n s (foldl (perform n k) s (fst (case liftHeld ?env (y_snap s) v of
      Some (as, ok) \<Rightarrow> (as, ending 0 ok) | None \<Rightarrow> ([ThawFS], Requeue 0))))"
    if "sn_readyToUse (y_snap s)"
  proof -
    have "\<not> open_round v s" using that assms(2) by (auto simp: open_round_def round_inv_def ready_ok_def)
    then show ?thesis
      using resume_effect [OF assms(2), of n k] idle_effect by (auto simp: liftHeld_def split_beta split: option.split)
  qed
  show ?thesis
    unfolding agent_pass_def snapshot_Reconcile_def
    using ready replicated_effect [OF assms(1-3)] idle_effect
    by (simp add: del drbd Let_def)
qed

section \<open>Preservation\<close>

lemma set_slots_lookup: "map_of (set_slots ns st m) k = (if k \<in> set ns then Some st else map_of m k)"
  by (induction ns arbitrary: m) (auto simp: set_slots_def update_conv')

lemmas round_state_defs = slot_def raised_def in_round_def has_cut_def all_done_def open_round_def

text \<open>What each conjunct of the invariant depends on.\<close>

lemma clock_cong: "y_snap t = y_snap s \<Longrightarrow> y_now t = y_now s \<Longrightarrow> clock_ok t = clock_ok s"
  by (simp add: clock_ok_def)

lemma copies_cong: "y_up t = y_up s \<Longrightarrow> y_data t = y_data s \<Longrightarrow> copies_ok v t = copies_ok v s"
  by (simp add: copies_ok_def)

lemma flights_cong: "y_snap t = y_snap s \<Longrightarrow> y_flight t = y_flight s \<Longrightarrow> flights_ok v t = flights_ok v s"
  by (simp add: flights_ok_def raised_def slot_def)

lemma barrier_cong:
  "y_snap t = y_snap s \<Longrightarrow> y_flight t = y_flight s \<Longrightarrow> y_kernel t = y_kernel s \<Longrightarrow> y_primary t = y_primary s \<Longrightarrow>
   y_now t = y_now s \<Longrightarrow> barrier_ok v t = barrier_ok v s"
  by (simp add: barrier_ok_def round_state_defs)

lemma cuts_cong:
  "y_snap t = y_snap s \<Longrightarrow> y_flight t = y_flight s \<Longrightarrow> y_leg t = y_leg s \<Longrightarrow> y_data t = y_data s \<Longrightarrow>
   y_now t = y_now s \<Longrightarrow> cuts_ok v t = cuts_ok v s"
  by (simp add: cuts_ok_def round_state_defs)

lemma ready_cong: "y_snap t = y_snap s \<Longrightarrow> y_leg t = y_leg s \<Longrightarrow> ready_ok v t = ready_ok v s"
  by (simp add: ready_ok_def)

lemmas inv_congs = clock_cong copies_cong flights_cong barrier_cong cuts_cong ready_cong

lemma round_inv_parts:
  assumes "round_inv v s"
  shows "sn_uid (y_snap s) \<noteq> ''''" and "sn_deletionTimestamp (y_snap s) = None" and "clock_ok s" and "copies_ok v s"
    and "flights_ok v s" and "barrier_ok v s" and "cuts_ok v s" and "ready_ok v s"
  using assms by (simp_all add: round_inv_def)

lemma barrier_step:
  assumes "round_inv v s"
    and "b \<or> b = y_kernel s n \<or> \<not> open_round v s \<or> n \<in> diskful_nodes v \<and> \<not> raised s n \<and> y_flight s n = None"
  shows "round_inv v (s\<lparr>y_kernel := (y_kernel s)(n := b)\<rparr>)"
proof -
  let ?s = "s\<lparr>y_kernel := (y_kernel s)(n := b)\<rparr>"
  have e: "slot ?s = slot s" "raised ?s = raised s" "in_round ?s = in_round s" "has_cut ?s = has_cut s"
    "all_done v ?s = all_done v s" "open_round v ?s = open_round v s"
    by (auto simp: round_state_defs fun_eq_iff)
  have n: "\<not> in_round s n st" if "y_flight s n = None" for st using that by (simp add: in_round_def)
  have "barrier_ok v s" using assms(1) by (simp add: round_inv_def)
  moreover have k: "y_kernel ?s m = (if m = n then b else y_kernel s m)" "y_primary ?s = y_primary s" for m by simp_all
  ultimately have "barrier_ok v ?s"
    using assms(2) n unfolding barrier_ok_def e k(2) by (auto simp only: k split: if_splits)
  then show ?thesis
    using round_inv_parts [OF assms(1)] inv_congs [of ?s s] by (simp add: round_inv_def)
qed

lemma opened_slots:
  assumes "se_node env = n"
  shows "map_of (sn_perNode (openedSnap env snap v)) m =
    (if m = n then Some SnapshotSuspended else if m \<in> diskful_nodes v then Some SnapshotPending else map_of (sn_perNode snap) m)"
  using assms by (auto simp: openedSnap_def update_conv' set_slots_lookup diskful_nodes_def)

lemma open_step:
  assumes "round_inv v s" and "\<not> sn_ioSuspended (y_snap s)" and "\<not> sn_readyToUse (y_snap s)"
    and "coordinatorFor n v (kernel_status v s n)" and "se_node env = n" and "se_now env = y_now s"
  shows "round_inv v (s\<lparr>y_kernel := (y_kernel s)(n := True), y_snap := openedSnap env (y_snap s) v\<rparr>)" (is "round_inv v ?s")
proof -
  let ?o = "openedSnap env (y_snap s) v"
  have f: "sn_ioSuspended ?o" "sn_suspendedAt ?o = Some (y_now s)" "\<not> sn_readyToUse ?o"
    "sn_uid ?o = sn_uid (y_snap s)" "sn_deletionTimestamp ?o = sn_deletionTimestamp (y_snap s)"
    using assms(3,6) by (simp_all add: openedSnap_def)
  have old: "t < y_now s" if "y_flight s m = Some (st, t)" for m st t
    using round_inv_parts(3,5) [OF assms(1)] assms(2,3) that unfolding flights_ok_def clock_ok_def by fastforce
  have sl: "slot ?s m = Some SnapshotPending" if "m \<in> diskful_nodes v" "m \<noteq> n" for m
    using that by (simp add: slot_def opened_slots [OF assms(5)])
  have sn: "slot ?s n = Some SnapshotSuspended" by (simp add: slot_def opened_slots [OF assms(5)])
  have nr: "\<not> in_round ?s m st" for m st using old by (auto simp: in_round_def f)
  have nc: "\<not> has_cut ?s m" if "m \<in> diskful_nodes v" for m using sl [OF that] sn nr that by (cases "m = n") (auto simp: has_cut_def)
  have "p = n" if "y_primary s = Some p" for p
    using assms(4) that by (auto simp: coordinatorFor_def kernel_status_def split: if_split_asm)
  moreover have "m = n" if "raised ?s m" "m \<in> diskful_nodes v" for m using sl [of m] that by (cases "m = n") (auto simp: raised_def)
  ultimately have "barrier_ok v ?s" using nr by (auto simp: barrier_ok_def)
  moreover have "cuts_ok v ?s" using nc by (simp add: cuts_ok_def)
  moreover have "flights_ok v s" using assms(1) by (simp add: round_inv_def)
  then have "flights_ok v ?s" using old by (fastforce simp: flights_ok_def f)
  moreover have "clock_ok ?s" "ready_ok v ?s" using f by (simp_all add: clock_ok_def ready_ok_def)
  ultimately show ?thesis using round_inv_parts [OF assms(1)] f copies_cong [of ?s s v] by (simp add: round_inv_def)
qed

lemma raise_step:
  assumes "round_inv v s" and "sn_ioSuspended (y_snap s)" and "sn_suspendedAt (y_snap s) = Some t"
    and "n \<in> diskful_nodes v" and "\<not> raised s n"
  shows "round_inv v (s\<lparr>y_kernel := (y_kernel s)(n := True), y_flight := (y_flight s)(n := Some (SnapshotSuspended, t))\<rparr>)"
    (is "round_inv v ?s")
proof -
  have e: "slot ?s = slot s" "raised ?s = raised s" "all_done v ?s = all_done v s" "open_round v ?s = open_round v s"
    by (auto simp: round_state_defs fun_eq_iff)
  have ir: "in_round ?s m st \<Longrightarrow> m = n \<or> in_round s m st" for m st by (auto simp: in_round_def split: if_split_asm)
  have hc: "has_cut ?s m \<Longrightarrow> has_cut s m" for m by (auto simp: has_cut_def e in_round_def split: if_split_asm)
  have "barrier_ok v s" "cuts_ok v s" "flights_ok v s" using assms(1) by (simp_all add: round_inv_def)
  then have "barrier_ok v ?s" using assms(4) ir unfolding barrier_ok_def e by auto
  moreover have "cuts_ok v ?s" using \<open>cuts_ok v s\<close> hc unfolding cuts_ok_def e by simp blast
  moreover have "flights_ok v ?s" using \<open>flights_ok v s\<close> assms(2-) unfolding flights_ok_def e by auto
  ultimately show ?thesis
    using round_inv_parts [OF assms(1)] clock_cong [of ?s s] copies_cong [of ?s s v] ready_cong [of ?s s v]
    by (simp add: round_inv_def)
qed

lemma cut_step:
  assumes inv: "round_inv v s" and "y_flight s n = None" and io: "sn_ioSuspended (y_snap s)"
    and at: "sn_suspendedAt (y_snap s) = Some t" and "\<not> roundExpired (y_now s) (y_snap s)" and n: "n \<in> diskful_nodes v"
    and sl: "slot s n = Some SnapshotSuspended" and all: "\<forall>m\<in>diskful_nodes v. raised s m \<and> y_up s m"
    and f: "f = Some (SnapshotDone, t) \<and> l = Some (y_data s n) \<or> f = None"
  shows "round_inv v (s\<lparr>y_kernel := (y_kernel s)(n := True), y_leg := (y_leg s)(n := l), y_flight := (y_flight s)(n := f)\<rparr>)"
    (is "round_inv v ?s")
proof -
  have e: "slot ?s = slot s" "raised ?s = raised s" "all_done v ?s = all_done v s" "open_round v ?s = open_round v s"
    by (auto simp: round_state_defs fun_eq_iff)
  have "\<not> all_done v s" using n sl by (auto simp: all_done_def intro: bexI [of _ n])
  then have op: "open_round v s" using assms by (simp add: open_round_def)
  have d: "y_data s m = y_data s n" if "m \<in> diskful_nodes v" for m
    using round_inv_parts(4) [OF inv] all n that unfolding copies_ok_def by blast
  have leg: "y_leg s m = Some (y_data s n)" if "m \<in> diskful_nodes v" "has_cut s m" for m
    using round_inv_parts(7) [OF inv] io op n that unfolding cuts_ok_def by metis
  have ir: "in_round ?s m st \<Longrightarrow> m = n \<or> in_round s m st" for m st by (auto simp: in_round_def split: if_split_asm)
  have hc: "m \<noteq> n \<and> has_cut s m \<or> m = n \<and> l = Some (y_data s n)" if "has_cut ?s m" for m
    using that f sl by (auto simp: has_cut_def e in_round_def split: if_split_asm)
  have "cuts_ok v ?s"
    unfolding cuts_ok_def e using all leg d hc by (intro impI conjI exI [of _ "y_data s n"]) auto
  moreover have "barrier_ok v ?s"
    using round_inv_parts(6) [OF inv] ir unfolding barrier_ok_def e by auto
  moreover have "flights_ok v ?s"
    using round_inv_parts(5) [OF inv] n at io f unfolding flights_ok_def e by (auto split: if_split_asm)
  moreover have "ready_ok v ?s" using round_inv_parts(8) [OF inv] io by (simp add: ready_ok_def)
  ultimately show ?thesis
    using round_inv_parts [OF inv] clock_cong [of ?s s] copies_cong [of ?s s v] by (simp add: round_inv_def)
qed

lemma publish_step:
  assumes inv: "round_inv v s" and io: "sn_ioSuspended (y_snap s)" and dn: "all_done v s"
  shows "round_inv v (s\<lparr>y_kernel := (y_kernel s)(n := b), y_snap := publishedSnap (y_snap s) v\<rparr>)" (is "round_inv v ?s")
proof -
  have f: "sn_ioSuspended (y_snap ?s) \<longleftrightarrow> False" "sn_suspendedAt (y_snap ?s) = sn_suspendedAt (y_snap s)"
    "sn_readyToUse (y_snap ?s) \<longleftrightarrow> True"
    "sn_uid (y_snap ?s) = sn_uid (y_snap s)" "sn_deletionTimestamp (y_snap ?s) = sn_deletionTimestamp (y_snap s)"
    "y_now ?s = y_now s" "y_flight ?s = y_flight s" "y_leg ?s = y_leg s"
    by (simp_all add: publishedSnap_def)
  have "\<exists>c. \<forall>m\<in>diskful_nodes v. y_leg s m = Some c"
    using round_inv_parts(7) [OF inv] io dn unfolding cuts_ok_def has_cut_def all_done_def by blast
  then have "ready_ok v ?s" by (simp only: ready_ok_def f simp_thms)
  moreover have "clock_ok ?s" using round_inv_parts(3) [OF inv] unfolding clock_ok_def f by blast
  moreover have "flights_ok v ?s" using round_inv_parts(5) [OF inv] unfolding flights_ok_def f simp_thms by blast
  moreover have "cuts_ok v ?s" "barrier_ok v ?s" by (simp_all only: cuts_ok_def barrier_ok_def open_round_def f simp_thms)
  ultimately show ?thesis
    using round_inv_parts(1,2,4) [OF inv] copies_cong [of ?s s v] by (simp add: round_inv_def publishedSnap_def)
qed

lemma void_step:
  assumes inv: "round_inv v s" and ex: "roundExpired (y_now s) (y_snap s)"
    and nr: "\<not> sn_readyToUse (y_snap s)" and now: "se_now env = y_now s"
  shows "round_inv v (s\<lparr>y_kernel := (y_kernel s)(n := b), y_snap := voidedSnap env (y_snap s) v\<rparr>)" (is "round_inv v ?s")
proof -
  have f: "sn_ioSuspended (y_snap ?s) \<longleftrightarrow> False" "sn_suspendedAt (y_snap ?s) = Some (y_now s)" "\<not> sn_readyToUse (y_snap ?s)"
    "sn_uid (y_snap ?s) = sn_uid (y_snap s)" "sn_deletionTimestamp (y_snap ?s) = sn_deletionTimestamp (y_snap s)"
    "y_now ?s = y_now s" "y_flight ?s = y_flight s"
    using nr now by (simp_all add: voidedSnap_def)
  have old: "m \<in> diskful_nodes v \<and> (st = SnapshotSuspended \<or> st = SnapshotDone) \<and> t < y_now s"
    if "y_flight s m = Some (st, t)" for m st t
    using round_inv_parts(5) [OF inv] that ex unfolding flights_ok_def roundExpired_def SuspendDeadline_def seconds_def
    by fastforce
  have "ready_ok v ?s" using f(3) by (simp only: ready_ok_def simp_thms)
  moreover have "clock_ok ?s" using f by (simp add: clock_ok_def)
  moreover have "flights_ok v ?s" using old unfolding flights_ok_def f by fastforce
  moreover have "cuts_ok v ?s" "barrier_ok v ?s" by (simp_all only: cuts_ok_def barrier_ok_def open_round_def f simp_thms)
  ultimately show ?thesis
    using round_inv_parts(1,2,4) [OF inv] f copies_cong [of ?s s v] by (simp add: round_inv_def)
qed

lemma lost_step:
  assumes inv: "round_inv v s"
  shows "round_inv v (s\<lparr>y_flight := (y_flight s)(n := None)\<rparr>)" (is "round_inv v ?s")
proof -
  have e: "slot ?s = slot s" "raised ?s = raised s" "all_done v ?s = all_done v s" "open_round v ?s = open_round v s"
    by (auto simp: round_state_defs fun_eq_iff)
  have ir: "in_round ?s m st \<Longrightarrow> in_round s m st" for m st by (auto simp: in_round_def split: if_split_asm)
  then have hc: "has_cut ?s m \<Longrightarrow> has_cut s m" for m by (auto simp: has_cut_def e)
  have "cuts_ok v ?s" using round_inv_parts(7) [OF inv] hc unfolding cuts_ok_def e by simp blast
  moreover have "barrier_ok v ?s"
    using round_inv_parts(6) [OF inv] ir unfolding barrier_ok_def e by auto
  moreover have "flights_ok v ?s"
    using round_inv_parts(5) [OF inv] unfolding flights_ok_def e by (auto split: if_split_asm)
  ultimately show ?thesis
    using round_inv_parts [OF inv] inv_congs [of ?s s] by (simp add: round_inv_def)
qed

lemma land_step:
  assumes inv: "round_inv v s"
  shows "round_inv v (land n s)"
proof (cases "\<exists>st t. y_flight s n = Some (st, t) \<and> sn_ioSuspended (y_snap s) \<and> sn_suspendedAt (y_snap s) = Some t")
  case False
  then have "land n s = s\<lparr>y_flight := (y_flight s)(n := None)\<rparr>"
    by (auto simp: land_def fun_upd_idem split: option.split)
  then show ?thesis using lost_step [OF inv] by simp
next
  case True
  then obtain st t where fl: "y_flight s n = Some (st, t)" and io: "sn_ioSuspended (y_snap s)"
    and at: "sn_suspendedAt (y_snap s) = Some t" by blast
  let ?s = "s\<lparr>y_flight := (y_flight s)(n := None),
    y_snap := (y_snap s)\<lparr>sn_perNode := AList.update n st (sn_perNode (y_snap s))\<rparr>\<rparr>"
  have eq: "land n s = ?s" using True fl by (auto simp: land_def Let_def)
  have sl: "slot ?s m = (if m = n then Some st else slot s m)" for m by (simp add: slot_def update_conv')
  have nd: "n \<in> diskful_nodes v" and st: "st = SnapshotSuspended \<or> st = SnapshotDone" and
    up: "st = SnapshotSuspended \<Longrightarrow> \<not> raised s n"
    using round_inv_parts(5) [OF inv] fl at io unfolding flights_ok_def by fastforce+
  have rd: "raised ?s m \<longleftrightarrow> m = n \<or> raised s m" for m using st by (auto simp: raised_def sl)
  have ir: "in_round ?s m st' \<longleftrightarrow> m \<noteq> n \<and> in_round s m st'" for m st' by (simp add: in_round_def)
  have hc: "has_cut ?s m \<Longrightarrow> has_cut s m" for m
    using fl at by (cases "m = n") (auto simp: has_cut_def sl ir, simp add: in_round_def)
  have "all_done v s \<Longrightarrow> all_done v ?s"
    using st up nd by (auto simp: all_done_def sl raised_def)
  then have op: "open_round v ?s \<Longrightarrow> open_round v s" by (auto simp: open_round_def roundExpired_def)
  have rn: "in_round s n st" using fl at by (simp add: in_round_def)
  have "barrier_ok v ?s"
    using round_inv_parts(6) [OF inv] op nd rn unfolding barrier_ok_def rd ir by auto
  moreover have "cuts_ok v ?s"
    using round_inv_parts(7) [OF inv] op hc io unfolding cuts_ok_def rd by simp blast
  moreover have "flights_ok v ?s"
    using round_inv_parts(5) [OF inv] unfolding flights_ok_def rd by (auto split: if_split_asm)
  moreover have "clock_ok ?s" "ready_ok v ?s"
    using round_inv_parts(3,8) [OF inv] by (simp_all add: clock_ok_def ready_ok_def)
  ultimately show ?thesis
    using round_inv_parts(1,2,4) [OF inv] copies_cong [of ?s s v] unfolding eq by (simp add: round_inv_def)
qed

lemma tick_step:
  assumes inv: "round_inv v s" and d: "0 \<le> d"
  shows "round_inv v (s\<lparr>y_now := y_now s + d\<rparr>)" (is "round_inv v ?s")
proof -
  have e: "slot ?s = slot s" "raised ?s = raised s" "in_round ?s = in_round s" "has_cut ?s = has_cut s"
    by (auto simp: round_state_defs fun_eq_iff)
  have op: "open_round v ?s \<Longrightarrow> open_round v s"
    using d by (auto simp: open_round_def roundExpired_def all_done_def e split: option.split_asm)
  have "barrier_ok v ?s" using round_inv_parts(6) [OF inv] op unfolding barrier_ok_def e by simp
  moreover have "cuts_ok v ?s" using round_inv_parts(7) [OF inv] op unfolding cuts_ok_def e by simp blast
  moreover have "clock_ok ?s" using round_inv_parts(3) [OF inv] d by (fastforce simp: clock_ok_def)
  ultimately show ?thesis
    using round_inv_parts [OF inv] inv_congs [of ?s s] by (simp add: round_inv_def)
qed

lemma write_step:
  assumes inv: "round_inv v s" and p: "y_primary s = Some p" and k: "\<not> y_kernel s p"
  shows "round_inv v (s\<lparr>y_data := (\<lambda>n. if y_up s n then c else y_data s n)\<rparr>)" (is "round_inv v ?s")
proof -
  have e: "slot ?s = slot s" "raised ?s = raised s" "in_round ?s = in_round s" "has_cut ?s = has_cut s"
    "all_done v ?s = all_done v s" "open_round v ?s = open_round v s"
    by (auto simp: round_state_defs fun_eq_iff)
  have no: "\<not> open_round v s" if "\<exists>n\<in>diskful_nodes v. has_cut s n"
    using round_inv_parts(6,7) [OF inv] that p k unfolding barrier_ok_def cuts_ok_def open_round_def by blast
  have "cuts_ok v ?s" using round_inv_parts(7) [OF inv] no unfolding cuts_ok_def e by simp
  moreover have "copies_ok v ?s" by (simp add: copies_ok_def)
  ultimately show ?thesis
    using round_inv_parts [OF inv] inv_congs [of ?s s] by (simp add: round_inv_def)
qed

lemma primary_step:
  assumes inv: "round_inv v s" and p: "\<And>n. q = Some n \<Longrightarrow> n \<in> diskful_nodes v \<or> \<not> sn_ioSuspended (y_snap s)"
  shows "round_inv v (s\<lparr>y_primary := q\<rparr>)" (is "round_inv v ?s")
proof -
  have e: "slot ?s = slot s" "raised ?s = raised s" "in_round ?s = in_round s" "open_round v ?s = open_round v s"
    by (auto simp: round_state_defs fun_eq_iff)
  have "barrier_ok v ?s"
    using round_inv_parts(6) [OF inv] p unfolding barrier_ok_def e by (auto simp: open_round_def)
  then show ?thesis
    using round_inv_parts [OF inv] inv_congs [of ?s s] by (simp add: round_inv_def)
qed

lemma drop_step:
  assumes inv: "round_inv v s"
  shows "round_inv v (s\<lparr>y_up := (y_up s)(n := False)\<rparr>)" (is "round_inv v ?s")
proof -
  have e: "y_up ?s k \<Longrightarrow> y_up s k" "y_data ?s = y_data s" for k by (auto split: if_split_asm)
  have "copies_ok v ?s" using round_inv_parts(4) [OF inv] e(1) unfolding copies_ok_def e(2) by blast
  then show ?thesis
    using round_inv_parts [OF inv] inv_congs [of ?s s] by (simp add: round_inv_def)
qed

lemma resync_step:
  assumes inv: "round_inv v s" and m: "y_up s m" "m \<in> diskful_nodes v"
  shows "round_inv v (s\<lparr>y_up := (y_up s)(n := True), y_data := (y_data s)(n := y_data s m)\<rparr>)" (is "round_inv v ?s")
proof -
  have e: "slot ?s = slot s" "raised ?s = raised s" "in_round ?s = in_round s" "has_cut ?s = has_cut s"
    "all_done v ?s = all_done v s" "open_round v ?s = open_round v s"
    by (auto simp: round_state_defs fun_eq_iff)
  have c: "y_data s k = y_data s m" if "k \<in> diskful_nodes v" "y_up s k" for k
    using round_inv_parts(4) [OF inv] that m unfolding copies_ok_def by blast
  have "y_data ?s k = y_data s m" if "k \<in> diskful_nodes v" "y_up ?s k" for k
    using c [of k] that by (auto split: if_split_asm)
  then have "copies_ok v ?s" unfolding copies_ok_def by metis
  moreover have "cuts_ok v ?s" using round_inv_parts(7) [OF inv] m(2) unfolding cuts_ok_def e by simp metis
  ultimately show ?thesis
    using round_inv_parts [OF inv] inv_congs [of ?s s] by (simp add: round_inv_def)
qed

lemma sweep_step:
  assumes inv: "round_inv v s" and "\<not> round_fresh (y_now s) (y_snap s)"
    and "sn_suspendedAt (y_snap s) \<noteq> Some (y_now s - SuspendDeadline)"
  shows "round_inv v (s\<lparr>y_kernel := (y_kernel s)(n := False)\<rparr>)"
proof -
  have "\<not> open_round v s"
    using round_inv_parts(3) [OF inv] assms(2,3)
    by (auto simp: open_round_def round_fresh_def roundExpired_def clock_ok_def split: option.split_asm)
  then show ?thesis using barrier_step [OF inv] by blast
qed

lemma pass_effect_step:
  assumes inv: "round_inv v s" and fl: "y_flight s n = None" and pe: "pass_effect v n s t"
  shows "round_inv v t"
  using pe
proof cases
  case (Barrier b)
  then show ?thesis using barrier_step [OF inv, of b n] fl by blast
next
  case (Open env)
  then show ?thesis using open_step [OF inv] by blast
next
  case (Raise t)
  then show ?thesis using raise_step [OF inv] by blast
next
  case (Cut t f l)
  then show ?thesis using cut_step [OF inv fl] by blast
next
  case (Publish b)
  then show ?thesis using publish_step [OF inv] by blast
next
  case (Void env b)
  then show ?thesis using void_step [OF inv] by blast
qed

lemma round_step_inv:
  assumes "round_volume v" and inv: "round_inv v s" and "round_step v s t"
  shows "round_inv v t"
  using assms(3)
proof cases
  case (Pass n k)
  then show ?thesis using pass_effect_step [OF inv _ agent_pass_effect [OF assms(1) inv]] by blast
next
  case (Land n)
  then show ?thesis using land_step [OF inv] by simp
next
  case (Lost n)
  then show ?thesis using lost_step [OF inv] by simp
next
  case (Tick d)
  then show ?thesis using tick_step [OF inv] by simp
next
  case (Write p c)
  then show ?thesis using write_step [OF inv] by simp
next
  case (Promote p)
  then show ?thesis using primary_step [OF inv, of "Some p"] by (auto simp: diskful_nodes_iff)
next
  case Demote
  then show ?thesis using primary_step [OF inv, of None] by simp
next
  case (Drop n)
  then show ?thesis using drop_step [OF inv] by simp
next
  case (Resync m n)
  then show ?thesis using resync_step [OF inv, of m n] by (simp add: diskful_nodes_iff)
next
  case (Sweep n)
  then show ?thesis using sweep_step [OF inv] by simp
qed

lemma round_reach_inv: "round_reach v s t \<Longrightarrow> round_volume v \<Longrightarrow> round_inv v s \<Longrightarrow> round_inv v t"
  by (induction rule: round_reach.induct) (auto intro: round_step_inv)

text \<open>A snapshot just created, of a volume whose up-to-date legs agree.\<close>

definition round_start :: "MiroirVolume \<Rightarrow> round_sys \<Rightarrow> bool" where
  "round_start v s \<longleftrightarrow> sn_uid (y_snap s) \<noteq> '''' \<and> sn_deletionTimestamp (y_snap s) = None \<and> \<not> sn_ioSuspended (y_snap s) \<and>
     \<not> sn_readyToUse (y_snap s) \<and> sn_suspendedAt (y_snap s) = None \<and> y_flight s = (\<lambda>_. None) \<and> copies_ok v s"

lemma round_start_inv: "round_start v s \<Longrightarrow> round_inv v s"
  unfolding round_start_def round_inv_def clock_ok_def flights_ok_def barrier_ok_def cuts_ok_def ready_ok_def open_round_def
  by simp


text \<open>A round of a volume with two legs, its workload on one of them, in which everything works.\<close>

definition lucky :: luck where
  "lucky = \<lparr>k_answers = True, k_fails = 0, k_backend = True, k_freeze = True, k_suspend = True, k_resume = True,
     k_sync = True, k_delete = True, k_cut = True, k_apply = True, k_patch = True, k_landed = False, k_committed = False\<rparr>"

definition round_example_volume :: MiroirVolume where
  "round_example_volume =
     (let v = example_volume (example_spec [example_replica ''a'' 0 ''10.0.0.1'', example_replica ''b'' 1 ''10.0.0.2''] []) []
      in v\<lparr>status := (status v)\<lparr>perNode := map (\<lambda>n. (n, zero_status\<lparr>st_diskState := DiskUpToDate\<rparr>)) [''a'', ''b'']\<rparr>\<rparr>)"

definition round_example_start :: round_sys where
  "round_example_start = \<lparr>y_snap = \<lparr>sn_name = ''snap-1'', sn_uid = ''u1'', sn_ownerKinds = [], sn_volumeName = ''pvc-1'', sn_group = '''',
       sn_readyToUse = False, sn_perNode = [], sn_sizeBytes = 0, sn_sourceFormatted = False, sn_ioSuspended = False,
       sn_suspendedAt = None, sn_finalizers = [], sn_deletionTimestamp = None\<rparr>,
     y_kernel = (\<lambda>_. False), y_data = (\<lambda>_. 7), y_leg = (\<lambda>_. None), y_up = (\<lambda>_. True), y_primary = Some ''a'',
     y_now = 1000, y_flight = (\<lambda>_. None)\<rparr>"

definition turn :: "string \<Rightarrow> round_sys \<Rightarrow> round_sys" where
  "turn n s = agent_pass round_example_volume n (y_snap s) lucky s"

lemma turn_reach: "round_reach round_example_volume s t \<Longrightarrow> y_flight t n = None \<Longrightarrow> round_reach round_example_volume s (turn n t)"
  unfolding turn_def by (rule round_reach.Step [OF _ round_step.Pass])

lemma land_reach: "round_reach v s t \<Longrightarrow> round_reach v s (land n t)"
  by (rule round_reach.Step [OF _ round_step.Land])

definition round_example_end :: round_sys where
  "round_example_end = turn ''a'' (land ''b'' (turn ''b'' (land ''a'' (turn ''a'' (land ''b'' (turn ''b'' (turn ''a'' round_example_start)))))))"

lemma round_example_reach: "round_reach round_example_volume round_example_start round_example_end"
  unfolding round_example_end_def
  apply (rule turn_reach)
   apply (rule land_reach)
   apply (rule turn_reach)
    apply (rule land_reach)
    apply (rule turn_reach)
     apply (rule land_reach)
     apply (rule turn_reach)
      apply (rule turn_reach)
       apply (rule round_reach.Start)
      apply code_simp
     apply code_simp
    apply code_simp
   apply code_simp
  apply code_simp
  done


section \<open>No barrier outlives the deadline\<close>


definition round_example_late :: round_sys where
  "round_example_late = (let s = turn ''a'' round_example_start in s\<lparr>y_now := y_now s + 61000000000\<rparr>)"


section \<open>The sweep in the window before the round is recorded\<close>

text \<open>The coordinator's opening pass stopped before its status write; the sweep, which sees no
  recorded round, lifts its barrier; then the write lands.\<close>

definition swept_window :: round_sys where
  "swept_window = foldl (perform ''a'' lucky) round_example_start
     (butlast (fst (snapshot_Reconcile (pass_env round_example_volume ''a'' (y_snap round_example_start) lucky round_example_start))))"

definition swept_open :: round_sys where
  "swept_open = perform ''a'' lucky (swept_window\<lparr>y_kernel := (y_kernel swept_window)(''a'' := False)\<rparr>)
     (last (fst (snapshot_Reconcile (pass_env round_example_volume ''a'' (y_snap round_example_start) lucky round_example_start))))"

text \<open>The peer raises its barrier and cuts, the workload writes, the coordinator cuts and publishes.\<close>

definition swept_cut :: round_sys where
  "swept_cut = land ''b'' (turn ''b'' (land ''b'' (turn ''b'' swept_open)))"

definition swept_written :: round_sys where
  "swept_written = swept_cut\<lparr>y_data := (\<lambda>n. if y_up swept_cut n then 8 else y_data swept_cut n)\<rparr>"

definition swept_end :: round_sys where
  "swept_end = turn ''a'' (land ''a'' (turn ''a'' swept_written))"

text \<open>A sweep between the coordinator's suspend-io and its status write costs more than the file
  system freeze: the peer cuts its leg while the Primary still writes, so the published legs
  hold different bytes.\<close>

theorem swept_round_diverges:
  "y_kernel swept_window ''a'' \<and> \<not> round_fresh (y_now swept_window) (y_snap swept_window) \<and>
   y_primary swept_cut = Some ''a'' \<and> \<not> y_kernel swept_cut ''a'' \<and>
   sn_readyToUse (y_snap swept_end) \<and> y_leg swept_end ''a'' = Some 8 \<and> y_leg swept_end ''b'' = Some 7"
proof (intro conjI)
  show "y_kernel swept_window ''a''" by code_simp
  show "\<not> round_fresh (y_now swept_window) (y_snap swept_window)" by code_simp
  show "y_primary swept_cut = Some ''a''" by code_simp
  show "\<not> y_kernel swept_cut ''a''" by code_simp
  show "sn_readyToUse (y_snap swept_end)" by code_simp
  show "y_leg swept_end ''a'' = Some 8" by code_simp
  show "y_leg swept_end ''b'' = Some 7" by code_simp
qed

section \<open>A pass on a view older than its own patch\<close>

text \<open>The published round, a write of the workload, and a pass of the peer whose informer still
  shows the round open and its own slot Suspended.\<close>

definition stale_view :: MiroirSnapshot where
  "stale_view = y_snap (land ''a'' (turn ''a'' (land ''b'' (turn ''b'' (turn ''a'' round_example_start)))))"

definition stale_recut :: round_sys where
  "stale_recut = agent_pass round_example_volume ''b'' stale_view lucky (round_example_end\<lparr>y_data := (\<lambda>_. 8)\<rparr>)"

text \<open>The cut is fenced by no test of the recorded round: such a pass deletes the leg of a ready
  snapshot and cuts it again from later bytes; only the slot patch that follows is refused.\<close>

theorem stale_view_recuts:
  "sn_readyToUse (y_snap stale_recut) \<and> y_leg stale_recut ''a'' = Some 7 \<and> y_leg stale_recut ''b'' = Some 8 \<and>
   y_snap (land ''b'' stale_recut) = y_snap round_example_end"
proof (intro conjI)
  show "sn_readyToUse (y_snap stale_recut)" by code_simp
  show "y_leg stale_recut ''a'' = Some 7" by code_simp
  show "y_leg stale_recut ''b'' = Some 8" by code_simp
  show "y_snap (land ''b'' stale_recut) = y_snap round_example_end" by code_simp
qed

end
