(* ===== verification/Drbd_Res.thy ===== *)
theory Drbd_Res
  imports Api_Types Go_Strings Drbd_Status
begin

text \<open>
  The rendered DRBD configuration (\<^verbatim>\<open>internal/drbd/res.go\<close>): a resource and its peers, the text
  \<^verbatim>\<open>Render\<close> produces for one node, and the readers of such text (\<^verbatim>\<open>minorsInRes\<close>). With it the
  pure functions of the driver on resources: the winner of a birth (\<^verbatim>\<open>IsWinner\<close>), the metadata
  overhead of a padded backing (\<^verbatim>\<open>InternalMetaOverhead\<close>) and the parser of kernel events
  (\<^verbatim>\<open>parseEvent2\<close>). Text is bytes; Go's \<open>%q\<close> is modelled on ASCII, bytes above it are copied.
\<close>

section \<open>Resources\<close>

record Peer =
  p_node :: string
  p_nodeID :: int
  p_address :: string
  p_diskless :: bool
  p_client :: bool

record Resource =
  res_name :: string
  res_minor :: int
  res_port :: int
  res_quorum :: QuorumPolicy
  res_localNode :: string
  res_localDisk :: string
  res_localDiskless :: bool
  res_secret :: string
  res_skipDiskAttach :: bool
  res_discardGranularity :: int
  res_clientDiscardGranularity :: int
  res_bitmapGranularity :: int
  res_peers :: "Peer list"

section \<open>Rendering\<close>

abbreviation nl :: char where
  "nl \<equiv> CHR 0x0A"

definition quote_char :: "char \<Rightarrow> string" where
  "quote_char c =
     (let n = of_char c :: int
      in if n = 34 \<or> n = 92 then [CHR 0x5C, c]
         else if n = 7 then [CHR 0x5C, CHR ''a'']
         else if n = 8 then [CHR 0x5C, CHR ''b'']
         else if n = 12 then [CHR 0x5C, CHR ''f'']
         else if n = 10 then [CHR 0x5C, CHR ''n'']
         else if n = 13 then [CHR 0x5C, CHR ''r'']
         else if n = 9 then [CHR 0x5C, CHR ''t'']
         else if n = 11 then [CHR 0x5C, CHR ''v'']
         else if n < 32 \<or> n = 127 then [CHR 0x5C, CHR ''x'', hex_char (n div 16), hex_char (n mod 16)]
         else [c])"

definition quote :: "string \<Rightarrow> string" where
  "quote s = CHR 0x22 # concat (map quote_char s) @ [CHR 0x22]"

definition peerDiskPlaceholder :: string where
  "peerDiskPlaceholder = ''/dev/drbd/this/is/not/used''"

definition writeDiskOption :: "string \<Rightarrow> int \<Rightarrow> string list" where
  "writeDiskOption name val =
     (if val \<le> 0 then []
      else [''            disk {'', ''                '' @ name @ '' '' @ itoa val @ '';'', ''            }''])"

definition addressLine :: "Resource \<Rightarrow> Peer \<Rightarrow> string" where
  "addressLine r p =
     (if (case ParseIP (p_address p) of Some ip \<Rightarrow> \<not> To4 ip | None \<Rightarrow> False)
      then ''        address ipv6 ['' @ p_address p @ '']:'' @ itoa (res_port r) @ '';''
      else ''        address ipv4 '' @ p_address p @ '':'' @ itoa (res_port r) @ '';'')"

definition diskLines :: "Resource \<Rightarrow> Peer \<Rightarrow> string list" where
  "diskLines r p =
     (let here = (p_node p = res_localNode r)
      in if p_diskless p then
           [''            disk none;''] @
           (if p_client p then [''            tiebreaker no;''] else []) @
           (if here then writeDiskOption ''discard-granularity'' (res_clientDiscardGranularity r) else [])
         else
           [''            disk '' @ quote (if here then res_localDisk r else peerDiskPlaceholder) @ '';'',
            ''            meta-disk internal;''] @
           (if here then writeDiskOption ''rs-discard-granularity'' (res_discardGranularity r) else []))"

definition deviceLine :: "Resource \<Rightarrow> string" where
  "deviceLine r = ''            device minor '' @ itoa (res_minor r) @ '';''"

definition peerLines :: "Resource \<Rightarrow> Peer \<Rightarrow> string list" where
  "peerLines r p =
     [''    on '' @ quote (p_node p) @ '' {'',
      ''        node-id '' @ itoa (p_nodeID p) @ '';'',
      addressLine r p,
      ''        volume 0 {'',
      deviceLine r] @
     diskLines r p @
     [''        }'', ''    }'']"

definition renderLines :: "Resource \<Rightarrow> string list" where
  "renderLines r =
     (let peers = sort_key p_nodeID (res_peers r)
      in [''# generated by miroir '' @ [CHR 0xE2, CHR 0x80, CHR 0x94] @ '' do not edit (source: MiroirVolume '' @
            res_name r @ '')'',
          ''resource '' @ quote (res_name r) @ '' {'',
          ''    options {'',
          ''        auto-promote yes;''] @
         (if res_quorum r = QuorumFreeze
          then [''        quorum majority;'', ''        on-no-quorum io-error;'']
          else [''        quorum off;'']) @
         [''    }'',
          ''    net {'',
          ''        protocol C;''] @
         (if res_secret r \<noteq> ''''
          then [''        cram-hmac-alg sha1;'', ''        shared-secret '' @ quote (res_secret r) @ '';''] else []) @
         [''        after-sb-0pri disconnect;'',
          ''        after-sb-1pri disconnect;'',
          ''        after-sb-2pri disconnect;'',
          ''    }''] @
         concat (map (peerLines r) peers) @
         [''    connection-mesh {'',
          ''        hosts '' @ join '' '' (map (quote \<circ> p_node) peers) @ '';'',
          ''    }'',
          ''}''])"

definition unlines :: "string list \<Rightarrow> string" where
  "unlines ls = concat (map (\<lambda>l. l @ [nl]) ls)"

definition Render :: "Resource \<Rightarrow> string" where
  "Render r = unlines (renderLines r)"

definition DevicePath :: "int \<Rightarrow> string" where
  "DevicePath minor = ''/dev/drbd'' @ itoa minor"

section \<open>Reading\<close>

definition lineMinors :: "string \<Rightarrow> int list" where
  "lineMinors line =
     (let f = Go_Strings.fields line
      in if 3 \<le> length f \<and> hd f = ''device'' \<and> f ! (length f - 2) = ''minor''
         then (case atoi (trim_suffix (last f) '';'') of Some n \<Rightarrow> [int32 n] | None \<Rightarrow> []) else [])"

definition minorsInRes :: "string \<Rightarrow> int list" where
  "minorsInRes raw = concat (map lineMinors (split_on nl raw))"

fun firstName :: "string list \<Rightarrow> string" where
  "firstName [] = ''''"
| "firstName (f # fs) = (case cut_prefix f ''name:'' of Some n \<Rightarrow> n | None \<Rightarrow> firstName fs)"

definition parseEvent2 :: "string \<Rightarrow> string" where
  "parseEvent2 line =
     (let f = Go_Strings.fields line
      in if length f < 3 then ''''
         else if hd f \<in> set [''exists'', ''create'', ''change'', ''destroy''] then firstName (drop 2 f)
         else '''')"

section \<open>The winner of a birth\<close>

definition lowestStep :: "int \<times> string \<Rightarrow> Peer \<Rightarrow> int \<times> string" where
  "lowestStep acc p =
     (if p_diskless p then acc
      else if fst acc = - 1 \<or> p_nodeID p < fst acc then (p_nodeID p, p_node p) else acc)"

definition IsWinner :: "Resource \<Rightarrow> bool" where
  "IsWinner r \<longleftrightarrow> snd (foldl lowestStep (- 1, '''') (res_peers r)) = res_localNode r"

section \<open>Metadata overhead\<close>

definition maxPeers :: int where
  "maxPeers = 7"

text \<open>Integer division as Go does it, towards zero.\<close>

definition go_div :: "int \<Rightarrow> int \<Rightarrow> int" where
  "go_div a b = sgn a * sgn b * (\<bar>a\<bar> div \<bar>b\<bar>)"

definition InternalMetaOverhead :: "int \<Rightarrow> int" where
  "InternalMetaOverhead bytes =
     (let perPeer = int64 (go_div bytes 32768 + 4096) AND NOT 4095;
          overhead = int64 (perPeer * (maxPeers + 1) + 8388608)
      in int64 (overhead + 4194304 - 1) AND NOT 4194303)"

section \<open>A rendered configuration gives its minor back\<close>

lemma fields_acc_word: "list_all (\<lambda>c. \<not> is_space c) w \<Longrightarrow> is_space c \<Longrightarrow> rev a @ w \<noteq> [] \<Longrightarrow>
    fields_acc a (w @ c # s) = (rev a @ w) # fields_acc [] s"
  by (induction w arbitrary: a) auto

lemma fields_acc_indent: "list_all is_space ind \<Longrightarrow> fields_acc [] (ind @ s) = fields_acc [] s"
  by (induction ind) auto

lemma fields_acc_end: "list_all (\<lambda>c. \<not> is_space c) w \<Longrightarrow> rev a @ w \<noteq> [] \<Longrightarrow> fields_acc a w = [rev a @ w]"
  by (induction w arbitrary: a) auto

text \<open>A line that starts with another word than \<^verbatim>\<open>device\<close> holds no minor.\<close>

lemma lineMinors_other:
  assumes "list_all is_space ind" and "list_all (\<lambda>c. \<not> is_space c) w" and "w \<noteq> []" and "w \<noteq> ''device''"
  shows "lineMinors (ind @ w @ CHR '' '' # s) = []"
  using assms fields_acc_word [of w "CHR '' ''" "[]" s]
  by (simp add: lineMinors_def Go_Strings.fields_def fields_acc_indent is_space_def)

lemma lineMinors_device:
  assumes "- (2 ^ 31) \<le> res_minor r" and "res_minor r < 2 ^ 31"
  shows "lineMinors (deviceLine r) = [res_minor r]"
proof -
  let ?d = "itoa (res_minor r) @ '';''"
  have m: "list_all (\<lambda>c. \<not> is_space c) (itoa n)" for n
    using show_nat_digits digit_not_space by (auto simp: itoa_def list_all_iff is_space_def [of "CHR ''-''"])
  then have "Go_Strings.fields (deviceLine r) = [''device'', ''minor'', ?d]"
    using fields_acc_indent [of "''            ''" "''device minor '' @ ?d"] fields_acc_end [of ?d "[]"]
    by (simp add: deviceLine_def Go_Strings.fields_def is_space_def)
  moreover have "atoi (itoa (res_minor r)) = Some (res_minor r)"
    using assms by (simp add: atoi_def parse_int_itoa)
  ultimately show ?thesis
    using assms by (simp add: lineMinors_def trim_suffix_def)
qed

lemma split_unlines: "list_all (\<lambda>l. nl \<notin> set l) ls \<Longrightarrow> split_on nl (unlines ls) = ls @ [[]]"
  by (induction ls) (auto simp: unlines_def split_on_word)

lemma minorsInRes_unlines:
  assumes "list_all (\<lambda>l. nl \<notin> set l) ls"
  shows "minorsInRes (unlines ls) = concat (map lineMinors ls)"
  using assms by (simp add: minorsInRes_def split_unlines lineMinors_def Go_Strings.fields_def)

lemma hex_char_no_nl: "0 \<le> d \<Longrightarrow> d < 16 \<Longrightarrow> hex_char d \<noteq> nl"
proof
  assume "0 \<le> d" "d < 16" and e: "hex_char d = nl"
  have "of_char (hex_char d) = (if d < 10 then 48 + d else 87 + d) mod 256" by (simp add: hex_char_def)
  then have "of_char (hex_char d) = (if d < 10 then 48 + d else 87 + d)" using \<open>0 \<le> d\<close> \<open>d < 16\<close> by auto
  then show False using \<open>0 \<le> d\<close> unfolding e by (auto split: if_split_asm)
qed

lemma quote_no_nl: "nl \<notin> set (quote s)"
proof -
  have "nl \<notin> set (quote_char c)" for c
  proof -
    let ?n = "of_char c :: int"
    have r: "0 \<le> ?n" by (metis of_char_mod_256 pos_mod_sign zero_less_numeral)
    have "?n < 256" by (metis of_char_mod_256 pos_mod_bound zero_less_numeral)
    then have "0 \<le> ?n div 16" "?n div 16 < 16" using r by simp_all
    moreover have "c = nl \<Longrightarrow> ?n = 10" by simp
    ultimately show ?thesis
      using hex_char_no_nl [of "?n div 16"] hex_char_no_nl [of "?n mod 16"] r
      by (auto simp: quote_char_def Let_def)
  qed
  then show ?thesis by (auto simp: quote_def)
qed

lemma itoa_no_nl: "nl \<notin> set (itoa n)"
  using show_nat_digits [of nl] by (auto simp: itoa_def digit_val_def)

lemma join_no_nl: "nl \<notin> set sep \<Longrightarrow> list_all (\<lambda>w. nl \<notin> set w) ws \<Longrightarrow> nl \<notin> set (join sep ws)"
  by (induction sep ws rule: join.induct) auto

definition one_line :: "Resource \<Rightarrow> bool" where
  "one_line r \<longleftrightarrow> nl \<notin> set (res_name r) \<and> list_all (\<lambda>p. nl \<notin> set (p_address p)) (res_peers r)"

declare quote_no_nl [simp] itoa_no_nl [simp]

lemma diskLines_no_nl: "list_all (\<lambda>l. nl \<notin> set l) (diskLines r p)"
  by (auto simp: diskLines_def writeDiskOption_def Let_def)

lemma renderLines_no_nl:
  assumes "one_line r"
  shows "list_all (\<lambda>l. nl \<notin> set l) (renderLines r)"
proof -
  have "nl \<notin> set (addressLine r p)" if "p \<in> set (res_peers r)" for p
    using assms that by (auto simp: one_line_def list_all_iff addressLine_def)
  then have "list_all (\<lambda>l. nl \<notin> set l) (peerLines r p)" if "p \<in> set (res_peers r)" for p
    using that diskLines_no_nl [of r p] by (simp add: peerLines_def deviceLine_def)
  then have p: "list_all (\<lambda>l. nl \<notin> set l) (concat (map (peerLines r) (sort_key p_nodeID (res_peers r))))"
    by (auto simp: list_all_iff)
  have h: "nl \<notin> set (join '' '' (map (quote \<circ> p_node) ps))" for ps
    by (rule join_no_nl) (simp_all add: list_all_iff)
  show ?thesis using assms p h [of "sort_key p_nodeID (res_peers r)"] by (auto simp: renderLines_def Let_def one_line_def)
qed

lemmas line_other = lineMinors_other [of "''    ''"] lineMinors_other [of "''        ''"]
  lineMinors_other [of "''            ''"] lineMinors_other [of "''                ''"]

lemma lineMinors_plain:
  "lineMinors ''    options {'' = []" "lineMinors ''        auto-promote yes;'' = []"
  "lineMinors ''        quorum majority;'' = []" "lineMinors ''        on-no-quorum io-error;'' = []"
  "lineMinors ''        quorum off;'' = []" "lineMinors ''    }'' = []" "lineMinors ''    net {'' = []"
  "lineMinors ''        protocol C;'' = []" "lineMinors ''        cram-hmac-alg sha1;'' = []"
  "lineMinors ''        after-sb-0pri disconnect;'' = []" "lineMinors ''        after-sb-1pri disconnect;'' = []"
  "lineMinors ''        after-sb-2pri disconnect;'' = []" "lineMinors ''    connection-mesh {'' = []"
  "lineMinors ''}'' = []" "lineMinors ''        volume 0 {'' = []" "lineMinors ''        }'' = []"
  "lineMinors ''            disk none;'' = []" "lineMinors ''            tiebreaker no;'' = []"
  "lineMinors ''            meta-disk internal;'' = []" "lineMinors ''            disk {'' = []"
  "lineMinors ''            }'' = []"
  by code_simp+

lemma diskLines_minors: "concat (map lineMinors (diskLines r p)) = []"
  using lineMinors_other [of "''            ''" "''disk''"]
    lineMinors_other [of "''                ''" "''discard-granularity''"]
    lineMinors_other [of "''                ''" "''rs-discard-granularity''"]
  by (auto simp: diskLines_def writeDiskOption_def Let_def lineMinors_plain is_space_def)

lemma peerLines_minors:
  assumes "- (2 ^ 31) \<le> res_minor r" and "res_minor r < 2 ^ 31"
  shows "concat (map lineMinors (peerLines r p)) = [res_minor r]"
proof -
  have "lineMinors (addressLine r p) = []"
    using lineMinors_other [of "''        ''" "''address''"] by (simp add: addressLine_def is_space_def)
  then show ?thesis
    using lineMinors_other [of "''    ''" "''on''"] lineMinors_other [of "''        ''" "''node-id''"] lineMinors_device [OF assms]
      diskLines_minors [of r p]
    by (simp add: peerLines_def lineMinors_plain is_space_def)
qed

lemma renderLines_minors:
  assumes "- (2 ^ 31) \<le> res_minor r" and "res_minor r < 2 ^ 31"
  shows "concat (map lineMinors (renderLines r)) = replicate (length (res_peers r)) (res_minor r)"
proof -
  have "concat (map lineMinors (concat (map (peerLines r) ps))) = replicate (length ps) (res_minor r)" for ps
    using peerLines_minors [OF assms] by (induction ps) simp_all
  then show ?thesis
    using lineMinors_other [of "''''" "''#''"] lineMinors_other [of "''''" "''resource''"]
      lineMinors_other [of "''        ''" "''shared-secret''"] lineMinors_other [of "''        ''" "''hosts''"]
    by (auto simp: renderLines_def Let_def lineMinors_plain is_space_def)
qed

lemma minorsInRes_Render:
  assumes "one_line r" and "- (2 ^ 31) \<le> res_minor r" and "res_minor r < 2 ^ 31"
  shows "minorsInRes (Render r) = replicate (length (res_peers r)) (res_minor r)"
  using renderLines_minors [OF assms(2,3)] minorsInRes_unlines [OF renderLines_no_nl [OF assms(1)]]
  by (simp add: Render_def)

section \<open>One winner\<close>

lemma lowestStep_fold:
  assumes "\<forall>p\<in>set ps. 0 \<le> p_nodeID p" and "acc = (- 1, '''') \<or> 0 \<le> fst acc"
  shows "let res = foldl lowestStep acc ps
    in (res = acc \<or> (\<exists>p\<in>set ps. \<not> p_diskless p \<and> res = (p_nodeID p, p_node p))) \<and>
       (\<forall>p\<in>set ps. \<not> p_diskless p \<longrightarrow> 0 \<le> fst res \<and> fst res \<le> p_nodeID p) \<and>
       (0 \<le> fst acc \<longrightarrow> fst res \<le> fst acc)"
  using assms
proof (induction ps arbitrary: acc rule: list.induct)
  case Nil
  then show ?case by simp
next
  case (Cons p ps)
  have "lowestStep acc p = (- 1, '''') \<or> 0 \<le> fst (lowestStep acc p)"
    using Cons.prems by (auto simp: lowestStep_def)
  then show ?case
    using Cons.IH [of "lowestStep acc p"] Cons.prems
    by (auto simp: Let_def lowestStep_def split: if_split_asm)
qed

lemma IsWinner_iff:
  assumes "\<forall>p\<in>set (res_peers r). 0 \<le> p_nodeID p" and "distinct (map p_nodeID (res_peers r))"
    and "\<exists>p\<in>set (res_peers r). \<not> p_diskless p"
  shows "IsWinner r \<longleftrightarrow> (\<exists>p\<in>set (res_peers r). p_node p = res_localNode r \<and> \<not> p_diskless p \<and>
    (\<forall>q\<in>set (res_peers r). \<not> p_diskless q \<longrightarrow> p_nodeID p \<le> p_nodeID q))"
proof -
  let ?w = "foldl lowestStep (- 1, '''') (res_peers r)"
  obtain p where p: "p \<in> set (res_peers r)" "\<not> p_diskless p" "?w = (p_nodeID p, p_node p)"
    and least: "\<forall>q\<in>set (res_peers r). \<not> p_diskless q \<longrightarrow> p_nodeID p \<le> p_nodeID q"
    using lowestStep_fold [of "res_peers r" "(- 1, '''')"] assms(1,3) by (auto simp: Let_def)
  have u: "q = p" if "q \<in> set (res_peers r)" "\<not> p_diskless q"
    "\<forall>q'\<in>set (res_peers r). \<not> p_diskless q' \<longrightarrow> p_nodeID q \<le> p_nodeID q'" for q
  proof -
    have "p_nodeID q = p_nodeID p" using that p least by (simp add: order.antisym)
    then show ?thesis using that(1) p(1) assms(2) by (auto simp: distinct_map dest: inj_onD)
  qed
  have "IsWinner r \<longleftrightarrow> p_node p = res_localNode r" by (simp add: IsWinner_def p(3))
  then show ?thesis using u p(1,2) least by metis
qed

section \<open>The metadata overhead\<close>

lemma InternalMetaOverhead_eq:
  assumes "0 \<le> bytes" and "bytes < 2 ^ 63"
  shows "InternalMetaOverhead bytes =
    (let perPeer = (bytes div 32768 + 4096) div 4096 * 4096
     in (perPeer * 8 + 8388608 + 4194303) div 4194304 * 4194304)"
proof -
  have a: "(x::int) AND NOT 4095 = x div 4096 * 4096" for x
    using and_not_mask_int [of x 12] by (simp add: minus_mod_eq_div_mult)
  have b: "(x::int) AND NOT 4194303 = x div 4194304 * 4194304" for x
    using and_not_mask_int [of x 22] by (simp add: minus_mod_eq_div_mult)
  have g: "go_div bytes 32768 = bytes div 32768" using assms(1) by (cases "bytes = 0") (simp_all add: go_div_def)
  define k where "k = bytes div 32768"
  have k: "0 \<le> k" "k < 2 ^ 48" using assms by (simp_all add: k_def)
  define m where "m = (k + 4096) div 4096 * 4096"
  have m: "0 \<le> m" "m \<le> k + 4096" using k by (simp_all add: m_def)
  have i: "int64 (k + 4096) = k + 4096" "int64 (m * 8 + 8388608) = m * 8 + 8388608"
    "int64 (m * 8 + 8388608 + 4194304 - 1) = m * 8 + 8388608 + 4194303"
    using k m by simp_all
  have e: "m * (7 + 1) + 8388608 = m * 8 + 8388608" by simp
  show ?thesis
    unfolding InternalMetaOverhead_def g k_def [symmetric] a i(1) m_def [symmetric] Let_def maxPeers_def e i(2) i(3) b ..
qed

lemma div_mult_bounds: "0 < d \<Longrightarrow> x div d * d \<le> x \<and> x < x div d * d + (d::int)"
  using pos_mod_sign [of d x] pos_mod_bound [of d x] by (simp add: minus_mod_eq_div_mult [symmetric])

lemma overhead_arith:
  fixes a b c m w :: int
  assumes "w \<le> m * 8 + 12582911" and "m \<le> a + 4096" and "a < m" and "a * 32768 \<le> b" and "b < a * 32768 + 32768"
    and "b < c * 4096 + 4096"
  shows "w < c + 12620000" and "b \<le> m * 8 * 4096"
  using assms by linarith+

text \<open>
  C35. The pad of a restore that gains replication is large enough and cannot wrap: for every size a
  64-bit device can have, it holds the bitmaps of eight peer slots at one bit per 4 KiB block, each
  rounded up to a 4 KiB block, with 8 MiB to spare; it is a whole number of 4 MiB extents, and at
  most 256 KiB for each GiB plus a constant.
\<close>

theorem InternalMetaOverhead_bounds:
  assumes "0 \<le> bytes" and "bytes < 2 ^ 63"
  shows "InternalMetaOverhead bytes mod 4194304 = 0 \<and>
    (\<exists>slot. slot mod 4096 = 0 \<and> bytes \<le> slot * 8 * 4096 \<and> 8 * slot + 8388608 \<le> InternalMetaOverhead bytes) \<and>
    InternalMetaOverhead bytes < bytes div 4096 + 12620000"
proof -
  define m where "m = (bytes div 32768 + 4096) div 4096 * 4096"
  have e: "InternalMetaOverhead bytes = (m * 8 + 12582911) div 4194304 * 4194304"
    using InternalMetaOverhead_eq [OF assms] by (simp add: Let_def m_def add.commute)
  have m: "m mod 4096 = 0" "m \<le> bytes div 32768 + 4096" "bytes div 32768 < m"
    using div_mult_bounds [of 4096 "bytes div 32768 + 4096"] by (simp_all add: m_def)
  have o: "m * 8 + 8388608 \<le> InternalMetaOverhead bytes" "InternalMetaOverhead bytes \<le> m * 8 + 12582911"
    unfolding e using div_mult_bounds [of 4194304 "m * 8 + 12582911"] by simp_all
  have d: "bytes div 32768 * 32768 \<le> bytes" "bytes < bytes div 32768 * 32768 + 32768"
    "bytes < bytes div 4096 * 4096 + 4096"
    by (simp_all only: div_mult_bounds zero_less_numeral)
  note overhead_arith [OF o(2) m(2,3) d]
  moreover note o
  moreover have "InternalMetaOverhead bytes mod 4194304 = 0" unfolding e by simp
  ultimately show ?thesis using m(1) by (intro conjI exI [of _ m]) (simp_all add: mult.commute)
qed

theorem InternalMetaOverhead_bounds_witness:
  "InternalMetaOverhead 107374182400 mod 4194304 = 0 \<and> InternalMetaOverhead 107374182400 < 107374182400 div 4096 + 12620000"
  using InternalMetaOverhead_bounds [of 107374182400] by simp

end
