(* ===== verification/Node_Wedge.thy ===== *)
theory Node_Wedge
  imports Go_Strings
begin

text \<open>
  The node's circuit breaker over host commands (\<^verbatim>\<open>internal/backend/wedge.go\<close>) and the runner it
  gates (\<^verbatim>\<open>internal/backend/exec.go\<close>). A child killed at its deadline that stays in
  uninterruptible sleep is recorded under its process id; enough of them, or a latched kernel
  assertion, refuse every further command. Which tasks still sleep is what \<^verbatim>\<open>/proc\<close> says at the
  time of the read, the argument \<open>alive\<close>. The mutex makes each operation atomic, apart from the
  \<^verbatim>\<open>/proc\<close> reads of \<^verbatim>\<open>Stranded\<close>, which only ever drop records of drained children.
\<close>

section \<open>The breaker\<close>

definition parseProcState :: "string \<Rightarrow> char option" where
  "parseProcState data =
     (if CHR '')'' \<notin> set data then None
      else (case Go_Strings.fields (rev (takeWhile (\<lambda>c. c \<noteq> CHR '')'') (rev data))) of
              [] \<Rightarrow> None
            | f # _ \<Rightarrow> Some (hd f)))"

definition stranded :: "string option \<Rightarrow> bool" where
  "stranded stat \<longleftrightarrow> (case stat of None \<Rightarrow> False | Some data \<Rightarrow> parseProcState data = Some CHR ''D'')"

record Wedge =
  w_limit :: int
  w_children :: "(int \<times> string) list"
  w_latched :: string

definition DefaultWedgeLimit :: int where
  "DefaultWedgeLimit = 3"

definition NewWedge :: "int \<Rightarrow> Wedge" where
  "NewWedge limit = \<lparr>w_limit = limit, w_children = [], w_latched = ''''\<rparr>"

definition Latch :: "string \<Rightarrow> Wedge \<Rightarrow> Wedge" where
  "Latch reason w = (if w_latched w = '''' then w\<lparr>w_latched := reason\<rparr> else w)"

definition wedge_record :: "int \<Rightarrow> string \<Rightarrow> Wedge \<Rightarrow> Wedge" where
  "wedge_record pid cmd w = w\<lparr>w_children := AList.update pid cmd (w_children w)\<rparr>"

definition retire :: "int \<Rightarrow> Wedge \<Rightarrow> Wedge" where
  "retire pid w = w\<lparr>w_children := AList.delete pid (w_children w)\<rparr>"

text \<open>Every read prunes first; the pruned breaker is what the operations below leave behind.\<close>

definition prune :: "(int \<Rightarrow> bool) \<Rightarrow> Wedge \<Rightarrow> Wedge" where
  "prune alive w = w\<lparr>w_children := filter (\<lambda>(pid, _). alive pid) (w_children w)\<rparr>"

definition Stranded :: "(int \<Rightarrow> bool) \<Rightarrow> Wedge \<Rightarrow> nat" where
  "Stranded alive w = length (w_children (prune alive w))"

definition StrandedTripped :: "(int \<Rightarrow> bool) \<Rightarrow> Wedge \<Rightarrow> bool" where
  "StrandedTripped alive w = (if w_limit w \<le> 0 then False else w_limit w \<le> int (Stranded alive w))"

definition Tripped :: "(int \<Rightarrow> bool) \<Rightarrow> Wedge \<Rightarrow> bool" where
  "Tripped alive w = (if w_latched w \<noteq> '''' then True else StrandedTripped alive w)"

definition StrandedCommand :: "(int \<Rightarrow> bool) \<Rightarrow> Wedge \<Rightarrow> string \<Rightarrow> bool" where
  "StrandedCommand alive w line = list_ex (\<lambda>(_, cmd). cmd = line) (w_children (prune alive w))"

definition Commands :: "(int \<Rightarrow> bool) \<Rightarrow> Wedge \<Rightarrow> string list" where
  "Commands alive w =
     sort (map snd (w_children (prune alive w)) @ (if w_latched w \<noteq> '''' then [w_latched w] else []))"

definition wedge_Err :: "(int \<Rightarrow> bool) \<Rightarrow> Wedge \<Rightarrow> string option" where
  "wedge_Err alive w =
     (if \<not> Tripped alive w then None
      else Some (''node storage stack wedged: node reboot required (stuck: '' @ join ''; '' (Commands alive w) @ '')''))"

section \<open>The runner\<close>

definition CommandLine :: "string \<Rightarrow> string list \<Rightarrow> string" where
  "CommandLine name args = trim_space (name @ '' '' @ join '' '' args)"

text \<open>What becomes of a spawned child: it cannot be started, it exits (before or after the kill at the
  deadline), or it outlives the kill.\<close>

datatype child = NotStarted string | Exited "string option" string | Outlives int

datatype run_error = NodeWedged string | CommandFailed string

text \<open>The gate before the child is spawned. A latched breaker, or one that counts nothing, answers
  without pruning; a refusal lists the stuck commands and prunes.\<close>

definition run_gate :: "(int \<Rightarrow> bool) \<Rightarrow> string \<Rightarrow> Wedge \<Rightarrow> run_error option \<times> Wedge" where
  "run_gate alive line w =
     (case wedge_Err alive w of
        Some e \<Rightarrow> (Some (NodeWedged (line @ '': '' @ e)), prune alive w)
      | None \<Rightarrow> (None, if w_limit w \<le> 0 then w else prune alive w))"

definition run_child :: "string \<Rightarrow> child \<Rightarrow> Wedge \<Rightarrow> (run_error + string) \<times> Wedge" where
  "run_child line c w =
     (case c of
        NotStarted e \<Rightarrow> (Inl (CommandFailed (line @ '': '' @ e)), w)
      | Exited None out \<Rightarrow> (Inr out, w)
      | Exited (Some e) out \<Rightarrow> (Inl (CommandFailed (line @ '': '' @ e @ '': '' @ trim_space out)), w)
      | Outlives pid \<Rightarrow>
          (Inl (CommandFailed (line @ '': context deadline exceeded: child '' @ itoa pid @
                  '' still alive after SIGKILL (uninterruptible sleep)'')),
           wedge_record pid line w))"

definition Run :: "(int \<Rightarrow> bool) \<Rightarrow> string list \<Rightarrow> child \<Rightarrow> Wedge \<Rightarrow> (run_error + string) \<times> Wedge" where
  "Run alive cmd c w =
     (let line = CommandLine (hd cmd) (tl cmd)
      in case run_gate alive line w of
           (Some e, w') \<Rightarrow> (Inl e, w')
         | (None, w') \<Rightarrow> run_child line c w')"

section \<open>Commands on a node\<close>

text \<open>Callers run commands concurrently: between the gate and the end of its child a command is in
  flight. A child that outlives its kill sleeps until the kernel lets it go, and the goroutine that
  waits for it then retires its record. The read that finds a child awake before that prunes it.\<close>

record node =
  n_wedge :: Wedge
  n_inflight :: "string list"
  n_sleeping :: "int list"

inductive node_step :: "nat \<Rightarrow> node \<Rightarrow> node \<Rightarrow> bool" for workers :: nat where
  spawn: "run_gate (\<lambda>pid. pid \<in> set (n_sleeping s)) line (n_wedge s) = (None, w) \<Longrightarrow>
    length (n_inflight s) < workers \<Longrightarrow>
    node_step workers s (s\<lparr>n_wedge := w, n_inflight := line # n_inflight s\<rparr>)"
| refused: "run_gate (\<lambda>pid. pid \<in> set (n_sleeping s)) line (n_wedge s) = (Some e, w) \<Longrightarrow>
    node_step workers s (s\<lparr>n_wedge := w\<rparr>)"
| exits: "line \<in> set (n_inflight s) \<Longrightarrow> \<forall>pid. c \<noteq> Outlives pid \<Longrightarrow>
    node_step workers s (s\<lparr>n_wedge := snd (run_child line c (n_wedge s)), n_inflight := remove1 line (n_inflight s)\<rparr>)"
| strands: "line \<in> set (n_inflight s) \<Longrightarrow> pid \<notin> set (n_sleeping s) \<Longrightarrow>
    node_step workers s (s\<lparr>n_wedge := snd (run_child line (Outlives pid) (n_wedge s)),
      n_inflight := remove1 line (n_inflight s), n_sleeping := pid # n_sleeping s\<rparr>)"
| wakes: "node_step workers s (s\<lparr>n_sleeping := removeAll pid (n_sleeping s)\<rparr>)"
| reaped: "pid \<notin> set (n_sleeping s) \<Longrightarrow> node_step workers s (s\<lparr>n_wedge := retire pid (n_wedge s)\<rparr>)"
| latches: "node_step workers s (s\<lparr>n_wedge := Latch reason (n_wedge s)\<rparr>)"

definition node_start :: "int \<Rightarrow> node" where
  "node_start limit = \<lparr>n_wedge = NewWedge limit, n_inflight = [], n_sleeping = []\<rparr>"

definition node_inv :: "int \<Rightarrow> nat \<Rightarrow> node \<Rightarrow> bool" where
  "node_inv limit workers s \<longleftrightarrow>
     w_limit (n_wedge s) = limit \<and> distinct (map fst (w_children (n_wedge s))) \<and> distinct (n_sleeping s) \<and>
     set (n_sleeping s) \<subseteq> set (map fst (w_children (n_wedge s))) \<and> length (n_inflight s) \<le> workers \<and>
     int (length (n_sleeping s) + length (n_inflight s)) \<le> limit - 1 + int workers"

lemma prune_fields [simp]:
  "w_limit (prune alive w) = w_limit w" "w_latched (prune alive w) = w_latched w"
  "w_children (prune alive w) = filter (\<lambda>(pid, _). alive pid) (w_children w)"
  by (simp_all add: prune_def)

lemma distinct_keys_filter: "distinct (map fst xs) \<Longrightarrow> distinct (map fst (filter P xs))"
  by (auto simp: distinct_map intro: inj_on_subset)

lemma keys_delete: "fst ` set (AList.delete k al) = fst ` set al - {k}"
  by (auto simp: AList.delete_eq)

lemma keys_alive: "fst ` set (filter (\<lambda>(pid, _). pid \<in> A) xs) = fst ` set xs \<inter> A"
  by force

lemma Stranded_sleeping:
  assumes "distinct (map fst (w_children w))" and "distinct xs" and "set xs \<subseteq> set (map fst (w_children w))"
  shows "Stranded (\<lambda>pid. pid \<in> set xs) w = length xs"
proof -
  let ?f = "filter (\<lambda>(pid, _). pid \<in> set xs) (w_children w)"
  have "length ?f = card (set (map fst ?f))"
    using distinct_keys_filter [OF assms(1)] by (metis distinct_card length_map)
  also have "set (map fst ?f) = set xs" using assms(3) keys_alive [of "set xs" "w_children w"] by (simp add: Int_absorb1)
  finally show ?thesis using assms(2) by (simp add: Stranded_def distinct_card)
qed

lemma run_gate_pass:
  assumes "run_gate alive line w = (None, w')"
  shows "w_latched w = ''''" and "0 < w_limit w \<Longrightarrow> int (Stranded alive w) < w_limit w"
    and "w' = (if w_limit w \<le> 0 then w else prune alive w)"
  using assms by (auto simp: run_gate_def wedge_Err_def Tripped_def StrandedTripped_def split: option.splits if_splits)

lemma run_gate_refuse: "run_gate alive line w = (Some e, w') \<Longrightarrow> w' = prune alive w"
  by (auto simp: run_gate_def split: option.splits)

lemma node_inv_prune:
  assumes "node_inv limit workers s"
  shows "node_inv limit workers (s\<lparr>n_wedge := prune (\<lambda>pid. pid \<in> set (n_sleeping s)) (n_wedge s)\<rparr>)"
  using assms keys_alive [of "set (n_sleeping s)" "w_children (n_wedge s)"]
  by (auto simp: node_inv_def distinct_keys_filter)

lemma node_inv_spawn:
  assumes inv: "node_inv limit workers s" and pos: "0 < limit"
    and gate: "run_gate (\<lambda>pid. pid \<in> set (n_sleeping s)) line (n_wedge s) = (None, w)"
    and room: "length (n_inflight s) < workers"
  shows "node_inv limit workers (s\<lparr>n_wedge := w, n_inflight := line # n_inflight s\<rparr>)"
proof -
  have "length (n_sleeping s) = Stranded (\<lambda>pid. pid \<in> set (n_sleeping s)) (n_wedge s)"
    using inv by (simp add: node_inv_def Stranded_sleeping)
  then have "int (length (n_sleeping s)) < limit"
    using run_gate_pass(2) [OF gate] inv pos by (simp add: node_inv_def)
  moreover have "w = prune (\<lambda>pid. pid \<in> set (n_sleeping s)) (n_wedge s)"
    using run_gate_pass(3) [OF gate] inv pos by (simp add: node_inv_def)
  ultimately show ?thesis using node_inv_prune [OF inv] room by (simp add: node_inv_def)
qed

lemma node_inv_strands:
  assumes "node_inv limit workers s" and "line \<in> set (n_inflight s)" and "pid \<notin> set (n_sleeping s)"
  shows "node_inv limit workers (s\<lparr>n_wedge := wedge_record pid line (n_wedge s),
      n_inflight := remove1 line (n_inflight s), n_sleeping := pid # n_sleeping s\<rparr>)"
proof -
  have "length (n_inflight s) = Suc (length (remove1 line (n_inflight s)))"
    using assms(2) length_pos_if_in_set [OF assms(2)] by (simp add: length_remove1)
  then show ?thesis
    using assms by (auto simp: node_inv_def wedge_record_def distinct_update dom_update)
qed

lemma node_inv_step: "node_step workers s t \<Longrightarrow> 0 < limit \<Longrightarrow> node_inv limit workers s \<Longrightarrow> node_inv limit workers t"
proof (induction rule: node_step.induct)
  case (spawn s line w)
  then show ?case by (intro node_inv_spawn)
next
  case (refused s line e w)
  then show ?case using run_gate_refuse node_inv_prune by metis
next
  case (exits line s c)
  then have "snd (run_child line c (n_wedge s)) = n_wedge s"
    by (auto simp: run_child_def split: child.splits option.splits)
  with exits show ?case by (auto simp: node_inv_def length_remove1)
next
  case (strands line s pid)
  then show ?case by (simp add: run_child_def node_inv_strands)
next
  case (wakes s pid)
  have "length (removeAll pid (n_sleeping s)) \<le> length (n_sleeping s)" by (simp add: removeAll_filter_not_eq)
  moreover have "int (length (n_sleeping s) + length (n_inflight s)) \<le> limit - 1 + int workers"
    using wakes by (simp add: node_inv_def)
  ultimately have "int (length (removeAll pid (n_sleeping s))) + int (length (n_inflight s)) \<le> limit - 1 + int workers"
    by linarith
  with wakes show ?case by (auto simp: node_inv_def distinct_removeAll)
next
  case (reaped pid s)
  then show ?case by (auto simp: node_inv_def retire_def distinct_delete keys_delete)
next
  case (latches s reason)
  then show ?case by (simp add: node_inv_def Latch_def)
qed

lemma node_inv_reach:
  assumes "(node_step workers)\<^sup>*\<^sup>* (node_start limit) s" and "0 < limit"
  shows "node_inv limit workers s"
  using assms(1)
proof (induction rule: rtranclp_induct)
  case base
  then show ?case using assms(2) by (simp add: node_inv_def node_start_def NewWedge_def)
next
  case (step s t)
  then show ?case using node_inv_step assms(2) by blast
qed

text \<open>
  C16. Whatever commands run, strand, drain or are refused on a node, with at most \<open>workers\<close> of them in
  flight at a time: every child still asleep in the kernel is on record, there are at most
  \<open>limit - 1 + workers\<close> of them, the gate refuses every command while \<open>limit\<close> or more sleep, and it lets
  commands through again, with no restart, as soon as fewer do, unless a kernel assertion latched it.
\<close>

theorem wedge_breaker:
  assumes "(node_step workers)\<^sup>*\<^sup>* (node_start limit) s" and "0 < limit"
  shows "Stranded (\<lambda>pid. pid \<in> set (n_sleeping s)) (n_wedge s) = length (n_sleeping s) \<and>
    int (length (n_sleeping s)) \<le> limit - 1 + int workers \<and>
    (fst (run_gate (\<lambda>pid. pid \<in> set (n_sleeping s)) line (n_wedge s)) = None \<longleftrightarrow>
       w_latched (n_wedge s) = '''' \<and> int (length (n_sleeping s)) < limit)"
proof -
  have inv: "node_inv limit workers s" using node_inv_reach [OF assms] .
  then have n: "Stranded (\<lambda>pid. pid \<in> set (n_sleeping s)) (n_wedge s) = length (n_sleeping s)"
    by (simp add: node_inv_def Stranded_sleeping)
  moreover have "w_limit (n_wedge s) = limit" using inv by (simp add: node_inv_def)
  ultimately show ?thesis using inv assms(2)
    by (auto simp: node_inv_def run_gate_def wedge_Err_def Tripped_def StrandedTripped_def)
qed

theorem wedge_breaker_witness:
  "fst (run_gate (\<lambda>pid. pid \<in> set []) ''drbdsetup status'' (n_wedge (node_start DefaultWedgeLimit))) = None"
  using wedge_breaker [of 1 DefaultWedgeLimit "node_start DefaultWedgeLimit" "''drbdsetup status''"]
  by (simp add: node_start_def NewWedge_def DefaultWedgeLimit_def)

end
