(* ===== verification/Effects.thy ===== *)
theory Effects
  imports Go_Strings
begin

text \<open>
  Operations that change a state and may fail: functions from a state to an error or a value and the
  state they leave, with the sequencing that Go's \<^verbatim>\<open>if err != nil { return err }\<close> spells out. The
  state is a type variable: the DRBD driver and the node agent's reconcilers run on their own. A
  relation between the states before and after is proved of a sequence from its parts once, in the
  locale \<open>step_relation\<close>.
\<close>

section \<open>Errors\<close>

text \<open>An error is its text and the sentinel it wraps, which \<^verbatim>\<open>errors.Is\<close> finds.\<close>

datatype err_kind =
  ErrPlain | ErrBusy | ErrWedged | ErrDownStranded | ErrNodeWedged | ErrExist | ErrNotExist | ErrRestoreSourceGone

datatype drv_error = DrvError (e_kind: err_kind) (e_text: string)

text \<open>\<^verbatim>\<open>fmt.Errorf("...: %w", err)\<close>.\<close>

definition wrap :: "string \<Rightarrow> drv_error \<Rightarrow> drv_error" where
  "wrap pre e = DrvError (e_kind e) (pre @ e_text e)"

section \<open>Sequencing\<close>

type_synonym ('s, 'a) eff = "'s \<Rightarrow> (drv_error + 'a) \<times> 's"

definition ret :: "'a \<Rightarrow> ('s, 'a) eff" where
  "ret x = (\<lambda>s. (Inr x, s))"

definition fail :: "drv_error \<Rightarrow> ('s, 'a) eff" where
  "fail e = (\<lambda>s. (Inl e, s))"

definition bindS :: "('s, 'a) eff \<Rightarrow> ('a \<Rightarrow> ('s, 'b) eff) \<Rightarrow> ('s, 'b) eff" where
  "bindS m f = (\<lambda>s. case m s of (Inl e, s') \<Rightarrow> (Inl e, s') | (Inr x, s') \<Rightarrow> f x s')"

definition thenS :: "('s, 'a) eff \<Rightarrow> ('s, 'b) eff \<Rightarrow> ('s, 'b) eff" where
  "thenS m n = bindS m (\<lambda>_. n)"

definition wrapS :: "string \<Rightarrow> ('s, 'a) eff \<Rightarrow> ('s, 'a) eff" where
  "wrapS pre m = (\<lambda>s. case m s of (Inl e, s') \<Rightarrow> (Inl (wrap pre e), s') | (Inr x, s') \<Rightarrow> (Inr x, s'))"

text \<open>The error as a value, where the code looks at it before it decides.\<close>

definition attempt :: "('s, 'a) eff \<Rightarrow> ('s, drv_error + 'a) eff" where
  "attempt m = (\<lambda>s. case m s of (r, s') \<Rightarrow> (Inr r, s'))"

lemmas step_defs = ret_def fail_def bindS_def thenS_def wrapS_def attempt_def

lemma bindS_Inr: "m s = (Inr x, s') \<Longrightarrow> bindS m f s = f x s'"
  by (simp add: bindS_def)

lemma bindS_Inl: "m s = (Inl e, s') \<Longrightarrow> bindS m f s = (Inl e, s')"
  by (simp add: bindS_def)

lemma thenS_Inr: "m s = (Inr x, s') \<Longrightarrow> thenS m n s = n s'"
  by (simp add: thenS_def bindS_def)

section \<open>What a step relates\<close>

text \<open>A reflexive and transitive relation between the states before and after a step holds of a sequence
  where it holds of its parts, whichever of them fails.\<close>

definition always :: "('s \<Rightarrow> 's \<Rightarrow> bool) \<Rightarrow> ('s, 'a) eff \<Rightarrow> bool" where
  "always R m \<longleftrightarrow> (\<forall>s. R s (snd (m s)))"

locale step_relation =
  fixes R :: "'s \<Rightarrow> 's \<Rightarrow> bool"
  assumes refl: "R s s" and trans: "R s t \<Longrightarrow> R t u \<Longrightarrow> R s u"
begin

lemma al_ret: "always R (ret x)"
  by (simp add: always_def ret_def refl)

lemma al_fail: "always R (fail e)"
  by (simp add: always_def fail_def refl)

lemma al_bind:
  assumes "always R m" and "\<And>x. always R (f x)"
  shows "always R (bindS m f)"
  unfolding always_def
proof
  fix s
  obtain r t where m: "m s = (r, t)" by (cases "m s")
  have st: "R s t" using assms(1) m unfolding always_def by (metis snd_conv)
  show "R s (snd (bindS m f s))"
  proof (cases r)
    case (Inr x)
    have "R t (snd (f x t))" using assms(2) by (simp add: always_def)
    then show ?thesis using st m Inr trans [of s t] by (simp add: bindS_def)
  qed (use st m in \<open>simp add: bindS_def\<close>)
qed

lemma al_then: "always R m \<Longrightarrow> always R n \<Longrightarrow> always R (thenS m n)"
  by (simp add: thenS_def al_bind)

lemma al_attempt: "always R m \<Longrightarrow> always R (attempt m)"
  by (auto simp: always_def attempt_def split: prod.splits) (metis snd_conv)

lemma al_wrap: "always R m \<Longrightarrow> always R (wrapS p m)"
  unfolding always_def wrapS_def
  by (metis (mono_tags, lifting) old.sum.exhaust prod.collapse snd_conv split_conv sum.simps(5) sum.simps(6))

lemma al_state: "(\<And>s. always R (f s)) \<Longrightarrow> always R (\<lambda>s. f s s)"
  by (simp add: always_def)

lemmas al_core = al_ret al_fail al_bind al_then al_attempt al_wrap

text \<open>The same at one state, where what a step answered may be used of those that follow it.\<close>

lemma at_ret: "R s (snd (ret x s))" and at_fail: "R s (snd (fail e s))"
  by (simp_all add: ret_def fail_def refl)

lemma at_bind:
  assumes "R s (snd (m s))" and "\<And>x t. m s = (Inr x, t) \<Longrightarrow> R t (snd (f x t))"
  shows "R s (snd (bindS m f s))"
proof (cases "m s")
  case (Pair r t)
  then show ?thesis using assms trans [of s t] by (cases r) (simp_all add: bindS_def)
qed

lemma at_then:
  "R s (snd (m s)) \<Longrightarrow> (\<And>x t. m s = (Inr x, t) \<Longrightarrow> R t (snd (n t))) \<Longrightarrow> R s (snd (thenS m n s))"
  unfolding thenS_def by (rule at_bind)

lemma at_attempt: "R s (snd (m s)) \<Longrightarrow> R s (snd (attempt m s))"
  by (cases "m s") (simp add: attempt_def)

lemmas at_core = at_ret at_fail at_bind at_then at_attempt

end

text \<open>An operation in two phases: what the first relates, then what the second does. It may fail in the
  first.\<close>

locale two_phases = first: step_relation A + second: step_relation B for A B :: "'s \<Rightarrow> 's \<Rightarrow> bool"
begin

lemma ph_first: "A s t \<Longrightarrow> (A OO B) s t"
  using second.refl by blast

lemma ph_second: "B s t \<Longrightarrow> (A OO B) s t"
  using first.refl by blast

lemma ph_bind:
  assumes "A s (snd (m s))" and "\<And>x t. m s = (Inr x, t) \<Longrightarrow> (A OO B) t (snd (f x t))"
  shows "(A OO B) s (snd (bindS m f s))"
proof (cases "m s")
  case (Pair r t)
  show ?thesis
  proof (cases r)
    case (Inl e)
    then show ?thesis using Pair assms(1) ph_first by (simp add: bindS_def)
  next
    case (Inr x)
    then obtain u where "A t u" "B u (snd (f x t))" using Pair assms(2) by blast
    then show ?thesis using Pair Inr assms(1) first.trans [of s t u] by (auto simp: bindS_def)
  qed
qed

lemma ph_then:
  "A s (snd (m s)) \<Longrightarrow> (\<And>x t. m s = (Inr x, t) \<Longrightarrow> (A OO B) t (snd (n t))) \<Longrightarrow> (A OO B) s (snd (thenS m n s))"
  unfolding thenS_def by (rule ph_bind)

end

end
