(* ===== verification/Drbd_State.thy ===== *)
theory Drbd_State
  imports Drbd_Res Node_Wedge Effects
begin

text \<open>
  The driver's state on one node (\<^verbatim>\<open>internal/drbd/drbd.go\<close>): the files of its state directory, the
  commands it has run, the resources it has seen wedged once. Operations are state transformers
  that end in an error or a value. What the node answers is a parameter: the output of a command
  and of \<^verbatim>\<open>drbdsetup status\<close> may depend on everything run before, and any file operation may fail.
  Modelled here are the file formats and the minor allocator: \<^verbatim>\<open>readAssignments\<close>,
  \<^verbatim>\<open>writeAssignments\<close>, \<^verbatim>\<open>AllocateMinor\<close>, \<^verbatim>\<open>releaseMinor\<close>, the pending forgets, \<^verbatim>\<open>writeConfig\<close>. A write
  is atomic, as \<^verbatim>\<open>writeFileAtomic\<close> makes it, so a crash leaves the state before or after it.
\<close>

section \<open>States and steps\<close>

text \<open>The log holds each command with what it answered.\<close>

type_synonym event = "string list \<times> (drv_error + string)"

record drv =
  dr_files :: "string gomap"
  dr_log :: "event list"
  dr_wedgeSeen :: "string list"

text \<open>What the node answers: a command's error or output; the status listing, a failed command, an
  output that is no JSON, or the parsed entries; whether a file operation on a path goes through
  (\<^verbatim>\<open>.\<close> is the directory itself); the resource lock, an expired context and a held try-lock; the
  breaker with the tasks asleep, absent when none is wired; the device node operations.\<close>

datatype list_answer = ListFailed drv_error | BadJson string | Listed "jsonStatus list"

datatype dev_stat = StatFailed drv_error | NoEntry | BlockDevice int int | OtherFile

record DriverEnv =
  x_exec :: "drv \<Rightarrow> string list \<Rightarrow> drv_error + string"
  x_list :: "drv \<Rightarrow> string list \<Rightarrow> list_answer"
  x_io :: "drv \<Rightarrow> string \<Rightarrow> bool"
  x_lock :: "drv \<Rightarrow> string \<Rightarrow> drv_error option"
  x_tryLock :: "drv \<Rightarrow> string \<Rightarrow> bool"
  x_expired :: "drv \<Rightarrow> drv_error option"
  x_wedge :: "drv \<Rightarrow> ((int \<Rightarrow> bool) \<times> Wedge) option"
  x_stat :: "drv \<Rightarrow> string \<Rightarrow> dev_stat"

type_synonym 'a step = "(drv, 'a) eff"

definition execS :: "DriverEnv \<Rightarrow> string list \<Rightarrow> string step" where
  "execS env cmd = (\<lambda>s. (x_exec env s cmd, s\<lparr>dr_log := dr_log s @ [(cmd, x_exec env s cmd)]\<rparr>))"

definition adm :: "DriverEnv \<Rightarrow> string list \<Rightarrow> string step" where
  "adm env args = execS env (''drbdadm'' # args)"

definition listStatus :: "DriverEnv \<Rightarrow> string list \<Rightarrow> jsonStatus list step" where
  "listStatus env name =
     (\<lambda>s. let r = (case x_list env s name of
                     ListFailed e \<Rightarrow> Inl (wrap ''status: '' e)
                   | BadJson e \<Rightarrow> Inl (DrvError ErrPlain (''parse status: '' @ e))
                   | Listed parsed \<Rightarrow> Inr parsed);
              a = (case r of Inl e \<Rightarrow> Inl e | Inr _ \<Rightarrow> Inr '''')
        in (r, s\<lparr>dr_log := dr_log s @ [([''drbdsetup'', ''status'', ''--json''] @ name, a)]\<rparr>))"

section \<open>Files\<close>

definition ioError :: "string \<Rightarrow> drv_error" where
  "ioError path = DrvError ErrPlain (''open '' @ path @ '': input/output error'')"

text \<open>\<^const>\<open>None\<close> is the file that does not exist. The lock file is not tracked, only that it opens.\<close>

definition readFile :: "DriverEnv \<Rightarrow> string \<Rightarrow> string option step" where
  "readFile env path = (\<lambda>s. if x_io env s path then (Inr (map_of (dr_files s) path), s) else (Inl (ioError path), s))"

definition writeFile :: "DriverEnv \<Rightarrow> string \<Rightarrow> string \<Rightarrow> unit step" where
  "writeFile env path data =
     (\<lambda>s. if x_io env s path then (Inr (), s\<lparr>dr_files := AList.update path data (dr_files s)\<rparr>) else (Inl (ioError path), s))"

definition removeFile :: "DriverEnv \<Rightarrow> string \<Rightarrow> unit step" where
  "removeFile env path =
     (\<lambda>s. if x_io env s path then (Inr (), s\<lparr>dr_files := AList.delete path (dr_files s)\<rparr>) else (Inl (ioError path), s))"

fun removeFiles :: "DriverEnv \<Rightarrow> string list \<Rightarrow> unit step" where
  "removeFiles env [] = ret ()"
| "removeFiles env (p # ps) = thenS (removeFile env p) (removeFiles env ps)"

definition pendingForgetSuffix :: string where
  "pendingForgetSuffix = ''.forget-pending''"

definition stateSuffixes :: "string list" where
  "stateSuffixes = [''.res'', ''.md-created'', ''.md-seeding'', ''.md-adopted'', ''.md-wiped'', pendingForgetSuffix]"

definition removeStateFiles :: "DriverEnv \<Rightarrow> string \<Rightarrow> unit step" where
  "removeStateFiles env name = removeFiles env (map (\<lambda>suffix. name @ suffix) stateSuffixes)"

definition writeConfig :: "DriverEnv \<Rightarrow> Resource \<Rightarrow> unit step" where
  "writeConfig env r =
     (let path = res_name r @ ''.res''
      in bindS (readFile env path) (\<lambda>current.
         if current = Some (Render r) then ret () else writeFile env path (Render r)))"

section \<open>Minors\<close>

definition minorBase :: int where
  "minorBase = 1000"

definition assignLine :: "string \<Rightarrow> (string \<times> int) option" where
  "assignLine line =
     (let line = trim_space line
      in if line = '''' then None
         else
           (case cut_at CHR '' '' line of
              None \<Rightarrow> None
            | Some (name, val) \<Rightarrow> (case atoi val of Some n \<Rightarrow> Some (name, int32 n) | None \<Rightarrow> None)))"

definition parseAssignments :: "string \<Rightarrow> int gomap" where
  "parseAssignments raw = foldl (\<lambda>m (k, n). AList.update k n m) [] (List.map_filter assignLine (split_on nl raw))"

definition renderAssignments :: "int gomap \<Rightarrow> string" where
  "renderAssignments m = unlines (map (\<lambda>(name, minor). name @ CHR '' '' # itoa minor) m)"

definition readAssignments :: "DriverEnv \<Rightarrow> int gomap step" where
  "readAssignments env =
     bindS (readFile env ''minor.assign'') (\<lambda>raw. ret (case raw of None \<Rightarrow> [] | Some text \<Rightarrow> parseAssignments text))"

definition writeAssignments :: "DriverEnv \<Rightarrow> int gomap \<Rightarrow> unit step" where
  "writeAssignments env m = writeFile env ''minor.assign'' (renderAssignments m)"

definition lockMinors :: "DriverEnv \<Rightarrow> unit step" where
  "lockMinors env =
     (\<lambda>s. if x_io env s ''minor.lock'' then (Inr (), s)
        else (Inl (wrap ''open minor lock: '' (ioError ''minor.lock'')), s))"

definition releaseMinor :: "DriverEnv \<Rightarrow> string \<Rightarrow> unit step" where
  "releaseMinor env volume =
     thenS (lockMinors env)
     (bindS (readAssignments env) (\<lambda>assigned.
        if has_key assigned volume then writeAssignments env (AList.delete volume assigned) else ret ()))"

text \<open>A \<^verbatim>\<open>.res\<close> that cannot be read counts as absent.\<close>

definition readRes :: "DriverEnv \<Rightarrow> string \<Rightarrow> int list step" where
  "readRes env path =
     (\<lambda>s. (Inr (case readFile env path s of (Inr (Some raw), _) \<Rightarrow> minorsInRes raw | _ \<Rightarrow> []), s))"

definition minorFromOwnRes :: "DriverEnv \<Rightarrow> string \<Rightarrow> int option step" where
  "minorFromOwnRes env volume =
     bindS (readRes env (volume @ ''.res'')) (\<lambda>ms. ret (case ms of [] \<Rightarrow> None | m # _ \<Rightarrow> Some m))"

fun resMinors :: "DriverEnv \<Rightarrow> string list \<Rightarrow> int list step" where
  "resMinors env [] = ret []"
| "resMinors env (p # ps) = bindS (readRes env p) (\<lambda>ms. bindS (resMinors env ps) (\<lambda>ns. ret (ms @ ns)))"

definition scanUsedMinors :: "DriverEnv \<Rightarrow> int gomap \<Rightarrow> int list step" where
  "scanUsedMinors env assigned =
     (\<lambda>s. if \<not> x_io env s ''.'' then (Inr (map snd assigned), s)
        else bindS (resMinors env (filter (\<lambda>p. has_suffix p ''.res'') (map fst (dr_files s))))
          (\<lambda>ms. ret (map snd assigned @ ms)) s)"

definition AllocateMinor :: "DriverEnv \<Rightarrow> string \<Rightarrow> int step" where
  "AllocateMinor env volume =
     thenS (lockMinors env)
     (bindS (readAssignments env) (\<lambda>assigned.
        case map_of assigned volume of
          Some m \<Rightarrow> ret m
        | None \<Rightarrow>
            bindS (minorFromOwnRes env volume) (\<lambda>own.
              case own of
                Some m \<Rightarrow> thenS (writeAssignments env (AList.update volume m assigned)) (ret m)
              | None \<Rightarrow>
                  bindS (scanUsedMinors env assigned) (\<lambda>used.
                    let m = lowest_free used minorBase
                    in thenS (writeAssignments env (AList.update volume m assigned)) (ret m)))))"

section \<open>Pending forgets\<close>

fun parseIds :: "string list \<Rightarrow> int list option" where
  "parseIds [] = Some []"
| "parseIds (f # fs) =
     (case parse_int 32 f of
        None \<Rightarrow> None
      | Some i \<Rightarrow> (case parseIds fs of None \<Rightarrow> None | Some is \<Rightarrow> Some (i # is)))"

definition readPendingForgets :: "DriverEnv \<Rightarrow> string \<Rightarrow> int list step" where
  "readPendingForgets env name =
     bindS (readFile env (name @ pendingForgetSuffix)) (\<lambda>data.
       case data of
         None \<Rightarrow> ret []
       | Some text \<Rightarrow>
           (case parseIds (Go_Strings.fields text) of
              None \<Rightarrow> fail (DrvError ErrPlain (''pending forgets '' @ name @ '': invalid syntax''))
            | Some ids \<Rightarrow> ret ids))"

definition writePendingForgets :: "DriverEnv \<Rightarrow> string \<Rightarrow> int list \<Rightarrow> unit step" where
  "writePendingForgets env name ids =
     (let path = name @ pendingForgetSuffix
      in if ids = [] then removeFile env path else writeFile env path (unlines (map itoa ids)))"

section \<open>The assignment file reads back\<close>

definition assign_key :: "string \<Rightarrow> bool" where
  "assign_key k \<longleftrightarrow> k \<noteq> '''' \<and> \<not> is_space (hd k) \<and> CHR '' '' \<notin> set k \<and> nl \<notin> set k"

definition assign_entry :: "string \<times> int \<Rightarrow> bool" where
  "assign_entry e \<longleftrightarrow> assign_key (fst e) \<and> - (2 ^ 31) \<le> snd e \<and> snd e < 2 ^ 31"

definition assign_ok :: "int gomap \<Rightarrow> bool" where
  "assign_ok m \<longleftrightarrow> distinct (map fst m) \<and> list_all assign_entry m"

lemma itoa_last: "itoa n \<noteq> [] \<and> \<not> is_space (last (itoa n))"
proof -
  have "show_nat k \<noteq> [] \<and> \<not> is_space (last (show_nat k))" for k
    using show_nat_nonempty [of k] show_nat_digits [of "last (show_nat k)" k] digit_not_space by simp
  then show ?thesis by (simp add: itoa_def)
qed

lemma trim_space_id: "w \<noteq> [] \<Longrightarrow> \<not> is_space (hd w) \<Longrightarrow> \<not> is_space (last w) \<Longrightarrow> trim_space w = w"
proof -
  assume w: "w \<noteq> []" "\<not> is_space (hd w)" "\<not> is_space (last w)"
  have "dropWhile is_space w = w" "dropWhile is_space (rev w) = rev w"
    using w by (metis dropWhile_eq_self_iff, metis dropWhile_eq_self_iff hd_rev)
  then show ?thesis by (simp add: trim_space_def)
qed

lemma cut_at_first: "c \<notin> set w \<Longrightarrow> cut_at c (w @ c # s) = Some (w, s)"
proof -
  assume "c \<notin> set w"
  then have "takeWhile (\<lambda>x. x \<noteq> c) (w @ c # s) = w" by (induction w) auto
  then show ?thesis by (simp add: cut_at_def)
qed

lemma assignLine_entry:
  assumes "assign_entry (k, n)"
  shows "assignLine (k @ CHR '' '' # itoa n) = Some (k, n)"
proof -
  have k: "k \<noteq> []" "\<not> is_space (hd k)" "CHR '' '' \<notin> set k" using assms by (simp_all add: assign_entry_def assign_key_def)
  then have "trim_space (k @ CHR '' '' # itoa n) = k @ CHR '' '' # itoa n"
    using itoa_last [of n] by (intro trim_space_id) auto
  moreover have "atoi (itoa n) = Some n" using assms by (simp add: assign_entry_def atoi_def parse_int_itoa)
  ultimately show ?thesis
    using k assms by (simp add: assignLine_def cut_at_first assign_entry_def)
qed

lemma foldl_update_distinct:
  "distinct (map fst (acc @ m)) \<Longrightarrow> foldl (\<lambda>m (k, n). AList.update k n m) acc m = acc @ m"
proof (induction m arbitrary: acc)
  case (Cons e m)
  obtain k n where e: "e = (k, n)" by (cases e)
  have "k \<notin> fst ` set acc" using Cons.prems e by auto
  then have "AList.update k n acc = acc @ [e]" using e by (induction acc) auto
  then show ?case using Cons.IH [of "acc @ [e]"] Cons.prems e by simp
qed simp

lemma parse_renderAssignments:
  assumes "assign_ok m"
  shows "parseAssignments (renderAssignments m) = m"
proof -
  let ?lines = "map (\<lambda>(k, n). k @ CHR '' '' # itoa n) m"
  have "list_all (\<lambda>l. nl \<notin> set l) ?lines"
    using assms itoa_no_nl by (auto simp: assign_ok_def list_all_iff assign_entry_def assign_key_def)
  then have "split_on nl (renderAssignments m) = ?lines @ [[]]" by (simp add: renderAssignments_def split_unlines)
  moreover have "List.map_filter assignLine (?lines @ [[]]) = m"
    using assms unfolding assign_ok_def
    by (induction m) (auto simp: assignLine_entry List.map_filter_simps assignLine_def [of "[]"] trim_space_def)
  ultimately show ?thesis
    using assms foldl_update_distinct [of "[]" m] by (simp add: parseAssignments_def assign_ok_def)
qed

lemma trim_space_ends: "trim_space l \<noteq> [] \<Longrightarrow> \<not> is_space (hd (trim_space l))"
proof -
  let ?d = "dropWhile is_space l"
  assume "trim_space l \<noteq> []"
  then obtain x xs where d: "?d = x # xs" by (cases ?d) (auto simp: trim_space_def)
  then have x: "\<not> is_space x" by (metis dropWhile_eq_Cons_conv)
  then have "dropWhile is_space (rev ?d) = dropWhile is_space (rev xs) @ [x]" using d by (simp add: dropWhile_append)
  then show ?thesis using x d by (simp add: trim_space_def)
qed

lemma trim_space_set: "set (trim_space l) \<subseteq> set l"
  by (auto simp: trim_space_def dest!: set_dropWhileD)

lemma int32_range: "- (2 ^ 31) \<le> int32 x \<and> int32 x < 2 ^ 31"
  using signed_take_bit_int_greater_eq_minus_exp [of 31 x] signed_take_bit_int_less_exp [of 31 x]
  by (simp add: int32_def)

lemma assignLine_ok:
  assumes "assignLine l = Some e" and "nl \<notin> set l"
  shows "assign_entry e"
proof -
  let ?t = "trim_space l"
  obtain k v n where t: "?t \<noteq> []" and c: "cut_at CHR '' '' ?t = Some (k, v)" and e: "e = (k, int32 n)"
    using assms(1) by (auto simp: assignLine_def Let_def split: if_splits option.splits)
  have k: "k = takeWhile (\<lambda>x. x \<noteq> CHR '' '') ?t" using c by (auto simp: cut_at_def Let_def split: if_splits)
  have h: "\<not> is_space (hd ?t)" using trim_space_ends [OF t] .
  then have "hd ?t \<noteq> CHR '' ''" by (auto simp: is_space_def)
  then have "k \<noteq> [] \<and> hd k = hd ?t" using t k by (cases ?t) auto
  moreover have "CHR '' '' \<notin> set k" using k by (auto dest: set_takeWhileD)
  moreover have "nl \<notin> set k" using k assms(2) trim_space_set [of l] by (auto dest: set_takeWhileD)
  ultimately show ?thesis using h e int32_range [of n] by (simp add: assign_entry_def assign_key_def)
qed

lemma split_on_free: "l \<in> set (split_on c s) \<Longrightarrow> c \<notin> set l"
proof (induction s arbitrary: l)
  case (Cons x xs)
  show ?case using Cons.prems Cons.IH by (auto split: list.splits if_splits)
qed simp

lemma assign_ok_update: "assign_ok m \<Longrightarrow> assign_entry (k, n) \<Longrightarrow> assign_ok (AList.update k n m)"
proof -
  assume m: "assign_ok m" and e: "assign_entry (k, n)"
  have "set (AList.update k n m) \<subseteq> insert (k, n) (set m)" by (induction m) auto
  then show ?thesis using m e by (auto simp: assign_ok_def list_all_iff distinct_update)
qed

lemma assign_ok_parse: "assign_ok (parseAssignments raw)"
proof -
  have "assign_ok (foldl (\<lambda>m (k, n). AList.update k n m) acc es)"
    if "assign_ok acc" and "list_all assign_entry es" for acc es
    using that by (induction es arbitrary: acc) (auto simp: assign_ok_update)
  moreover have "list_all assign_entry (List.map_filter assignLine (split_on nl raw))"
    using assignLine_ok split_on_free by (fastforce simp: list_all_iff List.map_filter_def)
  ultimately show ?thesis by (simp add: parseAssignments_def assign_ok_def [of "[]"])
qed
section \<open>The minor allocator refines an injective map\<close>

text \<open>The files as the allocator reads them: the recorded assignments, the minor a volume's own
  rendered configuration still claims, and the minors in use.\<close>

definition assigned_of :: "string gomap \<Rightarrow> int gomap" where
  "assigned_of files = (case map_of files ''minor.assign'' of None \<Rightarrow> [] | Some text \<Rightarrow> parseAssignments text)"

definition res_minors :: "string gomap \<Rightarrow> string \<Rightarrow> int list" where
  "res_minors files path = (case map_of files path of None \<Rightarrow> [] | Some raw \<Rightarrow> minorsInRes raw)"

definition minor_of :: "string gomap \<Rightarrow> string \<rightharpoonup> int" where
  "minor_of files volume =
     (case map_of (assigned_of files) volume of
        Some m \<Rightarrow> Some m
      | None \<Rightarrow> (case res_minors files (volume @ ''.res'') of [] \<Rightarrow> None | m # _ \<Rightarrow> Some m))"

definition used_minors :: "string gomap \<Rightarrow> int list" where
  "used_minors files = map snd (assigned_of files) @
     concat (map (res_minors files) (filter (\<lambda>p. has_suffix p ''.res'') (map fst files)))"

text \<open>The specification: an allocator that keeps a volume's minor, and gives a new volume one that no
  volume has.\<close>

inductive alloc_spec :: "(string \<rightharpoonup> int) \<Rightarrow> string \<Rightarrow> int \<Rightarrow> (string \<rightharpoonup> int) \<Rightarrow> bool" where
  keep: "c v = Some m \<Longrightarrow> alloc_spec c v m c"
| fresh: "c v = None \<Longrightarrow> m \<notin> ran c \<Longrightarrow> minorBase \<le> m \<Longrightarrow> alloc_spec c v m (c(v \<mapsto> m))"

lemma alloc_spec_inj: "alloc_spec c v m c' \<Longrightarrow> inj_on c (dom c) \<Longrightarrow> inj_on c' (dom c')"
proof (induction rule: alloc_spec.induct)
  case (fresh c v m)
  have nm: "c z \<noteq> Some m" for z using fresh.hyps(2) by (auto simp: ran_def)
  show ?case
  proof (rule inj_onI)
    fix x y assume xy: "x \<in> dom (c(v \<mapsto> m))" "y \<in> dom (c(v \<mapsto> m))" "(c(v \<mapsto> m)) x = (c(v \<mapsto> m)) y"
    consider "x = v" "y = v" | "x = v" "y \<noteq> v" | "x \<noteq> v" "y = v" | "x \<noteq> v" "y \<noteq> v" by blast
    then show "x = y"
    proof cases
      case 2
      then show ?thesis using xy(3) nm [of y] by simp
    next
      case 3
      then show ?thesis using xy(3) nm [of x] by simp
    next
      case 4
      then show ?thesis using xy inj_onD [OF fresh.prems, of x y] by simp
    qed simp
  qed
qed simp

interpretation minors: number_allocator used_minors minorBase "\<lambda>files. lowest_free (used_minors files) minorBase"
  by unfold_locales (auto simp: lowest_free_ge lowest_free_notin intro: lowest_free_least)

definition res_readable :: "DriverEnv \<Rightarrow> drv \<Rightarrow> bool" where
  "res_readable env s \<longleftrightarrow> x_io env s ''.'' \<and> (\<forall>p. has_suffix p ''.res'' \<longrightarrow> x_io env s p)"

lemma has_suffix_append: "has_suffix (v @ p) p"
  by (simp add: has_suffix_def)

lemma readAssignments_cases:
  "readAssignments env s = (Inr (assigned_of (dr_files s)), s) \<or> (\<exists>e. readAssignments env s = (Inl e, s))"
  by (simp add: readAssignments_def readFile_def step_defs assigned_of_def)

lemma readRes_eq: "res_readable env s \<Longrightarrow> has_suffix p ''.res'' \<Longrightarrow> readRes env p s = (Inr (res_minors (dr_files s) p), s)"
  by (simp add: readRes_def readFile_def res_readable_def res_minors_def split: option.splits)

lemma resMinors_eq:
  "res_readable env s \<Longrightarrow> list_all (\<lambda>p. has_suffix p ''.res'') ps \<Longrightarrow>
   resMinors env ps s = (Inr (concat (map (res_minors (dr_files s)) ps)), s)"
  by (induction ps) (simp_all add: ret_def bindS_def readRes_eq)

lemma scanUsedMinors_eq:
  assumes "res_readable env s"
  shows "scanUsedMinors env (assigned_of (dr_files s)) s = (Inr (used_minors (dr_files s)), s)"
proof -
  let ?ps = "filter (\<lambda>p. has_suffix p ''.res'') (map fst (dr_files s))"
  have "list_all (\<lambda>p. has_suffix p ''.res'') ?ps" by (simp add: list_all_iff)
  from resMinors_eq [OF assms this] show ?thesis
    using assms by (simp add: scanUsedMinors_def res_readable_def bindS_def ret_def used_minors_def)
qed

lemma minorFromOwnRes_eq:
  assumes "res_readable env s"
  shows "minorFromOwnRes env v s =
    (Inr (case res_minors (dr_files s) (v @ ''.res'') of [] \<Rightarrow> None | m # _ \<Rightarrow> Some m), s)"
  using assms by (simp add: minorFromOwnRes_def bindS_def ret_def readRes_eq has_suffix_append)

lemma assign_ok_assigned: "assign_ok (assigned_of files)"
  by (cases "map_of files ''minor.assign''") (simp_all add: assigned_of_def assign_ok_parse assign_ok_def [of "[]"])

lemma assign_not_res: "v @ ''.res'' \<noteq> ''minor.assign''"
proof
  assume "v @ ''.res'' = ''minor.assign''"
  then have "last (v @ ''.res'') = last ''minor.assign''" by simp
  then show False by simp
qed

lemma res_minors_assign: "res_minors (AList.update ''minor.assign'' t files) (v @ ''.res'') = res_minors files (v @ ''.res'')"
  using assign_not_res [of v] by (simp add: res_minors_def update_conv)

lemma minor_of_write:
  assumes "assign_entry (v, m)"
  shows "minor_of (AList.update ''minor.assign'' (renderAssignments (AList.update v m (assigned_of files))) files) =
    (minor_of files)(v \<mapsto> m)"
proof -
  have "assign_ok (AList.update v m (assigned_of files))" using assign_ok_update [OF assign_ok_assigned assms] .
  then have "assigned_of (AList.update ''minor.assign'' (renderAssignments (AList.update v m (assigned_of files))) files) =
      AList.update v m (assigned_of files)"
    by (simp add: assigned_of_def [of "AList.update _ _ _"] update_conv parse_renderAssignments)
  then show ?thesis
    by (auto simp: minor_of_def [abs_def] fun_eq_iff update_conv res_minors_assign split: option.split)
qed

lemma minor_of_used:
  assumes "minor_of files v = Some m"
  shows "m \<in> set (used_minors files)"
proof (cases "map_of (assigned_of files) v")
  case (Some n)
  then have "m \<in> snd ` set (assigned_of files)"
    using assms map_of_SomeD [OF Some] by (auto simp: minor_of_def image_iff intro!: bexI [of _ "(v, n)"])
  then show ?thesis by (simp add: used_minors_def)
next
  case None
  then obtain raw where r: "map_of files (v @ ''.res'') = Some raw" and m: "m \<in> set (minorsInRes raw)"
    using assms by (auto simp: minor_of_def res_minors_def split: list.splits option.splits)
  then have "v @ ''.res'' \<in> set (filter (\<lambda>p. has_suffix p ''.res'') (map fst files))"
    using map_of_SomeD [OF r] has_suffix_append by force
  moreover have "m \<in> set (res_minors files (v @ ''.res''))" using r m by (simp add: res_minors_def)
  ultimately show ?thesis unfolding used_minors_def set_append set_concat set_map by blast
qed

lemma minorsInRes_int32: "m \<in> set (minorsInRes raw) \<Longrightarrow> - (2 ^ 31) \<le> m \<and> m < 2 ^ 31"
  using int32_range by (auto simp: minorsInRes_def lineMinors_def Let_def split: if_splits option.splits)

lemma AllocateMinor_cases:
  assumes "res_readable env s" and "AllocateMinor env v s = (r, s')"
  shows "(\<exists>e. r = Inl e \<and> s' = s) \<or>
    (\<exists>m. r = Inr m \<and> map_of (assigned_of (dr_files s)) v = Some m \<and> s' = s) \<or>
    (\<exists>m. r = Inr m \<and> map_of (assigned_of (dr_files s)) v = None \<and>
       (case minor_of (dr_files s) v of Some n \<Rightarrow> m = n | None \<Rightarrow> m = lowest_free (used_minors (dr_files s)) minorBase) \<and>
       s' = s\<lparr>dr_files := AList.update ''minor.assign''
         (renderAssignments (AList.update v m (assigned_of (dr_files s)))) (dr_files s)\<rparr>)"
proof (cases "x_io env s ''minor.lock''")
  case True
  show ?thesis
    using assms(2) True readAssignments_cases [of env s]
    by (auto simp: AllocateMinor_def lockMinors_def thenS_def bindS_def ret_def minorFromOwnRes_eq [OF assms(1)]
        scanUsedMinors_eq [OF assms(1)] minor_of_def Let_def writeAssignments_def writeFile_def
        split: option.splits if_splits list.splits)
next
  case False
  with assms(2) show ?thesis by (auto simp: AllocateMinor_def lockMinors_def thenS_def bindS_def)
qed

definition calm :: DriverEnv where
  "calm = \<lparr>x_exec = (\<lambda>_ _. Inr ''''), x_list = (\<lambda>_ _. Listed []), x_io = (\<lambda>_ _. True), x_lock = (\<lambda>_ _. None),
     x_tryLock = (\<lambda>_ _. True), x_expired = (\<lambda>_. None), x_wedge = (\<lambda>_. None), x_stat = (\<lambda>_ _. NoEntry)\<rparr>"

definition one_volume :: drv where
  "one_volume = \<lparr>dr_files = [(''pvc-1.res'', ''device minor 1000;'')], dr_log = [], dr_wedgeSeen = []\<rparr>"


section \<open>A lost assignment file\<close>

lemma writeConfig_content:
  "writeConfig env r s = (Inr (), s') \<Longrightarrow> map_of (dr_files s') (res_name r @ ''.res'') = Some (Render r)"
  by (auto simp: writeConfig_def readFile_def writeFile_def step_defs Let_def update_conv split: if_splits)

lemma map_of_delete_other: "k \<noteq> l \<Longrightarrow> map_of (AList.delete l m) k = map_of m k"
  by (simp add: delete_conv)

text \<open>
  C28. The rendered configuration carries the volume's minor: once it is written, a volume whose
  \<^verbatim>\<open>minor.assign\<close> is lost gets the very minor its configuration was rendered with, the one the kernel
  may still run it on, and not a fresh one.
\<close>

theorem minor_recovered:
  assumes "one_line r" and "res_peers r \<noteq> []" and "- (2 ^ 31) \<le> res_minor r" and "res_minor r < 2 ^ 31"
    and "\<And>s p. x_io env s p" and "writeConfig env r s = (Inr (), s1)"
  shows "fst (AllocateMinor env (res_name r) (s1\<lparr>dr_files := AList.delete ''minor.assign'' (dr_files s1)\<rparr>)) =
    Inr (res_minor r)"
proof -
  let ?s = "s1\<lparr>dr_files := AList.delete ''minor.assign'' (dr_files s1)\<rparr>"
  have "map_of (dr_files ?s) (res_name r @ ''.res'') = Some (Render r)"
    using writeConfig_content [OF assms(6)] assign_not_res [of "res_name r"] by (simp add: map_of_delete_other)
  then have "res_minors (dr_files ?s) (res_name r @ ''.res'') = replicate (length (res_peers r)) (res_minor r)"
    using minorsInRes_Render [OF assms(1,3,4)] by (simp add: res_minors_def)
  then have "minorFromOwnRes env (res_name r) ?s = (Inr (Some (res_minor r)), ?s)"
    using assms(2,5) by (subst minorFromOwnRes_eq) (auto simp: res_readable_def neq_Nil_conv)
  moreover have "readAssignments env ?s = (Inr [], ?s)"
    using assms(5) by (simp add: readAssignments_def readFile_def step_defs delete_conv)
  ultimately show ?thesis
    using assms(5) by (simp add: AllocateMinor_def lockMinors_def step_defs writeAssignments_def writeFile_def)
qed

definition pair_resource :: Resource where
  "pair_resource = \<lparr>res_name = ''pvc-1'', res_minor = 1007, res_port = 7000, res_quorum = QuorumFreeze,
     res_localNode = ''a'', res_localDisk = ''/dev/vg/pvc-1'', res_localDiskless = False, res_secret = ''s'',
     res_skipDiskAttach = False, res_discardGranularity = 0, res_clientDiscardGranularity = 0,
     res_bitmapGranularity = 0,
     res_peers = [\<lparr>p_node = ''a'', p_nodeID = 0, p_address = ''10.0.0.1'', p_diskless = False, p_client = False\<rparr>,
       \<lparr>p_node = ''b'', p_nodeID = 1, p_address = ''10.0.0.2'', p_diskless = False, p_client = False\<rparr>]\<rparr>"

lemma pair_fields:
  "res_name pair_resource = ''pvc-1''" "res_minor pair_resource = 1007" "res_peers pair_resource \<noteq> []"
  "x_io calm s p"
  by (simp_all add: pair_resource_def calm_def)

definition no_volume :: drv where
  "no_volume = \<lparr>dr_files = [], dr_log = [], dr_wedgeSeen = []\<rparr>"

theorem minor_recovered_witness:
  "fst (AllocateMinor calm ''pvc-1'' (no_volume\<lparr>dr_files := [(''pvc-1.res'', Render pair_resource)]\<rparr>)) = Inr 1007"
proof -
  have "one_line pair_resource" by code_simp
  moreover have "writeConfig calm pair_resource no_volume =
      (Inr (), no_volume\<lparr>dr_files := [(''pvc-1.res'', Render pair_resource)]\<rparr>)"
    by (simp add: writeConfig_def readFile_def writeFile_def step_defs Let_def no_volume_def pair_fields)
  ultimately show ?thesis
    using minor_recovered [of pair_resource calm no_volume] by (simp add: pair_fields)
qed

section \<open>Pending forgets read back\<close>

lemma itoa_word: "itoa n \<noteq> [] \<and> list_all (\<lambda>c. \<not> is_space c) (itoa n)"
proof -
  have "list_all (\<lambda>c. \<not> is_space c) (show_nat k)" for k
    using show_nat_digits digit_not_space by (auto simp: list_all_iff)
  then show ?thesis using itoa_last [of n] by (simp add: itoa_def is_space_def)
qed

lemma fields_unlines: "Go_Strings.fields (unlines (map itoa ids)) = map itoa ids"
proof (induction ids)
  case (Cons i ids)
  have "is_space nl" by (simp add: is_space_def)
  then have "fields_acc [] (itoa i @ nl # unlines (map itoa ids)) = itoa i # fields_acc [] (unlines (map itoa ids))"
    using fields_acc_word [of "itoa i" nl "[]" "unlines (map itoa ids)"] itoa_word [of i] by simp
  then show ?case using Cons by (simp add: Go_Strings.fields_def unlines_def)
qed (simp add: Go_Strings.fields_def unlines_def)

lemma parseIds_itoa: "\<forall>i\<in>set ids. - (2 ^ 31) \<le> i \<and> i < 2 ^ 31 \<Longrightarrow> parseIds (map itoa ids) = Some ids"
  by (induction ids) (auto simp: parse_int_itoa)

lemma pending_read_back:
  assumes "writePendingForgets env name ids s = (Inr (), s')" and "\<forall>i\<in>set ids. - (2 ^ 31) \<le> i \<and> i < 2 ^ 31"
    and "x_io env t (name @ pendingForgetSuffix)"
    and "map_of (dr_files t) (name @ pendingForgetSuffix) = map_of (dr_files s') (name @ pendingForgetSuffix)"
  shows "readPendingForgets env name t = (Inr ids, t)"
  using assms parseIds_itoa [OF assms(2)]
  by (auto simp: writePendingForgets_def readPendingForgets_def readFile_def removeFile_def writeFile_def step_defs
      Let_def update_conv delete_conv fields_unlines split: if_splits)

end
