(* ===== verification/Sha256.thy ===== *)
theory Sha256
  imports Go_Strings "HOL-Library.Word"
begin

text \<open>
  SHA-256 as FIPS 180-4 defines it, the part of \<^verbatim>\<open>crypto/sha256\<close> that \<^verbatim>\<open>Day0GI\<close> and the name hashes
  call, on 32-bit words.
\<close>

unbundle bit_operations_syntax

type_synonym w32 = "32 word"

definition rotr :: "nat \<Rightarrow> w32 \<Rightarrow> w32" where
  "rotr n x = drop_bit n x OR push_bit (32 - n) x"

text \<open>The constants, as the standard derives them: the first 32 bits of the fractional parts of the cube
  roots of the first 64 primes, and of the square roots of the first eight. The root of a number is
  found bit by bit.\<close>

definition small_primes :: "int list" where
  "small_primes = filter (\<lambda>n. list_all (\<lambda>d. n mod d \<noteq> 0) [2..n - 1]) [2..311]"

definition root_floor :: "nat \<Rightarrow> int \<Rightarrow> int" where
  "root_floor k n = foldl (\<lambda>r b. let t = r + 2 ^ b in if t ^ k \<le> n then t else r) 0 (rev [0..<38])"

definition root_fraction :: "nat \<Rightarrow> int \<Rightarrow> w32" where
  "root_fraction k p = word_of_int (root_floor k (p * 2 ^ (32 * k)))"

definition round_constants :: "w32 list" where
  "round_constants = map (root_fraction 3) small_primes"

definition initial_hash :: "w32 list" where
  "initial_hash = map (root_fraction 2) (take 8 small_primes)"

text \<open>The message schedule is kept in reverse, the newest word first.\<close>

primrec schedule :: "nat \<Rightarrow> w32 list \<Rightarrow> w32 list" where
  "schedule 0 ws = rev ws"
| "schedule (Suc n) ws =
     (let w15 = ws ! 14; w2 = ws ! 1;
          s0 = rotr 7 w15 XOR rotr 18 w15 XOR drop_bit 3 w15;
          s1 = rotr 17 w2 XOR rotr 19 w2 XOR drop_bit 10 w2
      in schedule n ((ws ! 15 + s0 + ws ! 6 + s1) # ws))"

fun round :: "w32 list \<Rightarrow> w32 \<times> w32 \<Rightarrow> w32 list" where
  "round [a, b, c, d, e, f, g, h] (k, w) =
     (let s1 = rotr 6 e XOR rotr 11 e XOR rotr 25 e;
          ch = (e AND f) XOR (NOT e AND g);
          t1 = h + s1 + ch + k + w;
          s0 = rotr 2 a XOR rotr 13 a XOR rotr 22 a;
          maj = (a AND b) XOR (a AND c) XOR (b AND c)
      in [t1 + (s0 + maj), a, b, c, d + t1, e, f, g])"
| "round xs _ = xs"

definition compress :: "w32 list \<Rightarrow> w32 list \<Rightarrow> w32 list" where
  "compress hs block = map2 (+) hs (foldl round hs (zip round_constants (schedule 48 (rev block))))"

fun be_words :: "int list \<Rightarrow> w32 list" where
  "be_words (a # b # c # d # rest) = word_of_int (((a * 256 + b) * 256 + c) * 256 + d) # be_words rest"
| "be_words _ = []"

fun be_bytes :: "nat \<Rightarrow> int \<Rightarrow> int list" where
  "be_bytes 0 x = []"
| "be_bytes (Suc n) x = be_bytes n (x div 256) @ [x mod 256]"

definition pad :: "int list \<Rightarrow> int list" where
  "pad msg = msg @ [128] @ replicate ((119 - length msg mod 64) mod 64) 0 @ be_bytes 8 (8 * int (length msg))"

fun blocks :: "nat \<Rightarrow> w32 list \<Rightarrow> w32 list list" where
  "blocks 0 ws = []"
| "blocks (Suc n) ws = take 16 ws # blocks n (drop 16 ws)"

definition Sum256 :: "string \<Rightarrow> int list" where
  "Sum256 msg =
     (let ws = be_words (pad (map of_char msg))
      in concat (map (\<lambda>w. be_bytes 4 (uint w)) (foldl compress initial_hash (blocks (length ws div 16) ws))))"

text \<open>\<^verbatim>\<open>hex.EncodeToString\<close>.\<close>

definition hex_encode :: "int list \<Rightarrow> string" where
  "hex_encode bs = concat (map (\<lambda>b. [hex_char (b div 16), hex_char (b mod 16)]) bs)"

lemma first_constants: "root_fraction 3 2 = 0x428a2f98" "root_fraction 2 2 = 0x6a09e667"
  by code_simp+

end
