(* ===== verification/Drbd_Driver.thy ===== *)
theory Drbd_Driver
  imports Drbd_State Sha256
begin

text \<open>
  The driver's operations (\<^verbatim>\<open>internal/drbd/drbd.go\<close>) as sequences of commands and file operations:
  bring-up (\<^verbatim>\<open>Apply\<close> with its metadata and its owed forgets), teardown (\<^verbatim>\<open>Down\<close>, \<^verbatim>\<open>Restart\<close>,
  \<^verbatim>\<open>ForceDetach\<close>, the sweeps), the recoveries (\<^verbatim>\<open>ResolveSplitBrain\<close>, the connection cycles), the
  generation mints and the small queries. The resource lock is held for a whole operation, so an
  operation is one step for the others that take it; what the node answers may still change between
  two commands.
\<close>

section \<open>Locks and stranded children\<close>

definition lockResource :: "DriverEnv \<Rightarrow> string \<Rightarrow> unit step" where
  "lockResource env name =
     (\<lambda>s. case x_lock env s name of None \<Rightarrow> (Inr (), s) | Some e \<Rightarrow> (Inl (wrap (''lock '' @ name @ '': '') e), s))"

definition errWedged :: drv_error where
  "errWedged = DrvError ErrWedged ''resource wedged in kernel: node reboot required''"

definition errDownStranded :: drv_error where
  "errDownStranded = DrvError ErrDownStranded
     ''drbdsetup down stranded in uninterruptible sleep (DOWN_IN_PROGRESS pinned): resource wedged in kernel: node reboot required''"

text \<open>\<^verbatim>\<open>errors.Is(err, ErrWedged)\<close>: \<^verbatim>\<open>ErrDownStranded\<close> wraps it.\<close>

definition is_wedged :: "drv_error \<Rightarrow> bool" where
  "is_wedged e \<longleftrightarrow> e_kind e = ErrWedged \<or> e_kind e = ErrDownStranded"

definition downStranded :: "DriverEnv \<Rightarrow> drv \<Rightarrow> string \<Rightarrow> drv_error option" where
  "downStranded env s name =
     (case x_wedge env s of
        None \<Rightarrow> None
      | Some (alive, w) \<Rightarrow>
          if StrandedCommand alive w (CommandLine ''drbdsetup'' [''down'', name]) then Some errDownStranded else None)"

definition disconnectStranded :: "DriverEnv \<Rightarrow> drv \<Rightarrow> string \<Rightarrow> drv_error option" where
  "disconnectStranded env s name =
     (case x_wedge env s of
        None \<Rightarrow> None
      | Some (alive, w) \<Rightarrow>
          (case find (\<lambda>line. has_prefix line (CommandLine ''drbdsetup'' [''disconnect'', name] @ '' '')) (Commands alive w) of
             None \<Rightarrow> None
           | Some line \<Rightarrow> Some (DrvError ErrBusy (line @ '' stranded in the kernel; deferring: backend resource busy''))))"

definition refuse :: "drv_error option \<Rightarrow> unit step" where
  "refuse e = (case e of None \<Rightarrow> ret () | Some e \<Rightarrow> fail e)"

definition lockLiveResource :: "DriverEnv \<Rightarrow> string \<Rightarrow> unit step" where
  "lockLiveResource env name =
     thenS (lockResource env name)
     (\<lambda>s. thenS (refuse (downStranded env s name)) (refuse (disconnectStranded env s name)) s)"

definition wedgeCause :: "DriverEnv \<Rightarrow> drv \<Rightarrow> jsonStatus \<Rightarrow> drv_error option" where
  "wedgeCause env s res = (if wedgeSignature res then Some errWedged else downStranded env s (js_name res))"

section \<open>Metadata\<close>

definition statFile :: "DriverEnv \<Rightarrow> string \<Rightarrow> bool step" where
  "statFile env path = bindS (readFile env path) (\<lambda>c. ret (c \<noteq> None))"

definition isMissingMetadata :: "drv_error \<Rightarrow> bool" where
  "isMissingMetadata e \<longleftrightarrow> contains (e_text e) ''no valid meta'' \<or> contains (e_text e) ''No valid meta''"

definition ascii_upper :: "char \<Rightarrow> char" where
  "ascii_upper c = (let n = of_char c in if 97 \<le> n \<and> n \<le> (122 :: int) then char_of (n - 32) else c)"

definition Day0GI :: "string \<Rightarrow> string" where
  "Day0GI name =
     (let h = take 8 (Sum256 (''miroir-day0:'' @ name @ ''/0''));
          h = h[7 := h ! 7 - h ! 7 mod 2]
      in map ascii_upper (hex_encode h))"

definition justCreatedUUID :: string where
  "justCreatedUUID = ''0000000000000004''"

text \<open>\<^verbatim>\<open>strings.ToUpper\<close> on the ASCII text \<^verbatim>\<open>drbdadm\<close> prints; the walk stops at the first tracked
  divergence.\<close>

fun virgin_walk :: "string list \<Rightarrow> string \<Rightarrow> string option" where
  "virgin_walk [] current = Some current"
| "virgin_walk (line # lines) current =
     (case Go_Strings.fields (trim_suffix (trim_space line) '';'') of
        [key, raw] \<Rightarrow>
          (let val = (let u = map ascii_upper raw in case cut_prefix u ''0X'' of Some v \<Rightarrow> v | None \<Rightarrow> u)
           in if key = ''current-uuid'' then virgin_walk lines (if current = '''' then val else current)
              else if key = ''bitmap-uuid'' \<and> list_ex (\<lambda>c. c \<noteq> CHR ''0'') val then None
              else virgin_walk lines current)
      | _ \<Rightarrow> virgin_walk lines current)"

definition virginMetadata :: "string \<Rightarrow> string \<Rightarrow> bool" where
  "virginMetadata dump name \<longleftrightarrow>
     (case virgin_walk (split_on nl dump) '''' of
        None \<Rightarrow> False
      | Some current \<Rightarrow> current = Day0GI name \<or> current = justCreatedUUID)"

definition kernelAttached :: "string \<Rightarrow> jsonStatus \<Rightarrow> bool" where
  "kernelAttached name res \<longleftrightarrow> js_name res = name \<and>
     (case js_devices res of [] \<Rightarrow> False | d # _ \<Rightarrow> fst d \<noteq> '''' \<and> fst d \<noteq> DiskDiskless)"

text \<open>\<^verbatim>\<open>hasMD\<close>, \<^verbatim>\<open>attached\<close> and the dump.\<close>

definition dumpAnswer :: "string \<Rightarrow> drv_error + string \<Rightarrow> (bool \<times> bool \<times> string) step" where
  "dumpAnswer name r =
     (case r of
        Inr out \<Rightarrow> if contains out ''might be stale'' then ret (True, True, '''') else ret (True, False, out)
      | Inl e \<Rightarrow>
          if contains (e_text e) ''no valid meta data'' \<or> contains (e_text e) ''No valid meta data''
          then ret (False, False, '''') else fail (wrap (''dump-md '' @ name @ '': '') e))"

definition probeMetadata :: "DriverEnv \<Rightarrow> string \<Rightarrow> (bool \<times> bool \<times> string) step" where
  "probeMetadata env name =
     bindS (attempt (listStatus env [name])) (\<lambda>parsed.
       if (case parsed of Inl _ \<Rightarrow> False | Inr rs \<Rightarrow> list_ex (kernelAttached name) rs)
       then ret (True, True, '''')
       else
         bindS (attempt (adm env [''dump-md'', name @ ''/0''])) (\<lambda>dump.
           case dump of
             Inl e \<Rightarrow>
               if contains (e_text e) ''unclean'' then
                 thenS (wrapS (''apply-al '' @ name @ '': '') (adm env [''apply-al'', name @ ''/0'']))
                   (bindS (attempt (adm env [''dump-md'', name @ ''/0''])) (dumpAnswer name))
               else dumpAnswer name dump
           | Inr _ \<Rightarrow> dumpAnswer name dump))"

definition markAdopted :: "DriverEnv \<Rightarrow> string \<Rightarrow> unit step" where
  "markAdopted env name = writeFile env (name @ ''.md-adopted'') ''''"

definition MetadataAdopted :: "DriverEnv \<Rightarrow> string \<Rightarrow> drv \<Rightarrow> bool" where
  "MetadataAdopted env name s = (case fst (statFile env (name @ ''.md-adopted'') s) of Inr b \<Rightarrow> b | Inl _ \<Rightarrow> False)"

definition createMd :: "Resource \<Rightarrow> string list" where
  "createMd r =
     [''create-md'', ''--force'', ''--max-peers'', itoa maxPeers] @
     (if 0 < res_bitmapGranularity r then [''--bitmap-block-size'', itoa (res_bitmapGranularity r)] else []) @
     [res_name r @ ''/0'']"

definition ensureMetadata :: "DriverEnv \<Rightarrow> Resource \<Rightarrow> unit step" where
  "ensureMetadata env r =
     bindS (probeMetadata env (res_name r)) (\<lambda>(hasMD, attached, dump).
       if attached then markAdopted env (res_name r)
       else
         bindS (statFile env (res_name r @ ''.md-seeding'')) (\<lambda>seeding.
           if hasMD \<and> \<not> seeding \<and> \<not> virginMetadata dump (res_name r) then markAdopted env (res_name r)
           else
             thenS (writeFile env (res_name r @ ''.md-seeding'') '''')
               (if hasMD then ret ()
                else thenS (wrapS (''create-md '' @ res_name r @ '': '') (adm env (createMd r))) (ret ()))))"

definition ensureMarkedMetadata :: "DriverEnv \<Rightarrow> Resource \<Rightarrow> unit step" where
  "ensureMarkedMetadata env r =
     bindS (statFile env (res_name r @ ''.md-created'')) (\<lambda>marked.
       thenS (if marked then ret () else ensureMetadata env r)
       (thenS (removeFile env (res_name r @ ''.md-seeding''))
         (writeFile env (res_name r @ ''.md-created'') '''')))"

section \<open>Bring-up\<close>

definition removedPeers :: "DriverEnv \<Rightarrow> Resource \<Rightarrow> int list step" where
  "removedPeers env r =
     bindS (readPendingForgets env (res_name r)) (\<lambda>pending.
     bindS (attempt (listStatus env [res_name r])) (\<lambda>parsed.
       let owed = (\<lambda>rs. remdups_adj (sort (filter (\<lambda>i. \<not> list_ex (\<lambda>p. p_nodeID p = i) (res_peers r))
              (pending @ concat (map (\<lambda>res. if js_name res = res_name r then peerIDs res else []) rs)))))
       in case parsed of
            Inl e \<Rightarrow>
              if contains (e_text e) ''No such resource'' then ret (owed [])
              else fail (wrap (''apply '' @ res_name r @ '': '') e)
          | Inr rs \<Rightarrow> ret (owed rs)))"

definition forgetPeer :: "string \<Rightarrow> int \<Rightarrow> string list" where
  "forgetPeer name i = [''drbdsetup'', ''forget-peer'', name, itoa i]"

fun forgetPeers :: "DriverEnv \<Rightarrow> string \<Rightarrow> int list \<Rightarrow> unit step" where
  "forgetPeers env name [] = ret ()"
| "forgetPeers env name (i # is) =
     thenS (wrapS (''forget-peer '' @ name @ '' '' @ itoa i @ '': '') (execS env (forgetPeer name i))) (forgetPeers env name is)"

definition forgetRemovedPeers :: "DriverEnv \<Rightarrow> Resource \<Rightarrow> int list \<Rightarrow> unit step" where
  "forgetRemovedPeers env r removed =
     thenS (forgetPeers env (res_name r) removed) (writePendingForgets env (res_name r) [])"

definition drbdMajor :: int where
  "drbdMajor = 147"

definition ignoring :: "err_kind \<Rightarrow> string step \<Rightarrow> unit step" where
  "ignoring k m = bindS (attempt m) (\<lambda>r. case r of Inl e \<Rightarrow> if e_kind e = k then ret () else fail e | Inr _ \<Rightarrow> ret ())"

text \<open>The device node: the system calls stand in the log under their names.\<close>

definition makeNode :: "DriverEnv \<Rightarrow> int \<Rightarrow> unit step" where
  "makeNode env minor =
     (let path = DevicePath minor
      in thenS (wrapS (''mknod '' @ path @ '': '') (ignoring ErrExist (execS env [''mknod'', path, itoa drbdMajor, itoa minor])))
           (wrapS (''chmod '' @ path @ '': '') (ignoring ErrNotExist (execS env [''chmod'', path]))))"

definition ensureDeviceNode :: "DriverEnv \<Rightarrow> int \<Rightarrow> unit step" where
  "ensureDeviceNode env minor =
     (\<lambda>s. let path = DevicePath minor
        in case x_stat env s path of
             BlockDevice major m \<Rightarrow>
               if major = drbdMajor \<and> m = minor then (Inr (), s)
               else thenS (wrapS (''remove stale '' @ path @ '': '') (execS env [''remove'', path])) (makeNode env minor) s
           | OtherFile \<Rightarrow> thenS (wrapS (''remove stale '' @ path @ '': '') (execS env [''remove'', path])) (makeNode env minor) s
           | StatFailed e \<Rightarrow> (Inl (wrap (''stat '' @ path @ '': '') e), s)
           | NoEntry \<Rightarrow> makeNode env minor s)"

definition finishApply :: "DriverEnv \<Rightarrow> Resource \<Rightarrow> int list \<Rightarrow> unit step" where
  "finishApply env r removed = thenS (forgetRemovedPeers env r removed) (ensureDeviceNode env (res_minor r))"

text \<open>The fallback to a plain \<^verbatim>\<open>up\<close> of a resource \<^verbatim>\<open>adjust\<close> does not know.\<close>

definition adjustFallback :: "DriverEnv \<Rightarrow> Resource \<Rightarrow> int list \<Rightarrow> drv_error \<Rightarrow> unit step" where
  "adjustFallback env r removed e =
     (if \<not> contains (e_text e) ''Unknown resource'' then fail (wrap (''adjust '' @ res_name r @ '': '') e)
      else thenS (wrapS (''up '' @ res_name r @ '' (after adjust fallback): '') (adm env [''up'', res_name r]))
        (finishApply env r removed))"

definition adjustRecover :: "DriverEnv \<Rightarrow> Resource \<Rightarrow> int list \<Rightarrow> drv_error \<Rightarrow> unit step" where
  "adjustRecover env r removed e =
     (if \<not> res_localDiskless r \<and> \<not> res_skipDiskAttach r \<and> isMissingMetadata e then
        thenS (removeFile env (res_name r @ ''.md-created''))
        (thenS (ensureMarkedMetadata env r)
        (bindS (attempt (adm env [''adjust'', res_name r])) (\<lambda>a.
           case a of Inr _ \<Rightarrow> finishApply env r removed | Inl e' \<Rightarrow> adjustFallback env r removed e')))
      else adjustFallback env r removed e)"

definition adjustArgs :: "Resource \<Rightarrow> string list" where
  "adjustArgs r = (if res_skipDiskAttach r then [''adjust'', ''--skip-disk'', res_name r] else [''adjust'', res_name r])"

text \<open>\<^verbatim>\<open>Apply\<close> from the point where the owed forgets are on record.\<close>

definition applyConfig :: "DriverEnv \<Rightarrow> Resource \<Rightarrow> int list \<Rightarrow> unit step" where
  "applyConfig env r removed =
     thenS (writeConfig env r)
     (thenS (if \<not> res_localDiskless r \<and> \<not> res_skipDiskAttach r then ensureMarkedMetadata env r else ret ())
     (bindS (attempt (adm env (adjustArgs r))) (\<lambda>a.
        case a of Inr _ \<Rightarrow> finishApply env r removed | Inl e \<Rightarrow> adjustRecover env r removed e)))"

definition Apply :: "DriverEnv \<Rightarrow> Resource \<Rightarrow> unit step" where
  "Apply env r =
     thenS (wrapS (''apply '' @ res_name r @ '': '') (lockLiveResource env (res_name r)))
     (bindS (removedPeers env r) (\<lambda>removed.
      thenS (writePendingForgets env (res_name r) removed) (applyConfig env r removed)))"

section \<open>Generations and recoveries\<close>

definition InitialUUID :: "DriverEnv \<Rightarrow> string \<Rightarrow> unit step" where
  "InitialUUID env name =
     thenS (wrapS (''new-current-uuid '' @ name @ '': '') (adm env [''new-current-uuid'', ''--clear-bitmap'', name @ ''/0''])) (ret ())"

definition Demote :: "DriverEnv \<Rightarrow> string \<Rightarrow> unit step" where
  "Demote env name = thenS (wrapS (''secondary '' @ name @ '': '') (adm env [''secondary'', name])) (ret ())"

definition ForceFullSyncSource :: "DriverEnv \<Rightarrow> string \<Rightarrow> unit step" where
  "ForceFullSyncSource env name =
     thenS (wrapS (''primary --force '' @ name @ '': '') (adm env [''primary'', ''--force'', name])) (Demote env name)"

definition ResolveSplitBrain :: "DriverEnv \<Rightarrow> Resource \<Rightarrow> unit step" where
  "ResolveSplitBrain env r =
     thenS (wrapS (''resolve split-brain '' @ res_name r @ '': '') (lockLiveResource env (res_name r)))
     (thenS (attempt (adm env [''disconnect'', res_name r]))
     (if res_localDiskless r \<or> IsWinner r
      then thenS (wrapS (''connect '' @ res_name r @ '': '') (adm env [''connect'', res_name r])) (ret ())
      else thenS (wrapS (''connect --discard-my-data '' @ res_name r @ '': '')
             (adm env [''connect'', ''--discard-my-data'', res_name r])) (ret ())))"

definition connectPeer :: "DriverEnv \<Rightarrow> string \<Rightarrow> int \<Rightarrow> unit step" where
  "connectPeer env name i =
     thenS (wrapS (''connect '' @ name @ '' peer '' @ itoa i @ '': '') (execS env [''drbdsetup'', ''connect'', name, itoa i])) (ret ())"

definition CyclePeerConnection :: "DriverEnv \<Rightarrow> string \<Rightarrow> int \<Rightarrow> unit step" where
  "CyclePeerConnection env name i =
     thenS (wrapS (''cycle '' @ name @ '' peer '' @ itoa i @ '': '') (lockLiveResource env name))
     (thenS (wrapS (''disconnect '' @ name @ '' peer '' @ itoa i @ '': '') (execS env [''drbdsetup'', ''disconnect'', name, itoa i]))
       (connectPeer env name i))"

definition StatusStep :: "DriverEnv \<Rightarrow> string \<Rightarrow> Status step" where
  "StatusStep env name =
     bindS (wrapS (name @ '': '') (listStatus env [name])) (\<lambda>parsed.
       case drbd_Status parsed of
         None \<Rightarrow> fail (DrvError ErrPlain (''resource '' @ name @ '' not in status output''))
       | Some st \<Rightarrow> ret st)"

definition CycleStalledTargetConnection :: "DriverEnv \<Rightarrow> string \<Rightarrow> int \<Rightarrow> unit step" where
  "CycleStalledTargetConnection env name i =
     (let disc = ''disconnect '' @ name @ '' peer '' @ itoa i @ '': ''
      in thenS (wrapS (''cycle '' @ name @ '' peer '' @ itoa i @ '': '') (lockLiveResource env name))
         (bindS (attempt (execS env [''drbdsetup'', ''disconnect'', name, itoa i])) (\<lambda>a.
            case a of
              Inr _ \<Rightarrow> connectPeer env name i
            | Inl e \<Rightarrow>
                bindS (attempt (StatusStep env name)) (\<lambda>st.
                  case st of
                    Inl se \<Rightarrow> fail (DrvError (e_kind e) (disc @ e_text e @ '' (re-read failed: '' @ e_text se @ '')''))
                  | Inr st \<Rightarrow>
                      if s_primary st \<or> s_diskState st \<noteq> DiskInconsistent
                      then fail (DrvError (e_kind e) (disc @ e_text e @ '' (leg no longer an Inconsistent Secondary; not forcing)''))
                      else
                        bindS (attempt (execS env [''drbdsetup'', ''disconnect'', name, itoa i, ''--force''])) (\<lambda>f.
                          case f of
                            Inl fe \<Rightarrow> fail (DrvError (e_kind e) (disc @ e_text e @ ''; forced: '' @ e_text fe))
                          | Inr _ \<Rightarrow> connectPeer env name i)))))"

section \<open>Teardown\<close>

definition WipeMetadata :: "DriverEnv \<Rightarrow> string \<Rightarrow> string \<Rightarrow> int \<Rightarrow> unit step" where
  "WipeMetadata env name disk minor =
     thenS (wrapS (''wipe-md '' @ name @ '': '')
       (execS env [''drbdmeta'', ''--force'', itoa minor, ''v09'', disk, ''internal'', ''wipe-md''])) (ret ())"

definition disconnectPeer :: "string \<Rightarrow> int \<Rightarrow> string list" where
  "disconnectPeer name i = [''drbdsetup'', ''disconnect'', name, itoa i]"

text \<open>\<open>x_expired\<close> after a disconnect is its own deadline.\<close>

fun disconnectPeers :: "DriverEnv \<Rightarrow> string \<Rightarrow> int list \<Rightarrow> unit step" where
  "disconnectPeers env name [] = ret ()"
| "disconnectPeers env name (i # is) =
     thenS (attempt (execS env (disconnectPeer name i)))
     (\<lambda>s. if x_expired env s \<noteq> None
        then (Inl (DrvError ErrBusy (''disconnect '' @ name @ '' peer '' @ itoa i @
                '' killed after 10s; deferring teardown: backend resource busy'')), s)
        else disconnectPeers env name is s)"

definition downCmd :: "string \<Rightarrow> string list" where
  "downCmd name = [''drbdsetup'', ''down'', name]"

definition downResource :: "DriverEnv \<Rightarrow> string \<Rightarrow> int list \<Rightarrow> unit step" where
  "downResource env name ids =
     thenS (disconnectPeers env name ids)
       (thenS (wrapS (''down '' @ name @ '': '') (execS env (downCmd name))) (ret ()))"

definition liveTeardownView :: "DriverEnv \<Rightarrow> string \<Rightarrow> (int list \<times> drv_error option) step" where
  "liveTeardownView env name =
     (\<lambda>s. let wedged = downStranded env s name
        in bindS (attempt (listStatus env [name])) (\<lambda>parsed.
             case parsed of
               Inl _ \<Rightarrow> ret ([], wedged)
             | Inr rs \<Rightarrow>
                 (let mine = filter (\<lambda>res. js_name res = name) rs
                  in ret (concat (map peerIDs mine),
                       if wedged = None \<and> list_ex wedgeSignature mine then Some errWedged else wedged))) s)"

definition markWedgeSighting :: "string \<Rightarrow> bool step" where
  "markWedgeSighting name = (\<lambda>s. (Inr (name \<in> set (dr_wedgeSeen s)), s\<lparr>dr_wedgeSeen := List.insert name (dr_wedgeSeen s)\<rparr>))"

definition clearWedgeSighting :: "string \<Rightarrow> unit step" where
  "clearWedgeSighting name = (\<lambda>s. (Inr (), s\<lparr>dr_wedgeSeen := removeAll name (dr_wedgeSeen s)\<rparr>))"

definition Down :: "DriverEnv \<Rightarrow> string \<Rightarrow> unit step" where
  "Down env name =
     thenS (wrapS (''down '' @ name @ '': '') (lockResource env name))
     (bindS (attempt (statFile env (name @ ''.res''))) (\<lambda>st.
        if st = Inr False then ret ()
        else
          bindS (liveTeardownView env name) (\<lambda>(ids, wedged).
            case wedged of
              Some cause \<Rightarrow>
                bindS (markWedgeSighting name) (\<lambda>again.
                  if again then fail (wrap (''down '' @ name @ '': '') cause)
                  else fail (DrvError ErrBusy (''down '' @ name @
                         '': detach in flight after a killed down; deferring: backend resource busy'')))
            | None \<Rightarrow>
                thenS (clearWedgeSighting name)
                (thenS (downResource env name ids)
                (thenS (removeStateFiles env name) (releaseMinor env name))))))"

definition Restart :: "DriverEnv \<Rightarrow> string \<Rightarrow> unit step" where
  "Restart env name =
     thenS (wrapS (''restart '' @ name @ '': '') (lockResource env name))
     (bindS (liveTeardownView env name) (\<lambda>(ids, wedged).
        case wedged of
          Some cause \<Rightarrow> fail (wrap (''restart '' @ name @ '': refusing to spawn a down: '') cause)
        | None \<Rightarrow>
            thenS (downResource env name ids)
              (thenS (wrapS (''up '' @ name @ '': '') (adm env [''up'', name])) (ret ()))))"

fun delPeers :: "DriverEnv \<Rightarrow> string \<Rightarrow> int list \<Rightarrow> unit step" where
  "delPeers env name [] = ret ()"
| "delPeers env name (i # is) =
     thenS (wrapS (''remove '' @ name @ '' peer '' @ itoa i @ '': '') (execS env [''drbdsetup'', ''del-peer'', name, itoa i]))
       (delPeers env name is)"

definition ForceDetach :: "DriverEnv \<Rightarrow> string \<Rightarrow> int \<Rightarrow> unit step" where
  "ForceDetach env name minor =
     thenS (wrapS (''force-detach '' @ name @ '': '') (lockResource env name))
     (bindS (listStatus env [name]) (\<lambda>parsed.
        case find (\<lambda>res. js_name res = name) parsed of
          None \<Rightarrow> ret ()
        | Some res \<Rightarrow>
            (\<lambda>s. case wedgeCause env s res of
               Some cause \<Rightarrow> (Inl (wrap (''force-detach '' @ name @ '': '') cause), s)
             | None \<Rightarrow>
                 thenS (disconnectPeers env name (peerIDs res))
                 (thenS
                   (case js_devices res of
                      [] \<Rightarrow> ret ()
                    | d # _ \<Rightarrow>
                        if fst d \<noteq> DiskDiskless
                        then thenS (wrapS (''force-detach '' @ name @ '': '')
                               (execS env [''drbdsetup'', ''detach'', itoa minor, ''--force''])) (ret ())
                        else ret ())
                   (delPeers env name (peerIDs res))) s)))"

section \<open>Foreign metadata\<close>

text \<open>The deferred release joins its error to the body's.\<close>

definition deferring :: "unit step \<Rightarrow> unit step \<Rightarrow> unit step" where
  "deferring release body =
     bindS (attempt body) (\<lambda>b. bindS (attempt release) (\<lambda>c.
       case b of
         Inl e \<Rightarrow> fail (case c of Inl f \<Rightarrow> DrvError (e_kind e) (e_text e @ nl # e_text f) | Inr _ \<Rightarrow> e)
       | Inr _ \<Rightarrow> (case c of Inl f \<Rightarrow> fail f | Inr _ \<Rightarrow> ret ())))"

definition WipeForeignMetadata :: "DriverEnv \<Rightarrow> string \<Rightarrow> string \<Rightarrow> unit step" where
  "WipeForeignMetadata env name disk =
     (let marker = name @ ''.md-wiped''; probeName = ''@foreign-metadata-probe/'' @ name
      in bindS (statFile env marker) (\<lambda>wiped.
         if wiped then ret ()
         else
           bindS (wrapS (''reserve foreign metadata probe minor for '' @ name @ '': '') (AllocateMinor env probeName)) (\<lambda>minor.
             deferring (releaseMinor env probeName)
               (bindS (attempt (execS env [''drbdmeta'', itoa minor, ''v09'', disk, ''internal'', ''dump-md''])) (\<lambda>probe.
                  thenS
                    (case probe of
                       Inr _ \<Rightarrow> WipeMetadata env name disk minor
                     | Inl e \<Rightarrow>
                         if contains (e_text e) ''unclean'' then WipeMetadata env name disk minor
                         else if \<not> isMissingMetadata e
                              then fail (wrap (''probe foreign metadata on '' @ name @ '': '') e)
                              else ret ())
                    (writeFile env marker ''''))))))"

definition InvalidateForeignMetadataWipe :: "DriverEnv \<Rightarrow> string \<Rightarrow> unit step" where
  "InvalidateForeignMetadataWipe env name = removeFile env (name @ ''.md-wiped'')"

definition RemoveConfig :: "DriverEnv \<Rightarrow> string \<Rightarrow> unit step" where
  "RemoveConfig env name = removeStateFiles env name"

section \<open>Sweeps\<close>

text \<open>A sweep collects the errors of its resources: the list it returns is what \<^verbatim>\<open>errors.Join\<close> joins.\<close>

definition collect :: "string \<Rightarrow> unit step \<Rightarrow> drv_error list step" where
  "collect pre m = bindS (attempt m) (\<lambda>r. ret (case r of Inl e \<Rightarrow> [wrap pre e] | Inr _ \<Rightarrow> []))"

fun each :: "('a \<Rightarrow> drv_error list step) \<Rightarrow> 'a list \<Rightarrow> drv_error list step" where
  "each f [] = ret []"
| "each f (x # xs) = bindS (f x) (\<lambda>es. bindS (each f xs) (\<lambda>fs. ret (es @ fs)))"

text \<open>One kernel resource of the sweep: its errors, and whether it is stuck.\<close>

definition sweepKernel :: "DriverEnv \<Rightarrow> (string \<Rightarrow> bool) \<Rightarrow> jsonStatus \<Rightarrow> (drv_error list \<times> string list) step" where
  "sweepKernel env owned res =
     (\<lambda>s. if owned (js_name res) then (Inr ([], []), s)
        else
          (case wedgeCause env s res of
             Some cause \<Rightarrow> (Inr ([wrap (''orphan '' @ js_name res @ '': '') cause], [js_name res]), s)
           | None \<Rightarrow>
               bindS (attempt (downResource env (js_name res) (peerIDs res))) (\<lambda>d.
                 ret (case d of
                        Inl e \<Rightarrow> ([wrap (''down orphan '' @ js_name res @ '': '') e], [js_name res])
                      | Inr _ \<Rightarrow> ([], []))) s))"

fun sweepKernels :: "DriverEnv \<Rightarrow> (string \<Rightarrow> bool) \<Rightarrow> jsonStatus list \<Rightarrow> (drv_error list \<times> string list) step" where
  "sweepKernels env owned [] = ret ([], [])"
| "sweepKernels env owned (res # rs) =
     bindS (sweepKernel env owned res) (\<lambda>(es, stuck).
     bindS (sweepKernels env owned rs) (\<lambda>(fs, stuck'). ret (es @ fs, stuck @ stuck')))"

definition sweepConfig :: "DriverEnv \<Rightarrow> (string \<Rightarrow> bool) \<Rightarrow> string list \<Rightarrow> string \<Rightarrow> drv_error list step" where
  "sweepConfig env owned stuck entry =
     (case cut_suffix entry ''.res'' of
        None \<Rightarrow> ret []
      | Some name \<Rightarrow>
          if owned name \<or> name \<in> set stuck then ret []
          else
            bindS (collect '''' (removeStateFiles env name)) (\<lambda>es.
            bindS (collect (''release minor of orphan '' @ name @ '': '') (releaseMinor env name)) (\<lambda>fs. ret (es @ fs))))"

fun dropVanished :: "DriverEnv \<Rightarrow> (string \<Rightarrow> bool) \<Rightarrow> string list \<Rightarrow> int gomap \<Rightarrow> int gomap step" where
  "dropVanished env owned inKernel [] = ret []"
| "dropVanished env owned inKernel ((name, m) # rest) =
     bindS
       (if owned name \<or> name \<in> set inKernel then ret True
        else bindS (attempt (statFile env (name @ ''.res''))) (\<lambda>st. ret (st = Inr True)))
     (\<lambda>keep. bindS (dropVanished env owned inKernel rest) (\<lambda>rest'. ret (if keep then (name, m) # rest' else rest')))"

definition releaseOrphanedAssignments :: "DriverEnv \<Rightarrow> (string \<Rightarrow> bool) \<Rightarrow> string list \<Rightarrow> unit step" where
  "releaseOrphanedAssignments env owned inKernel =
     thenS (lockMinors env)
     (bindS (readAssignments env) (\<lambda>assigned.
      bindS (dropVanished env owned inKernel assigned) (\<lambda>kept.
        if length kept = length assigned then ret () else writeAssignments env kept)))"

definition SweepOrphans :: "DriverEnv \<Rightarrow> (string \<Rightarrow> bool) \<Rightarrow> drv_error list step" where
  "SweepOrphans env owned =
     bindS (listStatus env []) (\<lambda>parsed.
     bindS (sweepKernels env owned parsed) (\<lambda>(errs, stuck).
       (\<lambda>s. if \<not> x_io env s ''.'' then (Inr (errs @ [ioError ''.'']), s)
          else
            bindS (each (sweepConfig env owned stuck) (map fst (dr_files s))) (\<lambda>fs.
            bindS (collect '''' (releaseOrphanedAssignments env owned (map js_name parsed))) (\<lambda>gs.
              ret (errs @ fs @ gs))) s)))"

definition demoteOne :: "DriverEnv \<Rightarrow> jsonStatus \<Rightarrow> drv_error list step" where
  "demoteOne env res =
     (\<lambda>s. if js_role res \<noteq> rolePrimary then (Inr [], s)
        else
          (case wedgeCause env s res of
             Some cause \<Rightarrow> (Inr [wrap (js_name res @ '': '') cause], s)
           | None \<Rightarrow>
               collect (''secondary --force '' @ js_name res @ '': '')
                 (thenS (adm env [''secondary'', ''--force'', js_name res]) (ret ())) s))"

definition DemoteAll :: "DriverEnv \<Rightarrow> drv_error list step" where
  "DemoteAll env = bindS (listStatus env []) (each (demoteOne env))"

definition downSecondary :: "DriverEnv \<Rightarrow> string \<Rightarrow> unit step" where
  "downSecondary env name =
     (\<lambda>s. if \<not> x_tryLock env s name
        then (Inl (DrvError ErrBusy ''held by another operation; skipping: backend resource busy''), s)
        else
          (case x_expired env s of
             Some e \<Rightarrow> (Inl e, s)
           | None \<Rightarrow>
               bindS (listStatus env [name]) (\<lambda>parsed.
                 case find (\<lambda>res. js_name res = name \<and> js_role res \<noteq> rolePrimary) parsed of
                   None \<Rightarrow> ret ()
                 | Some res \<Rightarrow>
                     (\<lambda>t. case wedgeCause env t res of
                        Some cause \<Rightarrow> (Inl cause, t)
                      | None \<Rightarrow> downResource env name (peerIDs res) t)) s))"

definition DownSecondaries :: "DriverEnv \<Rightarrow> drv_error list step" where
  "DownSecondaries env =
     bindS (listStatus env []) (each (\<lambda>res.
       if js_role res = rolePrimary then ret [] else collect (js_name res @ '': '') (downSecondary env (js_name res))))"

section \<open>Queries and small commands\<close>

fun firstField :: "string \<Rightarrow> string list \<Rightarrow> string option" where
  "firstField key [] = None"
| "firstField key (line # lines) =
     (case cut_prefix (trim_space line) (key @ ''='') of
        Some v \<Rightarrow> Some (trim_space v)
      | None \<Rightarrow> firstField key lines)"

definition admVersionField :: "DriverEnv \<Rightarrow> string \<Rightarrow> string step" where
  "admVersionField env key =
     bindS (wrapS ''drbdadm --version: '' (execS env [''drbdadm'', ''--version''])) (\<lambda>out.
       case firstField key (split_on nl out) of
         Some v \<Rightarrow> ret v
       | None \<Rightarrow> fail (DrvError ErrPlain (''no '' @ key @ '' in drbdadm --version output'')))"

definition DiscardGranularity :: "DriverEnv \<Rightarrow> string \<Rightarrow> int step" where
  "DiscardGranularity env dev =
     bindS (wrapS (''probe discard granularity of '' @ dev @ '': '') (execS env [''lsblk'', ''-bndo'', ''DISC-GRAN'', dev])) (\<lambda>out.
       case parse_int 64 (trim_space out) of
         None \<Rightarrow> fail (DrvError ErrPlain (''parse discard granularity of '' @ dev))
       | Some gran \<Rightarrow> if gran \<le> 0 then ret 0 else ret (min (max gran 4096) (2 ^ 20)))"

definition UserSuspended :: "DriverEnv \<Rightarrow> string list step" where
  "UserSuspended env = bindS (listStatus env []) (\<lambda>parsed. ret (map js_name (filter js_suspendedUser parsed)))"

definition SuspendIO :: "DriverEnv \<Rightarrow> string \<Rightarrow> unit step" where
  "SuspendIO env name = thenS (adm env [''suspend-io'', name]) (ret ())"

definition ResumeIO :: "DriverEnv \<Rightarrow> string \<Rightarrow> unit step" where
  "ResumeIO env name = thenS (adm env [''resume-io'', name]) (ret ())"

definition Resize :: "DriverEnv \<Rightarrow> string \<Rightarrow> bool \<Rightarrow> unit step" where
  "Resize env name assumeClean =
     thenS (adm env (if assumeClean then [''resize'', ''--assume-clean'', name] else [''resize'', name])) (ret ())"

definition Verify :: "DriverEnv \<Rightarrow> string \<Rightarrow> unit step" where
  "Verify env name = thenS (adm env [''verify'', name]) (ret ())"

definition IsResizeDuringResync :: "drv_error option \<Rightarrow> bool" where
  "IsResizeDuringResync err = (case err of None \<Rightarrow> False | Some e \<Rightarrow> contains (e_text e) ''Resize not allowed during resync'')"

section \<open>What a driver step relates\<close>

locale drv_relation = step_relation R for R :: "drv \<Rightarrow> drv \<Rightarrow> bool"
begin

lemma al_ignoring: "always R m \<Longrightarrow> always R (ignoring k m)"
  unfolding ignoring_def by (rule al_bind) (auto intro: al_attempt al_fail al_ret split: sum.splits)

lemma al_read: "always R (readFile env p)" and al_stat: "always R (statFile env p)"
proof -
  show r: "always R (readFile env p)" by (simp add: always_def readFile_def refl)
  show "always R (statFile env p)" unfolding statFile_def by (intro al_bind r al_ret)
qed

lemma al_refuse: "always R (refuse e)"
  by (cases e) (simp_all add: refuse_def al_ret al_fail)

lemma al_lock: "always R (lockResource env n)" and al_lockLive: "always R (lockLiveResource env n)"
proof -
  show l: "always R (lockResource env n)"
    by (auto simp: always_def lockResource_def refl split: option.splits)
  show "always R (lockLiveResource env n)"
    unfolding lockLiveResource_def
    by (rule al_then [OF l], rule al_state [of "\<lambda>s. thenS (refuse (downStranded env s n)) (refuse (disconnectStranded env s n))"])
      (intro al_then al_refuse)
qed

lemma al_readPending: "always R (readPendingForgets env n)"
  unfolding readPendingForgets_def
  by (intro al_bind al_read) (auto intro: al_ret al_fail split: option.splits)

lemmas al_rules = al_core al_ignoring al_read al_stat al_lock
  al_lockLive al_readPending

end

section \<open>Metadata is created only over none\<close>

definition is_create :: "event \<Rightarrow> bool" where
  "is_create e \<longleftrightarrow> take 2 (fst e) = [''drbdadm'', ''create-md'']"

definition missing_dump :: "string \<Rightarrow> event \<Rightarrow> bool" where
  "missing_dump name e \<longleftrightarrow> fst e = [''drbdadm'', ''dump-md'', name @ ''/0''] \<and>
     (case snd e of
        Inr _ \<Rightarrow> False
      | Inl err \<Rightarrow> contains (e_text err) ''no valid meta data'' \<or> contains (e_text err) ''No valid meta data'')"

definition guarded :: "string \<Rightarrow> event list \<Rightarrow> bool" where
  "guarded name evs \<longleftrightarrow> (\<forall>i<length evs. is_create (evs ! i) \<longrightarrow> 0 < i \<and> missing_dump name (evs ! (i - 1)))"

definition adds :: "(event list \<Rightarrow> bool) \<Rightarrow> drv \<Rightarrow> drv \<Rightarrow> bool" where
  "adds P s t \<longleftrightarrow> (\<exists>new. dr_log t = dr_log s @ new \<and> P new)"

lemma guarded_append: "guarded name xs \<Longrightarrow> guarded name ys \<Longrightarrow> guarded name (xs @ ys)"
  unfolding guarded_def
proof (intro allI impI)
  fix i
  assume x: "\<forall>i<length xs. is_create (xs ! i) \<longrightarrow> 0 < i \<and> missing_dump name (xs ! (i - 1))"
    and y: "\<forall>i<length ys. is_create (ys ! i) \<longrightarrow> 0 < i \<and> missing_dump name (ys ! (i - 1))"
    and i: "i < length (xs @ ys)" and c: "is_create ((xs @ ys) ! i)"
  show "0 < i \<and> missing_dump name ((xs @ ys) ! (i - 1))"
  proof (cases "i < length xs")
    case True
    then have "i - 1 < length xs" by simp
    then show ?thesis using True x c by (simp add: nth_append)
  next
    case False
    then have "0 < i - length xs \<and> missing_dump name (ys ! (i - length xs - 1))"
      using y [rule_format, of "i - length xs"] i c by (simp add: nth_append)
    moreover from this have "i - 1 - length xs = i - length xs - 1" "\<not> i - 1 < length xs" by auto
    ultimately show ?thesis by (simp add: nth_append)
  qed
qed

lemma guarded_none: "list_all (\<lambda>e. \<not> is_create e) evs \<Longrightarrow> guarded name evs"
  by (simp add: guarded_def list_all_length)

lemma guarded_create: "missing_dump name d \<Longrightarrow> \<not> is_create d \<Longrightarrow> guarded name [d, e]"
  by (auto simp: guarded_def nth_Cons less_Suc_eq numeral_2_eq_2 split: nat.splits)

interpretation guard: drv_relation "adds (guarded name)" for name
proof
  fix s t u
  show "adds (guarded name) s s" by (simp add: adds_def guarded_def)
  assume "adds (guarded name) s t" "adds (guarded name) t u"
  then show "adds (guarded name) s u" by (auto simp: adds_def guarded_append)
qed

lemma adds_files [simp]: "adds P s (t\<lparr>dr_files := f\<rparr>) = adds P s t"
  by (simp add: adds_def)

lemma gd_exec: "take 2 cmd \<noteq> [''drbdadm'', ''create-md''] \<Longrightarrow> always (adds (guarded name)) (execS env cmd)"
  by (auto simp: always_def execS_def adds_def is_create_def intro!: guarded_none)

lemma gd_list: "always (adds (guarded name)) (listStatus env n)"
  by (auto simp: always_def listStatus_def Let_def adds_def is_create_def intro!: guarded_none)

lemma gd_files:
  "always (adds (guarded name)) (writeFile env p d)" "always (adds (guarded name)) (removeFile env p)"
  by (simp_all add: always_def writeFile_def removeFile_def guard.refl)

lemma gd_pending: "always (adds (guarded name)) (writePendingForgets env n ids)"
  by (simp add: writePendingForgets_def Let_def gd_files)

lemma gd_config: "always (adds (guarded name)) (writeConfig env r)"
  by (auto simp: writeConfig_def Let_def intro!: guard.al_rules gd_files split: if_splits)

lemmas gd_rules = guard.al_rules gd_exec gd_list gd_files gd_pending gd_config

lemma gd_node: "always (adds (guarded name)) (ensureDeviceNode env m)"
proof -
  have node: "always (adds (guarded name)) (makeNode env m)"
    by (auto simp: makeNode_def Let_def intro!: gd_rules)
  have rm: "always (adds (guarded name)) (thenS (wrapS p (execS env [''remove'', q])) (makeNode env m))" for p q
    by (intro gd_rules node) simp
  show ?thesis unfolding always_def ensureDeviceNode_def Let_def
    using node rm by (auto simp: always_def guard.refl split: dev_stat.splits)
qed

lemma gd_finish: "always (adds (guarded name)) (finishApply env r removed)"
proof -
  have "always (adds (guarded name)) (forgetPeers env n ids)" for n ids
    by (induction ids) (auto simp: forgetPeer_def intro!: gd_rules)
  then show ?thesis unfolding finishApply_def forgetRemovedPeers_def by (intro gd_rules gd_node)
qed

lemma gd_dump: "always (adds (guarded name)) (dumpAnswer n r)"
  by (cases r) (auto simp: dumpAnswer_def intro!: guard.al_rules)

lemma gd_probe: "always (adds (guarded name)) (probeMetadata env n)"
  unfolding probeMetadata_def
  by (intro gd_rules gd_dump) (auto simp: adm_def intro!: gd_rules gd_dump split: sum.splits)
lemma dump_step:
  assumes "bindS (attempt (adm env [''dump-md'', n @ ''/0''])) (dumpAnswer n) s = (Inr (False, a, d), t)"
  shows "\<exists>e. missing_dump n e \<and> dr_log t = dr_log s @ [e]"
  using assms
  by (auto simp: bindS_def attempt_def adm_def execS_def dumpAnswer_def ret_def fail_def missing_dump_def
      split: sum.splits if_splits)

lemma probe_missing:
  assumes "probeMetadata env n s = (Inr (False, a, d), t)"
  shows "\<exists>pre e. missing_dump n e \<and> dr_log t = dr_log s @ pre @ [e] \<and> list_all (\<lambda>e. \<not> is_create e) pre"
proof -
  define u where "u = snd (listStatus env [n] s)"
  obtain le where le: "dr_log u = dr_log s @ [le]" "\<not> is_create le"
    by (simp add: u_def listStatus_def Let_def is_create_def)
  define v where "v = snd (adm env [''dump-md'', n @ ''/0''] u)"
  obtain de where de: "dr_log v = dr_log u @ [de]" "\<not> is_create de"
    by (simp add: v_def adm_def execS_def is_create_def)
  define w where "w = snd (adm env [''apply-al'', n @ ''/0''] v)"
  obtain ae where ae: "dr_log w = dr_log v @ [ae]" "\<not> is_create ae"
    by (simp add: w_def adm_def execS_def is_create_def)
  consider "bindS (attempt (adm env [''dump-md'', n @ ''/0''])) (dumpAnswer n) u = (Inr (False, a, d), t)"
    | "bindS (attempt (adm env [''dump-md'', n @ ''/0''])) (dumpAnswer n) w = (Inr (False, a, d), t)"
    using assms unfolding probeMetadata_def
    by (auto simp: bindS_def attempt_def thenS_def wrapS_def ret_def u_def v_def w_def
        split: prod.splits sum.splits if_splits)
  then show ?thesis
  proof cases
    case 1
    then obtain e where "missing_dump n e" "dr_log t = dr_log u @ [e]" using dump_step by blast
    then show ?thesis using le by (intro exI [of _ "[le]"] exI [of _ e]) simp
  next
    case 2
    then obtain e where "missing_dump n e" "dr_log t = dr_log w @ [e]" using dump_step by blast
    then show ?thesis using le de ae by (intro exI [of _ "[le, de, ae]"] exI [of _ e]) simp
  qed
qed

lemma missing_dump_iff:
  "missing_dump n e \<longleftrightarrow> fst e = [''drbdadm'', ''dump-md'', n @ ''/0''] \<and>
     (\<exists>err. snd e = Inl err \<and> (contains (e_text err) ''no valid meta data'' \<or> contains (e_text err) ''No valid meta data''))"
  by (cases "snd e") (simp_all add: missing_dump_def)

lemma missing_not_create: "missing_dump n e \<Longrightarrow> \<not> is_create e"
  by (auto simp: missing_dump_def is_create_def)

lemma gd_adopt: "always (adds (guarded n)) (markAdopted env n)"
  by (simp add: markAdopted_def gd_files)

text \<open>With metadata found, or a device attached, nothing is created.\<close>

lemma gd_ensure: "always (adds (guarded (res_name r))) (ensureMetadata env r)"
  unfolding always_def
proof
  fix s
  let ?n = "res_name r"
  obtain res t where p: "probeMetadata env ?n s = (res, t)" by (cases "probeMetadata env ?n s")
  have st: "adds (guarded ?n) s t" using gd_probe p unfolding always_def by (metis snd_conv)
  show "adds (guarded ?n) s (snd (ensureMetadata env r s))"
  proof (cases res)
    case (Inl e)
    then show ?thesis using p st by (simp add: ensureMetadata_def bindS_def)
  next
    case (Inr x)
    obtain hasMD attached dump where x: "x = (hasMD, attached, dump)" by (cases x)
    define rest where "rest = (if attached then markAdopted env ?n
       else bindS (statFile env (?n @ ''.md-seeding'')) (\<lambda>seeding.
           if hasMD \<and> \<not> seeding \<and> \<not> virginMetadata dump ?n then markAdopted env ?n
           else thenS (writeFile env (?n @ ''.md-seeding'') '''')
               (if hasMD then ret () else thenS (wrapS (''create-md '' @ ?n @ '': '') (adm env (createMd r))) (ret ()))))"
    have e: "ensureMetadata env r s = rest t" using p Inr x by (simp add: ensureMetadata_def bindS_def rest_def)
    show ?thesis
    proof (cases "hasMD \<or> attached")
      case True
      then have "always (adds (guarded ?n)) rest"
        by (auto simp: rest_def intro!: gd_rules gd_adopt)
      then show ?thesis using e st guard.trans [of ?n s t] by (simp add: always_def)
    next
      case False
      then obtain pre d where d: "missing_dump ?n d" "dr_log t = dr_log s @ pre @ [d]"
          "list_all (\<lambda>e. \<not> is_create e) pre"
        using probe_missing [of env ?n s attached dump t] p Inr x by auto
      have "dr_log (snd (rest t)) = dr_log t \<or> (\<exists>c. dr_log (snd (rest t)) = dr_log t @ [c])"
        using False by (auto simp: rest_def statFile_def readFile_def writeFile_def step_defs adm_def execS_def
            split: sum.splits)
      moreover have "guarded ?n (pre @ [d])" "guarded ?n (pre @ [d, c])" for c
        using d guarded_append [of ?n pre] guarded_none [of pre] guarded_none [of "[d]"] guarded_create [of ?n d c]
          missing_not_create [of ?n d] by simp_all
      ultimately show ?thesis using e d(2) by (auto simp: adds_def)
    qed
  qed
qed

lemma gd_marked: "always (adds (guarded (res_name r))) (ensureMarkedMetadata env r)"
  unfolding ensureMarkedMetadata_def by (intro gd_rules) (auto intro!: gd_rules gd_ensure)

lemma gd_fallback: "always (adds (guarded n)) (adjustFallback env r removed e)"
  by (auto simp: adjustFallback_def adm_def intro!: gd_rules gd_finish)

lemma gd_recover: "always (adds (guarded (res_name r))) (adjustRecover env r removed e)"
  unfolding adjustRecover_def
  by (auto simp: adm_def intro!: gd_rules gd_marked gd_fallback gd_finish split: sum.splits)

lemma gd_removed: "always (adds (guarded n)) (removedPeers env r)"
  unfolding removedPeers_def
  by (intro gd_rules) (auto simp: Let_def intro!: gd_rules split: sum.splits)

lemma gd_Apply: "always (adds (guarded (res_name r))) (Apply env r)"
  unfolding Apply_def applyConfig_def
proof (intro gd_rules gd_removed)
  show "always (adds (guarded (res_name r))) (adm env (adjustArgs r))"
    by (auto simp: adm_def adjustArgs_def intro!: gd_rules)
qed (auto intro!: gd_marked gd_finish gd_recover guard.al_ret split: sum.splits)

text \<open>
  C4. \<^verbatim>\<open>Apply\<close> creates metadata on a backing device only where there is none: every \<^verbatim>\<open>create-md\<close> it
  runs, on the first bring-up or after \<^verbatim>\<open>adjust\<close> found the device blank, directly follows a \<^verbatim>\<open>dump-md\<close>
  of the same resource that answered that the device holds no valid metadata. A live generation is
  never overwritten, whatever markers the state directory has lost. It only ever adds to the log.
\<close>

theorem create_md_guarded:
  "\<exists>new. dr_log (snd (Apply env r s)) = dr_log s @ new \<and>
    (\<forall>i<length new. take 2 (fst (new ! i)) = [''drbdadm'', ''create-md''] \<longrightarrow>
      0 < i \<and> fst (new ! (i - 1)) = [''drbdadm'', ''dump-md'', res_name r @ ''/0''] \<and>
      (\<exists>e. snd (new ! (i - 1)) = Inl e \<and>
        (contains (e_text e) ''no valid meta data'' \<or> contains (e_text e) ''No valid meta data'')))"
proof -
  obtain new where "dr_log (snd (Apply env r s)) = dr_log s @ new" and g: "guarded (res_name r) new"
    using gd_Apply [of r env] unfolding always_def adds_def by blast
  then show ?thesis
    by (intro exI [of _ new]) (simp add: guarded_def is_create_def missing_dump_iff)
qed
definition blank_disk :: DriverEnv where
  "blank_disk = calm\<lparr>x_exec := (\<lambda>_ cmd. if cmd = [''drbdadm'', ''dump-md'', ''v/0'']
     then Inl (DrvError ErrPlain ''No valid meta data found'') else Inr '''')\<rparr>"

definition small_resource :: Resource where
  "small_resource = \<lparr>res_name = ''v'', res_minor = 1, res_port = 7, res_quorum = QuorumFreeze,
     res_localNode = ''a'', res_localDisk = ''d'', res_localDiskless = False, res_secret = ''s'',
     res_skipDiskAttach = False, res_discardGranularity = 0, res_clientDiscardGranularity = 0,
     res_bitmapGranularity = 0,
     res_peers = [\<lparr>p_node = ''a'', p_nodeID = 0, p_address = ''1.1.1.1'', p_diskless = False, p_client = False\<rparr>]\<rparr>"

theorem create_md_guarded_witness:
  "let log = dr_log (snd (Apply blank_disk small_resource no_volume))
   in take 2 (fst (log ! 3)) = [''drbdadm'', ''create-md''] \<and> fst (log ! 2) = [''drbdadm'', ''dump-md'', ''v/0'']"
proof -
  let ?log = "dr_log (snd (Apply blank_disk small_resource no_volume))"
  have "take 2 (fst (?log ! 3)) = [''drbdadm'', ''create-md''] \<and> 3 < length ?log" by code_simp
  moreover have "dr_log no_volume = []" "res_name small_resource = ''v''"
    by (simp_all add: no_volume_def small_resource_def)
  ultimately show ?thesis
    using create_md_guarded [of blank_disk small_resource no_volume] by auto
qed

section \<open>Forgets owed\<close>

text \<open>A step that leaves a file alone.\<close>

definition keeps :: "string \<Rightarrow> drv \<Rightarrow> drv \<Rightarrow> bool" where
  "keeps path s t \<longleftrightarrow> map_of (dr_files t) path = map_of (dr_files s) path"

interpretation same: drv_relation "\<lambda>s t. t = s"
  by unfold_locales simp_all

interpretation keep: drv_relation "keeps path" for path
  by unfold_locales (simp_all add: keeps_def)

lemma kp_exec: "always (keeps p) (execS env cmd)" and kp_list: "always (keeps p) (listStatus env n)"
  by (simp_all add: always_def execS_def listStatus_def Let_def keeps_def)

lemma kp_files: "q \<noteq> p \<Longrightarrow> always (keeps p) (writeFile env q d)" "q \<noteq> p \<Longrightarrow> always (keeps p) (removeFile env q)"
  by (simp_all add: always_def writeFile_def removeFile_def keeps_def update_conv delete_conv)

lemma kp_config: "res_name r @ ''.res'' \<noteq> p \<Longrightarrow> always (keeps p) (writeConfig env r)"
  by (auto simp: writeConfig_def Let_def intro!: keep.al_rules kp_files)

lemma kp_adm: "always (keeps p) (adm env args)"
  by (simp add: adm_def kp_exec)

lemmas kp_rules = keep.al_rules kp_exec kp_list kp_files kp_config kp_adm

lemma kp_dump: "always (keeps p) (dumpAnswer n r)"
  by (cases r) (auto simp: dumpAnswer_def intro!: keep.al_rules)

lemma kp_probe: "always (keeps p) (probeMetadata env n)"
  unfolding probeMetadata_def by (intro kp_rules kp_dump) (auto intro!: kp_rules kp_dump split: sum.splits)

lemma marker_other:
  "n @ ''.res'' \<noteq> n @ pendingForgetSuffix" "n @ ''.md-created'' \<noteq> n @ pendingForgetSuffix"
  "n @ ''.md-seeding'' \<noteq> n @ pendingForgetSuffix" "n @ ''.md-adopted'' \<noteq> n @ pendingForgetSuffix"
  by (simp_all add: pendingForgetSuffix_def)

lemma kp_marked: "always (keeps (res_name r @ pendingForgetSuffix)) (ensureMarkedMetadata env r)"
proof -
  have "always (keeps (res_name r @ pendingForgetSuffix)) (ensureMetadata env r)"
    unfolding ensureMetadata_def markAdopted_def
    by (intro kp_rules kp_probe marker_other) (auto intro!: kp_rules marker_other)
  then show ?thesis unfolding ensureMarkedMetadata_def
    by (intro kp_rules marker_other) (auto intro!: kp_rules)
qed

lemma kp_node: "always (keeps p) (ensureDeviceNode env m)"
proof -
  have node: "always (keeps p) (makeNode env m)" by (auto simp: makeNode_def Let_def intro!: kp_rules)
  have rm: "always (keeps p) (thenS (wrapS p' (execS env c)) (makeNode env m))" for p' c
    by (intro kp_rules node)
  show ?thesis unfolding always_def ensureDeviceNode_def Let_def
    using node rm by (auto simp: always_def keep.refl split: dev_stat.splits)
qed

text \<open>The forgets that succeeded are in the log; the marker goes only after all of them.\<close>

definition settled :: "string \<Rightarrow> int list \<Rightarrow> drv \<Rightarrow> drv \<Rightarrow> bool" where
  "settled n ids s t \<longleftrightarrow> keeps (n @ pendingForgetSuffix) s t \<or>
     (\<forall>i\<in>set ids. \<exists>a. (forgetPeer n i, Inr a) \<in> set (drop (length (dr_log s)) (dr_log t)))"

lemma forgetPeers_log:
  "\<exists>new. dr_log (snd (forgetPeers env n ids s)) = dr_log s @ new \<and> dr_files (snd (forgetPeers env n ids s)) = dr_files s \<and>
    (fst (forgetPeers env n ids s) = Inr () \<longrightarrow> (\<forall>i\<in>set ids. \<exists>a. (forgetPeer n i, Inr a) \<in> set new))"
proof (induction ids arbitrary: s)
  case (Cons i ids)
  let ?ev = "(forgetPeer n i, x_exec env s (forgetPeer n i))"
  let ?t = "s\<lparr>dr_log := dr_log s @ [?ev]\<rparr>"
  show ?case
  proof (cases "x_exec env s (forgetPeer n i)")
    case (Inr a)
    then have "forgetPeers env n (i # ids) s = forgetPeers env n ids ?t"
      by (simp add: thenS_def bindS_def wrapS_def execS_def)
    moreover obtain new where "dr_log (snd (forgetPeers env n ids ?t)) = dr_log ?t @ new"
        "dr_files (snd (forgetPeers env n ids ?t)) = dr_files s"
        "fst (forgetPeers env n ids ?t) = Inr () \<longrightarrow> (\<forall>i\<in>set ids. \<exists>a. (forgetPeer n i, Inr a) \<in> set new)"
      using Cons.IH [of ?t] by auto
    ultimately show ?thesis using Inr by (intro exI [of _ "?ev # new"]) auto
  qed (auto simp: thenS_def bindS_def wrapS_def execS_def)
qed (simp add: ret_def)
lemma settled_keep: "always (keeps (n @ pendingForgetSuffix)) m \<Longrightarrow> always (settled n ids) m"
  by (simp add: always_def settled_def)

lemma settled_after:
  assumes "keeps (n @ pendingForgetSuffix) s t" and "adds P s t" and "settled n ids t u"
  shows "settled n ids s u"
  using assms(3) unfolding settled_def
proof
  assume "keeps (n @ pendingForgetSuffix) t u"
  then show "keeps (n @ pendingForgetSuffix) s u \<or>
      (\<forall>i\<in>set ids. \<exists>a. (forgetPeer n i, Inr a) \<in> set (drop (length (dr_log s)) (dr_log u)))"
    using assms(1) keep.trans by blast
next
  assume f: "\<forall>i\<in>set ids. \<exists>a. (forgetPeer n i, Inr a) \<in> set (drop (length (dr_log t)) (dr_log u))"
  have "length (dr_log s) \<le> length (dr_log t)" using assms(2) by (auto simp: adds_def)
  then have "set (drop (length (dr_log t)) (dr_log u)) \<subseteq> set (drop (length (dr_log s)) (dr_log u))"
    by (rule set_drop_subset_set_drop)
  with f show "keeps (n @ pendingForgetSuffix) s u \<or>
      (\<forall>i\<in>set ids. \<exists>a. (forgetPeer n i, Inr a) \<in> set (drop (length (dr_log s)) (dr_log u)))" by blast
qed

lemma settled_bind:
  assumes "always (keeps (n @ pendingForgetSuffix)) m" and "always (adds P) m" and "\<And>x. always (settled n ids) (f x)"
  shows "always (settled n ids) (bindS m f)"
  unfolding always_def
proof
  fix s
  obtain r t where m: "m s = (r, t)" by (cases "m s")
  have st: "keeps (n @ pendingForgetSuffix) s t" "adds P s t"
    using assms(1,2) m unfolding always_def by (metis snd_conv)+
  show "settled n ids s (snd (bindS m f s))"
  proof (cases r)
    case (Inr x)
    have "settled n ids t (snd (f x t))" using assms(3) by (simp add: always_def)
    then show ?thesis using settled_after [OF st] m Inr by (simp add: bindS_def)
  qed (use st m in \<open>simp add: bindS_def settled_def\<close>)
qed

lemma settled_then:
  "always (keeps (n @ pendingForgetSuffix)) m \<Longrightarrow> always (adds P) m \<Longrightarrow> always (settled n ids) k \<Longrightarrow>
   always (settled n ids) (thenS m k)"
  by (simp add: thenS_def settled_bind)

lemma settled_finish: "always (settled (res_name r) ids) (finishApply env r ids)"
  unfolding always_def
proof
  fix s
  let ?n = "res_name r"
  obtain res t where f: "forgetPeers env ?n ids s = (res, t)" by (cases "forgetPeers env ?n ids s")
  obtain new where new: "dr_log t = dr_log s @ new" "dr_files t = dr_files s"
      "res = Inr () \<longrightarrow> (\<forall>i\<in>set ids. \<exists>a. (forgetPeer ?n i, Inr a) \<in> set new)"
    using forgetPeers_log [of env ?n ids s] f by auto
  show "settled ?n ids s (snd (finishApply env r ids s))"
  proof (cases res)
    case (Inl e)
    then show ?thesis using f new(2)
      by (simp add: finishApply_def forgetRemovedPeers_def thenS_def bindS_def settled_def keeps_def)
  next
    case (Inr x)
    let ?rest = "thenS (writePendingForgets env ?n []) (ensureDeviceNode env (res_minor r))"
    have e: "snd (finishApply env r ids s) = snd (?rest t)"
      using f Inr by (simp add: finishApply_def forgetRemovedPeers_def thenS_def bindS_def split: prod.splits sum.splits)
    have "adds (guarded ?n) t (snd (?rest t))"
      using guard.al_then [OF gd_pending gd_node, of ?n env ?n "[]" env "res_minor r"] by (simp add: always_def)
    then obtain more where "dr_log (snd (?rest t)) = dr_log s @ new @ more" using new(1) by (auto simp: adds_def)
    then show ?thesis using new(3) Inr e by (fastforce simp: settled_def)
  qed
qed

lemma settled_fallback: "always (settled (res_name r) ids) (adjustFallback env r ids e)"
  unfolding adjustFallback_def
  by (auto intro!: settled_then [where P = "guarded (res_name r)"] kp_rules gd_rules settled_finish
      settled_keep [OF keep.al_fail] simp: adm_def)

lemma settled_recover: "always (settled (res_name r) ids) (adjustRecover env r ids e)"
  unfolding adjustRecover_def
  by (auto intro!: settled_then [where P = "guarded (res_name r)"] settled_bind [where P = "guarded (res_name r)"]
      kp_rules gd_rules kp_marked gd_marked marker_other settled_fallback settled_finish
      simp: adm_def split: sum.splits)

lemma settled_tail: "always (settled (res_name r) ids) (applyConfig env r ids)"
  unfolding applyConfig_def
proof (intro settled_then [where P = "guarded (res_name r)"] settled_bind [where P = "guarded (res_name r)"])
  show "always (adds (guarded (res_name r))) (attempt (adm env (adjustArgs r)))"
    by (auto simp: adm_def adjustArgs_def intro!: gd_rules)
qed (auto intro!: kp_rules gd_rules kp_marked gd_marked marker_other settled_finish settled_recover split: sum.splits)

definition owed :: "DriverEnv \<Rightarrow> Resource \<Rightarrow> int list \<Rightarrow> jsonStatus list \<Rightarrow> int list" where
  "owed env r pending rs =
     remdups_adj (sort (filter (\<lambda>i. \<not> list_ex (\<lambda>p. p_nodeID p = i) (res_peers r))
       (pending @ concat (map (\<lambda>res. if js_name res = res_name r then peerIDs res else []) rs))))"

lemma removedPeers_listed:
  assumes "x_list env s [res_name r] = Listed rs" and "readPendingForgets env (res_name r) s = (Inr pending, s)"
  shows "removedPeers env r s = (Inr (owed env r pending rs),
    s\<lparr>dr_log := dr_log s @ [([''drbdsetup'', ''status'', ''--json'', res_name r], Inr '''')]\<rparr>)"
  using assms by (simp add: removedPeers_def bindS_def attempt_def listStatus_def Let_def ret_def owed_def)

lemma writePending_marker:
  assumes "writePendingForgets env n ids s = (Inr (), t)" and "ids \<noteq> []"
  shows "map_of (dr_files t) (n @ pendingForgetSuffix) = Some (unlines (map itoa ids))" and "dr_log t = dr_log s"
  using assms by (auto simp: writePendingForgets_def writeFile_def Let_def update_conv split: if_splits)

definition left_peer :: DriverEnv where
  "left_peer = calm\<lparr>x_list := (\<lambda>_ _. Listed [\<lparr>js_name = ''v'', js_role = ''Secondary'', js_suspendedUser = False,
       js_devices = [(''UpToDate'', True)],
       js_connections = [\<lparr>jc_peerNodeID = 3, jc_connectionState = ''Connected'', jc_peerRole = ''Secondary'', jc_peerDevices = []\<rparr>]\<rparr>]),
     x_exec := (\<lambda>_ cmd. if cmd = [''drbdadm'', ''adjust'', ''v''] then Inl (DrvError ErrPlain ''killed'') else Inr '''')\<rparr>"

section \<open>Teardown\<close>

lemma disconnectPeers_log:
  assumes "disconnectPeers env n ids s = (Inr (), t)"
  shows "\<exists>new. dr_log t = dr_log s @ new \<and> map fst new = map (disconnectPeer n) ids \<and>
    dr_files t = dr_files s \<and> dr_wedgeSeen t = dr_wedgeSeen s"
  using assms
proof (induction ids arbitrary: s)
  case (Cons i ids)
  let ?u = "snd (execS env (disconnectPeer n i) s)"
  have "disconnectPeers env n ids ?u = (Inr (), t)"
    using Cons.prems by (auto simp: thenS_def bindS_def attempt_def split: prod.splits if_splits)
  then obtain new where "dr_log t = dr_log ?u @ new" "map fst new = map (disconnectPeer n) ids"
      "dr_files t = dr_files ?u" "dr_wedgeSeen t = dr_wedgeSeen ?u"
    using Cons.IH [of ?u] by blast
  then show ?case by (intro exI [of _ "(disconnectPeer n i, x_exec env s (disconnectPeer n i)) # new"]) (simp add: execS_def)
qed (simp add: ret_def)

lemma downResource_log:
  assumes "downResource env n ids s = (Inr (), t)"
  shows "\<exists>new. dr_log t = dr_log s @ new \<and> map fst new = map (disconnectPeer n) ids @ [downCmd n] \<and>
    dr_files t = dr_files s \<and> dr_wedgeSeen t = dr_wedgeSeen s"
proof -
  obtain u where d: "disconnectPeers env n ids s = (Inr (), u)" and t: "t = snd (execS env (downCmd n) u)"
    using assms
    by (auto simp: downResource_def thenS_def bindS_def wrapS_def ret_def split: prod.splits sum.splits)
  obtain new where "dr_log u = dr_log s @ new" "map fst new = map (disconnectPeer n) ids"
      "dr_files u = dr_files s" "dr_wedgeSeen u = dr_wedgeSeen s" using disconnectPeers_log [OF d] by blast
  then show ?thesis using t
    by (intro exI [of _ "new @ [(downCmd n, x_exec env u (downCmd n))]"]) (simp add: execS_def)
qed

lemma removeFiles_all:
  assumes "\<And>s p. x_io env s p"
  shows "fst (removeFiles env ps s) = Inr () \<and> dr_log (snd (removeFiles env ps s)) = dr_log s \<and>
    dr_wedgeSeen (snd (removeFiles env ps s)) = dr_wedgeSeen s \<and>
    map_of (dr_files (snd (removeFiles env ps s))) = (\<lambda>q. if q \<in> set ps then None else map_of (dr_files s) q)"
proof (induction ps arbitrary: s)
  case (Cons p ps)
  then show ?case using assms
    by (auto simp: thenS_def bindS_def removeFile_def delete_conv fun_eq_iff)
qed (simp add: ret_def)

lemma state_files_other: "q \<in> set (map (\<lambda>suffix. n @ suffix) stateSuffixes) \<Longrightarrow> q \<noteq> ''minor.assign'' \<and> (q = v @ ''.res'' \<longrightarrow> v = n)"
proof -
  assume "q \<in> set (map (\<lambda>suffix. n @ suffix) stateSuffixes)"
  then have q: "last q \<in> set ''sdg'' \<and> (q = n @ ''.res'' \<or> last q \<noteq> CHR ''s'')"
    by (auto simp: stateSuffixes_def pendingForgetSuffix_def)
  have "last ''minor.assign'' = CHR ''n''" "last (v @ ''.res'') = CHR ''s''" by simp_all
  with q show ?thesis by auto
qed

lemma releaseMinor_minors:
  assumes "\<And>s p. x_io env s p"
  shows "fst (releaseMinor env n s) = Inr () \<and> dr_log (snd (releaseMinor env n s)) = dr_log s \<and>
    dr_wedgeSeen (snd (releaseMinor env n s)) = dr_wedgeSeen s \<and>
    map_of (assigned_of (dr_files (snd (releaseMinor env n s)))) = (map_of (assigned_of (dr_files s)))(n := None) \<and>
    (\<forall>p. p \<noteq> ''minor.assign'' \<longrightarrow> map_of (dr_files (snd (releaseMinor env n s))) p = map_of (dr_files s) p)"
proof (cases "has_key (assigned_of (dr_files s)) n")
  case True
  let ?d = "AList.delete n (assigned_of (dr_files s))"
  have "assign_ok ?d"
    using assign_ok_assigned [of "dr_files s"] distinct_delete [of "assigned_of (dr_files s)" n]
    by (auto simp: assign_ok_def list_all_iff AList.delete_eq)
  then have "assigned_of (AList.update ''minor.assign'' (renderAssignments ?d) (dr_files s)) = ?d"
    by (simp add: assigned_of_def [of "AList.update _ _ _"] update_conv parse_renderAssignments)
  moreover have "releaseMinor env n s = (Inr (), s\<lparr>dr_files := AList.update ''minor.assign'' (renderAssignments ?d) (dr_files s)\<rparr>)"
    using assms True by (simp add: releaseMinor_def lockMinors_def readAssignments_def readFile_def step_defs
        writeAssignments_def writeFile_def assigned_of_def)
  ultimately show ?thesis by (simp add: delete_conv' update_conv)
next
  case False
  then have "releaseMinor env n s = (Inr (), s)"
    using assms by (simp add: releaseMinor_def lockMinors_def readAssignments_def readFile_def step_defs assigned_of_def)
  moreover have "map_of (assigned_of (dr_files s)) n = None" using False by (simp add: has_key_def)
  ultimately show ?thesis by (auto simp: fun_eq_iff)
qed

lemma released_minors:
  assumes io: "\<And>s p. x_io env s p" and t_def: "t = snd (thenS (removeStateFiles env n) (releaseMinor env n) s)"
  shows "minor_of (dr_files t) = (minor_of (dr_files s))(n := None)"
    and "dr_log t = dr_log s" and "dr_wedgeSeen t = dr_wedgeSeen s"
proof -
  let ?ps = "map (\<lambda>suffix. n @ suffix) stateSuffixes"
  define u where "u = snd (removeStateFiles env n s)"
  note rf = removeFiles_all [OF io, of ?ps s]
  have fu: "map_of (dr_files u) = (\<lambda>q. if q \<in> set ?ps then None else map_of (dr_files s) q)"
    and lu: "dr_log u = dr_log s" "dr_wedgeSeen u = dr_wedgeSeen s"
    using rf by (simp_all add: u_def removeStateFiles_def)
  have "fst (removeStateFiles env n s) = Inr ()" using rf by (simp add: removeStateFiles_def)
  then have t: "t = snd (releaseMinor env n u)"
    unfolding t_def thenS_def bindS_def u_def by (cases "removeStateFiles env n s") simp
  note rm = releaseMinor_minors [OF io, of n u]
  show "dr_log t = dr_log s" "dr_wedgeSeen t = dr_wedgeSeen s" using t rm lu by simp_all
  have a: "assigned_of (dr_files u) = assigned_of (dr_files s)"
    using fu state_files_other [of "''minor.assign''" n n] by (auto simp: assigned_of_def)
  have p: "n @ ''.res'' \<in> set ?ps" by (simp add: stateSuffixes_def)
  have "minor_of (dr_files t) v = ((minor_of (dr_files s))(n := None)) v" for v
  proof -
    have r: "map_of (dr_files t) (v @ ''.res'') = map_of (dr_files u) (v @ ''.res'')"
      using rm t assign_not_res [of v] by simp
    have "v \<noteq> n \<Longrightarrow> map_of (dr_files u) (v @ ''.res'') = map_of (dr_files s) (v @ ''.res'')"
      using fu state_files_other [of "v @ ''.res''" n v] by auto
    moreover have "map_of (dr_files u) (n @ ''.res'') = None" using fu p by simp
    ultimately have "res_minors (dr_files t) (v @ ''.res'') = (if v = n then [] else res_minors (dr_files s) (v @ ''.res''))"
      using r by (auto simp: res_minors_def)
    moreover have "map_of (assigned_of (dr_files t)) = (map_of (assigned_of (dr_files s)))(n := None)" using rm t a by simp
    ultimately show ?thesis by (auto simp: minor_of_def split: option.split)
  qed
  then show "minor_of (dr_files t) = (minor_of (dr_files s))(n := None)" by blast
qed

text \<open>The fingerprint a teardown looks for, and the peers it disconnects, from the kernel's listing.\<close>

definition wedge_fingerprint :: "DriverEnv \<Rightarrow> drv \<Rightarrow> string \<Rightarrow> bool" where
  "wedge_fingerprint env s name \<longleftrightarrow> downStranded env s name \<noteq> None \<or>
     (case x_list env s [name] of
        Listed rs \<Rightarrow> list_ex (\<lambda>res. js_name res = name \<and> wedgeSignature res) rs
      | _ \<Rightarrow> False)"

definition listed_peers :: "DriverEnv \<Rightarrow> drv \<Rightarrow> string \<Rightarrow> int list" where
  "listed_peers env s name =
     (case x_list env s [name] of
        Listed rs \<Rightarrow> concat (map peerIDs (filter (\<lambda>res. js_name res = name) rs))
      | _ \<Rightarrow> [])"

lemma liveTeardownView_eq:
  "\<exists>cause a. liveTeardownView env n s = (Inr (listed_peers env s n, cause),
      s\<lparr>dr_log := dr_log s @ [([''drbdsetup'', ''status'', ''--json'', n], a)]\<rparr>) \<and>
     (cause \<noteq> None \<longleftrightarrow> wedge_fingerprint env s n) \<and> (\<forall>e. cause = Some e \<longrightarrow> is_wedged e)"
proof -
  have w: "downStranded env s n = Some e \<Longrightarrow> is_wedged e" for e
    by (auto simp: downStranded_def errDownStranded_def is_wedged_def split: option.splits if_splits)
  show ?thesis
  proof (cases "x_list env s [n]")
    case (Listed rs)
    then show ?thesis
      using w by (auto simp: liveTeardownView_def listStatus_def Let_def bindS_def attempt_def ret_def
          wedge_fingerprint_def listed_peers_def list_ex_iff errWedged_def is_wedged_def)
  qed (use w in \<open>auto simp: liveTeardownView_def listStatus_def Let_def bindS_def attempt_def ret_def
          wedge_fingerprint_def listed_peers_def\<close>)
qed
lemma Down_view:
  assumes "x_lock env s name = None" and "\<And>s p. x_io env s p" and "map_of (dr_files s) (name @ ''.res'') \<noteq> None"
  shows "\<exists>cause a. (cause \<noteq> None \<longleftrightarrow> wedge_fingerprint env s name) \<and> (\<forall>e. cause = Some e \<longrightarrow> is_wedged e) \<and>
    Down env name s = (case cause of
      Some cause \<Rightarrow> bindS (markWedgeSighting name) (\<lambda>again.
        if again then fail (wrap (''down '' @ name @ '': '') cause)
        else fail (DrvError ErrBusy (''down '' @ name @ '': detach in flight after a killed down; deferring: backend resource busy'')))
    | None \<Rightarrow> thenS (clearWedgeSighting name) (thenS (downResource env name (listed_peers env s name))
        (thenS (removeStateFiles env name) (releaseMinor env name))))
      (s\<lparr>dr_log := dr_log s @ [([''drbdsetup'', ''status'', ''--json'', name], a)]\<rparr>)"
proof -
  obtain cause a where v: "liveTeardownView env name s = (Inr (listed_peers env s name, cause),
      s\<lparr>dr_log := dr_log s @ [([''drbdsetup'', ''status'', ''--json'', name], a)]\<rparr>)"
    and w: "cause \<noteq> None \<longleftrightarrow> wedge_fingerprint env s name" "\<forall>e. cause = Some e \<longrightarrow> is_wedged e"
    using liveTeardownView_eq [of env name s] by blast
  let ?t = "s\<lparr>dr_log := dr_log s @ [([''drbdsetup'', ''status'', ''--json'', name], a)]\<rparr>"
  have st: "attempt (statFile env (name @ ''.res'')) s = (Inr (Inr True), s)"
    using assms(2,3) by (simp add: attempt_def statFile_def bindS_def readFile_def ret_def)
  have lk: "wrapS (''down '' @ name @ '': '') (lockResource env name) s = (Inr (), s)"
    using assms(1) by (simp add: wrapS_def lockResource_def)
  have "Down env name s = (case cause of
      Some cause \<Rightarrow> bindS (markWedgeSighting name) (\<lambda>again.
        if again then fail (wrap (''down '' @ name @ '': '') cause)
        else fail (DrvError ErrBusy (''down '' @ name @ '': detach in flight after a killed down; deferring: backend resource busy'')))
    | None \<Rightarrow> thenS (clearWedgeSighting name) (thenS (downResource env name (listed_peers env s name))
        (thenS (removeStateFiles env name) (releaseMinor env name)))) ?t"
    unfolding Down_def thenS_Inr [of "wrapS _ _" s _ s, OF lk] bindS_Inr [of "attempt _" s _ s, OF st]
    by (simp add: bindS_Inr [of "liveTeardownView _ _" s _ ?t, OF v])
  with w show ?thesis by blast
qed

text \<open>
  C9. \<^verbatim>\<open>Down\<close> of a configured resource. Where the resource wears a wedge fingerprint, a down of ours
  stranded in the kernel or a device stuck detaching with nothing left to disconnect, no down is
  spawned and no file changes: the first sighting answers busy and is remembered, a repeated one
  answers wedged. Where it wears none and the call succeeds, the commands are, in this order, the
  status, a disconnect of every peer the kernel lists, and the down; the sighting is cleared, and the
  resource's minor is free again while every other volume keeps its own.
\<close>

theorem Down_spec:
  assumes "x_lock env s name = None" and "\<And>s p. x_io env s p"
    and "map_of (dr_files s) (name @ ''.res'') \<noteq> None" and "Down env name s = (r, s')"
  shows "(wedge_fingerprint env s name \<longrightarrow>
      (\<exists>e. r = Inl e \<and> (if name \<in> set (dr_wedgeSeen s) then is_wedged e else e_kind e = ErrBusy)) \<and>
      map fst (dr_log s') = map fst (dr_log s) @ [[''drbdsetup'', ''status'', ''--json'', name]] \<and>
      dr_files s' = dr_files s \<and> name \<in> set (dr_wedgeSeen s')) \<and>
    (\<not> wedge_fingerprint env s name \<and> r = Inr () \<longrightarrow>
      map fst (dr_log s') = map fst (dr_log s) @ [''drbdsetup'', ''status'', ''--json'', name] #
        map (disconnectPeer name) (listed_peers env s name) @ [downCmd name] \<and>
      minor_of (dr_files s') = (minor_of (dr_files s))(name := None) \<and> name \<notin> set (dr_wedgeSeen s'))"
proof -
  obtain cause a where w: "cause \<noteq> None \<longleftrightarrow> wedge_fingerprint env s name" "\<forall>e. cause = Some e \<longrightarrow> is_wedged e"
    and down: "Down env name s = (case cause of
      Some cause \<Rightarrow> bindS (markWedgeSighting name) (\<lambda>again.
        if again then fail (wrap (''down '' @ name @ '': '') cause)
        else fail (DrvError ErrBusy (''down '' @ name @ '': detach in flight after a killed down; deferring: backend resource busy'')))
    | None \<Rightarrow> thenS (clearWedgeSighting name) (thenS (downResource env name (listed_peers env s name))
        (thenS (removeStateFiles env name) (releaseMinor env name))))
      (s\<lparr>dr_log := dr_log s @ [([''drbdsetup'', ''status'', ''--json'', name], a)]\<rparr>)"
    using Down_view [OF assms(1-3)] by blast
  let ?t = "s\<lparr>dr_log := dr_log s @ [([''drbdsetup'', ''status'', ''--json'', name], a)]\<rparr>"
  show ?thesis
  proof (cases cause)
    case (Some e)
    then have "Down env name s = (if name \<in> set (dr_wedgeSeen s) then Inl (wrap (''down '' @ name @ '': '') e)
        else Inl (DrvError ErrBusy (''down '' @ name @ '': detach in flight after a killed down; deferring: backend resource busy'')),
        ?t\<lparr>dr_wedgeSeen := List.insert name (dr_wedgeSeen s)\<rparr>)"
      unfolding down by (simp add: bindS_def markWedgeSighting_def fail_def)
    then show ?thesis using assms(4) w Some by (auto simp: wrap_def is_wedged_def)
  next
    case None
    let ?c = "?t\<lparr>dr_wedgeSeen := removeAll name (dr_wedgeSeen s)\<rparr>"
    have clr: "clearWedgeSighting name ?t = (Inr (), ?c)" by (simp add: clearWedgeSighting_def)
    let ?tail = "thenS (removeStateFiles env name) (releaseMinor env name)"
    have d: "Down env name s = thenS (downResource env name (listed_peers env s name)) ?tail ?c"
      unfolding down using None by (simp add: thenS_Inr [of "clearWedgeSighting _" ?t "()" ?c, OF clr])
    show ?thesis
    proof (cases "r = Inr ()")
      case True
      then obtain u where u: "downResource env name (listed_peers env s name) ?c = (Inr (), u)" and t: "?tail u = (r, s')"
        using assms(4) d by (auto simp: thenS_def [of "downResource _ _ _"] bindS_def split: prod.splits sum.splits)
      have "s' = snd (?tail u)" using t by simp
      note rel = released_minors [OF assms(2) this]
      show ?thesis using downResource_log [OF u] rel w None by auto
    qed (use w None in simp)
  qed
qed
lemma calm_volume:
  "x_lock calm s n = None" "x_io calm s p" "dr_log one_volume = []" "map_of (dr_files one_volume) ''pvc-1.res'' \<noteq> None"
  by (simp_all add: calm_def one_volume_def)

theorem Down_spec_witness:
  "map fst (dr_log (snd (Down calm ''pvc-1'' one_volume))) =
     [[''drbdsetup'', ''status'', ''--json'', ''pvc-1''], downCmd ''pvc-1''] \<and>
   minor_of (dr_files one_volume) ''pvc-1'' = Some 1000 \<and>
   minor_of (dr_files (snd (Down calm ''pvc-1'' one_volume))) ''pvc-1'' = None"
proof -
  have "fst (Down calm ''pvc-1'' one_volume) = Inr ()" by code_simp
  then have "Down calm ''pvc-1'' one_volume = (Inr (), snd (Down calm ''pvc-1'' one_volume))" by (metis prod.collapse)
  moreover have "\<not> wedge_fingerprint calm one_volume ''pvc-1''" "listed_peers calm one_volume ''pvc-1'' = []"
    by (simp_all add: wedge_fingerprint_def listed_peers_def calm_def downStranded_def)
  moreover have "minor_of (dr_files one_volume) ''pvc-1'' = Some 1000" by code_simp
  ultimately show ?thesis
    using Down_spec [of calm one_volume "''pvc-1''" "Inr ()" "snd (Down calm ''pvc-1'' one_volume)"]
    by (simp add: calm_volume)
qed

section \<open>Split brain\<close>

text \<open>The resource as the agent of a peer's node renders it.\<close>

definition at_peer :: "Resource \<Rightarrow> Peer \<Rightarrow> Resource" where
  "at_peer r p = r\<lparr>res_localNode := p_node p, res_localDiskless := p_diskless p\<rparr>"

lemma ResolveSplitBrain_commands:
  assumes "fst (lockLiveResource env (res_name r) s) = Inr ()"
  shows "map fst (dr_log (snd (ResolveSplitBrain env r s))) = map fst (dr_log s) @
    [[''drbdadm'', ''disconnect'', res_name r],
     if res_localDiskless r \<or> IsWinner r then [''drbdadm'', ''connect'', res_name r]
     else [''drbdadm'', ''connect'', ''--discard-my-data'', res_name r]]"
proof -
  let ?lk = "wrapS (''resolve split-brain '' @ res_name r @ '': '') (lockLiveResource env (res_name r))"
  have "lockLiveResource env (res_name r) s = (Inr (), s)"
    using assms same.al_lockLive [of env "res_name r"] by (simp add: always_def prod_eq_iff)
  then have lk: "?lk s = (Inr (), s)" by (simp add: wrapS_def)
  show ?thesis unfolding ResolveSplitBrain_def thenS_Inr [of "wrapS _ _" s _ s, OF lk]
    by (auto simp: thenS_def bindS_def attempt_def wrapS_def adm_def execS_def ret_def split: sum.splits)
qed

text \<open>
  C14. Split-brain recovery leaves exactly one survivor. Where the agents of a volume's nodes, each with
  the same peer list, run \<^verbatim>\<open>ResolveSplitBrain\<close>, every one of them disconnects and reconnects, and all
  the diskful legs but one give up their data; the one that keeps it is the diskful leg with the lowest
  node id. The diskless ones discard nothing.
\<close>

theorem split_brain_one_survivor:
  assumes "\<forall>p\<in>set (res_peers r). 0 \<le> p_nodeID p"
    and "distinct (map p_node (res_peers r))"
    and "\<exists>p\<in>set (res_peers r). \<not> p_diskless p"
    and "\<forall>p\<in>set (res_peers r). fst (lockLiveResource (env p) (res_name r) (s p)) = Inr ()"
  shows "\<exists>w\<in>set (res_peers r). \<not> p_diskless w \<and>
    (\<forall>q\<in>set (res_peers r). \<not> p_diskless q \<longrightarrow> p_nodeID w \<le> p_nodeID q) \<and>
    (\<forall>p\<in>set (res_peers r). map fst (drop (length (dr_log (s p))) (dr_log (snd (ResolveSplitBrain (env p) (at_peer r p) (s p))))) =
       [[''drbdadm'', ''disconnect'', res_name r],
        if p_diskless p \<or> p = w then [''drbdadm'', ''connect'', res_name r]
        else [''drbdadm'', ''connect'', ''--discard-my-data'', res_name r]])"
proof -
  obtain w where w: "w \<in> set (res_peers r)" "\<not> p_diskless w"
      "foldl lowestStep (- 1, '''') (res_peers r) = (p_nodeID w, p_node w)"
    and least: "\<forall>q\<in>set (res_peers r). \<not> p_diskless q \<longrightarrow> p_nodeID w \<le> p_nodeID q"
    using lowestStep_fold [of "res_peers r" "(- 1, '''')"] assms(1,3) by (auto simp: Let_def)
  have win: "IsWinner (at_peer r p) \<longleftrightarrow> p = w" if "p \<in> set (res_peers r)" for p
    using that w(1,3) assms(2) by (auto simp: IsWinner_def at_peer_def distinct_map dest: inj_onD)
  have cmds: "map fst (drop (length (dr_log (s p))) (dr_log (snd (ResolveSplitBrain (env p) (at_peer r p) (s p))))) =
       [[''drbdadm'', ''disconnect'', res_name r],
        if p_diskless p \<or> p = w then [''drbdadm'', ''connect'', res_name r]
        else [''drbdadm'', ''connect'', ''--discard-my-data'', res_name r]]" if "p \<in> set (res_peers r)" for p
    using ResolveSplitBrain_commands [of "env p" "at_peer r p" "s p"] assms(4) that win [OF that]
    by (simp add: at_peer_def drop_map [symmetric])
  show ?thesis using w(1,2) least cmds by (intro bexI [of _ w]) auto
qed

definition pair_of_legs :: Resource where
  "pair_of_legs = small_resource\<lparr>res_peers :=
     [\<lparr>p_node = ''a'', p_nodeID = 0, p_address = ''1.1.1.1'', p_diskless = False, p_client = False\<rparr>,
      \<lparr>p_node = ''b'', p_nodeID = 1, p_address = ''1.1.1.2'', p_diskless = False, p_client = False\<rparr>]\<rparr>"

theorem split_brain_one_survivor_witness:
  "\<exists>w\<in>set (res_peers pair_of_legs). \<not> p_diskless w \<and> p_nodeID w \<le> 0 \<and>
    map fst (dr_log (snd (ResolveSplitBrain calm (at_peer pair_of_legs w) no_volume))) =
      [[''drbdadm'', ''disconnect'', ''v''], [''drbdadm'', ''connect'', ''v'']]"
proof -
  have "fst (lockLiveResource calm n no_volume) = Inr ()" for n
    by (simp add: lockLiveResource_def lockResource_def thenS_def bindS_def refuse_def ret_def calm_def
        downStranded_def disconnectStranded_def)
  moreover have "res_name pair_of_legs = ''v''" "dr_log no_volume = []"
    by (simp_all add: pair_of_legs_def small_resource_def no_volume_def)
  moreover have "res_peers pair_of_legs =
     [\<lparr>p_node = ''a'', p_nodeID = 0, p_address = ''1.1.1.1'', p_diskless = False, p_client = False\<rparr>,
      \<lparr>p_node = ''b'', p_nodeID = 1, p_address = ''1.1.1.2'', p_diskless = False, p_client = False\<rparr>]"
    by (simp add: pair_of_legs_def)
  ultimately show ?thesis
    using split_brain_one_survivor [of pair_of_legs "\<lambda>_. calm" "\<lambda>_. no_volume"] by auto
qed

end
