(* ===== verification/Mounts.thy ===== *)
theory Mounts
  imports Go_Strings
begin

text \<open>
  What the agent reads from \<^verbatim>\<open>/proc\<close> about mounts: rows of \<^verbatim>\<open>mountinfo\<close>, the filesystem freeze and
  thaw (\<^verbatim>\<open>internal/agent/fsfreeze.go\<close>), and the check for a device that only exited processes still
  hold (\<^verbatim>\<open>internal/agent/orphanhold.go\<close>). File contents, device numbers and \<^verbatim>\<open>ioctl\<close> answers are
  arguments.
\<close>

section \<open>Rows\<close>

abbreviation newline :: char where
  "newline \<equiv> CHR 0x0A"

text \<open>The rows of a table; \<^verbatim>\<open>strings.Lines\<close> yields no row after the last line end, and an empty row has
  no fields.\<close>

definition rows :: "string \<Rightarrow> string list list" where
  "rows data = map Go_Strings.fields (split_on newline data)"

fun mountFS_from :: "string list \<Rightarrow> string \<times> string" where
  "mountFS_from (d # t # s # rest) = (if d = ''-'' then (t, s) else mountFS_from (t # s # rest))"
| "mountFS_from _ = ('''', '''')"

definition mountFS :: "string list \<Rightarrow> string \<times> string" where
  "mountFS fs = mountFS_from (drop 6 fs)"

section \<open>Freezing\<close>

text \<open>A device number as major and minor; \<^const>\<open>None\<close> where the path is no block device. What the
  freeze \<^verbatim>\<open>ioctl\<close> answers: in time, or after the timeout, when a watcher waits for it.\<close>

datatype freeze_answer = InTime freeze_result | Late freeze_result
  and freeze_result = Frozen | AlreadyFrozen | FreezeFailed

datatype thaw_answer = Thawed | NotFrozen | ThawFailed

record freezer =
  fz_mountinfo :: "string option"
  fz_dev :: "string \<Rightarrow> (int \<times> int) option"
  fz_freeze :: freeze_answer
  fz_thaw :: thaw_answer

definition sourceDev :: "freezer \<Rightarrow> string list \<Rightarrow> (int \<times> int) option" where
  "sourceDev f fs = (let src = snd (mountFS fs) in if has_prefix src ''/dev/'' then fz_dev f src else None)"

definition devText :: "int \<times> int \<Rightarrow> string" where
  "devText d = itoa (fst d) @ '':'' @ itoa (snd d)"

definition rowMatches :: "freezer \<Rightarrow> int \<times> int \<Rightarrow> string list \<Rightarrow> bool" where
  "rowMatches f rdev fs \<longleftrightarrow> 5 \<le> length fs \<and>
     (fs ! 2 = devText rdev \<or> has_prefix (fs ! 2) ''0:'' \<and> sourceDev f fs = Some rdev)"

text \<open>\<^const>\<open>None\<close> is a failed read of the table; an empty mount point means not mounted.\<close>

definition mountpointOf :: "freezer \<Rightarrow> string \<Rightarrow> string option" where
  "mountpointOf f device =
     (case fz_dev f device of
        None \<Rightarrow> Some ''''
      | Some rdev \<Rightarrow>
          (case fz_mountinfo f of
             None \<Rightarrow> None
           | Some data \<Rightarrow> (case find (rowMatches f rdev) (rows data) of Some fs \<Rightarrow> Some (fs ! 4) | None \<Rightarrow> Some '''')))"

text \<open>The frozen filesystems are a set of mount points. A freeze that lands late is thawed by the
  watcher unless the filesystem was frozen already.\<close>

definition Freeze :: "freezer \<Rightarrow> string \<Rightarrow> string list \<Rightarrow> string option \<times> string list" where
  "Freeze f device frozen =
     (case mountpointOf f device of
        None \<Rightarrow> (None, frozen)
      | Some mp \<Rightarrow>
          if mp = '''' then (Some '''', frozen)
          else
            (case fz_freeze f of
               InTime Frozen \<Rightarrow> (Some mp, List.insert mp frozen)
             | InTime AlreadyFrozen \<Rightarrow> (Some mp, frozen)
             | InTime FreezeFailed \<Rightarrow> (None, frozen)
             | Late Frozen \<Rightarrow> (None, removeAll mp (List.insert mp frozen))
             | Late _ \<Rightarrow> (None, frozen)))"

definition Thaw :: "freezer \<Rightarrow> string \<Rightarrow> string list \<Rightarrow> string option \<times> string list" where
  "Thaw f device frozen =
     (case mountpointOf f device of
        None \<Rightarrow> (None, frozen)
      | Some mp \<Rightarrow>
          if mp = '''' then (Some '''', frozen)
          else
            (case fz_thaw f of
               Thawed \<Rightarrow> (Some mp, removeAll mp frozen)
             | NotFrozen \<Rightarrow> (Some mp, frozen)
             | ThawFailed \<Rightarrow> (None, frozen)))"

text \<open>Only a row of the mount point itself is looked at, and only one backed by a block device.\<close>

definition ThawMountpoint :: "freezer \<Rightarrow> string \<Rightarrow> string list \<Rightarrow> bool \<times> string list" where
  "ThawMountpoint f target frozen =
     (case fz_mountinfo f of
        None \<Rightarrow> (False, frozen)
      | Some data \<Rightarrow>
          (case find (\<lambda>fs. 5 \<le> length fs \<and> fs ! 4 = target) (rows data) of
             None \<Rightarrow> (True, frozen)
           | Some fs \<Rightarrow>
               if (case cut_at CHR '':'' (fs ! 2) of None \<Rightarrow> True | Some (maj, _) \<Rightarrow> maj = ''0'') \<and> fst (mountFS fs) \<noteq> ''btrfs''
               then (True, frozen)
               else
                 (case fz_thaw f of
                    Thawed \<Rightarrow> (True, removeAll target frozen)
                  | NotFrozen \<Rightarrow> (True, frozen)
                  | ThawFailed \<Rightarrow> (False, frozen))))"

section \<open>Orphaned holds\<close>

definition word_char :: "char \<Rightarrow> bool" where
  "word_char c \<longleftrightarrow> c = CHR ''_'' \<or> (let n = of_char c in 48 \<le> n \<and> n \<le> (57 :: int) \<or> 65 \<le> n \<and> n \<le> 90 \<or> 97 \<le> n \<and> n \<le> 122)"

text \<open>\<^verbatim>\<open>\bopened by .* \(pid (\d+)\)\<close> on one line: the text after the first \<^verbatim>\<open>opened by\<close> that starts a
  word; and, the star being greedy, the last parenthesised pid in it. A match ends with that pid, so a
  line yields one at most.\<close>

fun afterOpened :: "char \<Rightarrow> string \<Rightarrow> string option" where
  "afterOpened prev [] = None"
| "afterOpened prev (c # cs) =
     (if \<not> word_char prev \<and> has_prefix (c # cs) ''opened by '' then Some (drop 10 (c # cs)) else afterOpened c cs)"

definition pidAt :: "string \<Rightarrow> string option" where
  "pidAt s =
     (case cut_prefix s '' (pid '' of
        None \<Rightarrow> None
      | Some t \<Rightarrow>
          (let ds = takeWhile (\<lambda>c. digit_val c \<noteq> None) t
           in if ds \<noteq> [] \<and> has_prefix (drop (length ds) t) '')'' then Some ds else None))"

fun lastPid :: "string \<Rightarrow> string option" where
  "lastPid [] = None"
| "lastPid (c # cs) = (case lastPid cs of Some p \<Rightarrow> Some p | None \<Rightarrow> pidAt (c # cs))"

definition openerPids :: "string \<Rightarrow> int list" where
  "openerPids msg =
     List.map_filter (\<lambda>line.
       case afterOpened CHR '' '' line of
         None \<Rightarrow> None
       | Some rest \<Rightarrow> (case lastPid rest of None \<Rightarrow> None | Some ds \<Rightarrow> atoi ds)) (split_on newline msg)"

definition mountinfoListsDevice :: "string \<Rightarrow> int \<Rightarrow> bool" where
  "mountinfoListsDevice data minor =
     list_ex (\<lambda>fs. 5 \<le> length fs \<and>
       (fs ! 2 = ''147:'' @ itoa minor \<or> fs ! 3 = ''/drbd'' @ itoa minor \<or> snd (mountFS fs) = ''/dev/drbd'' @ itoa minor))
       (rows data)"

text \<open>An entry of \<^verbatim>\<open>/proc\<close>: its name, the link to its mount namespace and its table. A process gone
  mid-scan is skipped; any other failed read ends the scan.\<close>

datatype table = Table string | ProcessGone | TableUnreadable

type_synonym proc = "string \<times> string option \<times> table"

fun mountedScan :: "string list \<Rightarrow> proc list \<Rightarrow> int \<Rightarrow> bool option" where
  "mountedScan seen [] minor = Some False"
| "mountedScan seen ((name, ns, tab) # ps) minor =
     (if atoi name = None then mountedScan seen ps minor
      else if (case ns of Some n \<Rightarrow> n \<in> set seen | None \<Rightarrow> False) then mountedScan seen ps minor
      else
        (case tab of
           ProcessGone \<Rightarrow> mountedScan seen ps minor
         | TableUnreadable \<Rightarrow> None
         | Table data \<Rightarrow>
             if mountinfoListsDevice data minor then Some True
             else mountedScan (case ns of Some n \<Rightarrow> n # seen | None \<Rightarrow> seen) ps minor))"

definition deviceMountedAnywhere :: "proc list option \<Rightarrow> int \<Rightarrow> bool option" where
  "deviceMountedAnywhere procs minor = (case procs of None \<Rightarrow> None | Some ps \<Rightarrow> mountedScan [] ps minor)"

section \<open>What the checks say\<close>

lemma Freeze_failed: "Freeze f device frozen = (None, frozen') \<Longrightarrow> set frozen' \<subseteq> set frozen"
  by (auto simp: Freeze_def split: option.splits if_splits freeze_answer.splits freeze_result.splits)

text \<open>The namespaces whose table is skipped as seen were scanned and do not list the device, so a scan
  that ends with no finding has read every live table, if the tables of one namespace agree.\<close>

definition same_tables :: "proc list \<Rightarrow> bool" where
  "same_tables ps \<longleftrightarrow> (\<forall>n n' k d d'. (n, Some k, Table d) \<in> set ps \<longrightarrow> (n', Some k, Table d') \<in> set ps \<longrightarrow> d = d')"

definition unlisted :: "int \<Rightarrow> string list \<Rightarrow> proc list \<Rightarrow> bool" where
  "unlisted minor seen ps \<longleftrightarrow> (\<forall>n k d. (n, Some k, Table d) \<in> set ps \<and> k \<in> set seen \<longrightarrow> \<not> mountinfoListsDevice d minor)"

lemma mountedScan_False:
  assumes "mountedScan seen ps minor = Some False" and "unlisted minor seen ps" and "same_tables ps"
    and "(n, ns, Table d) \<in> set ps" and "atoi n \<noteq> None"
  shows "\<not> mountinfoListsDevice d minor"
  using assms
proof (induction ps arbitrary: seen)
  case (Cons p ps)
  obtain name ns0 tab where p: "p = (name, ns0, tab)" by (cases p)
  have tables: "same_tables ps" using Cons.prems(3) unfolding same_tables_def by (meson list.set_intros(2))
  have un: "unlisted minor seen ps" using Cons.prems(2) unfolding unlisted_def by (meson list.set_intros(2))
  let ?known = "case ns0 of Some k \<Rightarrow> k \<in> set seen | None \<Rightarrow> False"
  show ?case
  proof (cases "atoi name = None \<or> ?known \<or> tab = ProcessGone")
    case True
    then have s: "mountedScan seen ps minor = Some False" using Cons.prems(1) p by (auto split: if_splits)
    consider "(n, ns, Table d) \<in> set ps" | "(n, ns, Table d) = p" using Cons.prems(4) by auto
    then show ?thesis
    proof cases
      case 1
      then show ?thesis using Cons.IH [OF s un tables] Cons.prems(5) by blast
    next
      case 2
      then have "?known" "ns0 = ns" "tab = Table d" using True p Cons.prems(5) by auto
      then obtain k where "ns = Some k" "k \<in> set seen" by (auto split: option.splits)
      then show ?thesis using Cons.prems(2,4) unfolding unlisted_def by blast
    qed
  next
    case False
    then obtain data where t: "tab = Table data" "\<not> mountinfoListsDevice data minor"
      and s: "mountedScan (case ns0 of Some k \<Rightarrow> k # seen | None \<Rightarrow> seen) ps minor = Some False"
      using Cons.prems(1) p by (cases tab) (auto split: if_splits)
    have same: "d' = data" if "(n', Some k, Table d') \<in> set ps" "ns0 = Some k" for n' k d'
      using Cons.prems(3) that t(1) p unfolding same_tables_def by (meson list.set_intros)
    have "unlisted minor (case ns0 of Some k \<Rightarrow> k # seen | None \<Rightarrow> seen) ps"
      unfolding unlisted_def
    proof (intro allI impI)
      fix n k d assume m: "(n, Some k, Table d) \<in> set ps \<and> k \<in> set (case ns0 of Some k \<Rightarrow> k # seen | None \<Rightarrow> seen)"
      show "\<not> mountinfoListsDevice d minor"
      proof (cases "ns0 = Some k")
        case True
        then show ?thesis using same m t(2) by blast
      next
        case False
        then have "k \<in> set seen" using m by (cases ns0) auto
        then show ?thesis using un m unfolding unlisted_def by blast
      qed
    qed
    then show ?thesis using Cons.IH [OF s _ tables] Cons.prems(4,5) t p by auto
  qed
qed simp

end
