(* ===== verification/Agent_Volume.thy ===== *)
theory Agent_Volume
  imports Agent_Common Drbd_Driver Mounts
begin

text \<open>
  The agent's volume reconciler (\<^verbatim>\<open>internal/agent/reconciler.go\<close>, with \<^verbatim>\<open>internal/agent/pools.go\<close>): a
  pass realizes, grows, recovers or tears down this node's leg of one volume. Its state is the
  volume object it read and updates locally, the DRBD driver's state, the reconciler's memory
  between passes (the fingerprint of the last full pass, the recovery stamps, the busy streak) and
  the actions taken so far, in order. The driver's operations are those of \<open>Drbd_Driver\<close>; what the
  API server and the storage backends answer is a parameter and may depend on all that happened
  before. A pass reads the clock once. Metrics and log lines are left out.
\<close>

section \<open>Passes\<close>

record realizedState =
  rz_generation :: int
  rz_status :: Status
  rz_replicated :: bool
  rz_fullPassAt :: gotime

datatype backend_op = BCreate int | BResize int | BDelete | BCreateFromSnapshot string string

datatype drbd_op = OpApply Resource | OpStatus | OpInitialUUID | OpForceFullSyncSource | OpDemote
  | OpResolveSplitBrain Resource | OpCycle int | OpCycleStalled int | OpDown | OpWipeMetadata | OpForceDetach
  | OpRemoveConfig | OpWipeForeign | OpInvalidateWipe | OpAllocateMinor | OpDiscard | OpResize

text \<open>An action with a flag carries whether it succeeded.\<close>

datatype vol_act = ActSlot ReplicaStatus | ActActivated | ActDropSlot | ActFinalizers "string list" | ActEvent string
  | ActBackend string backend_op bool | ActDrbd drbd_op bool

record vr =
  vr_vol :: MiroirVolume
  vr_drv :: drv
  vr_realized :: "realizedState gomap"
  vr_lastRecovery :: "gotime gomap"
  vr_stuckSince :: "(gotime \<times> int list) gomap"
  vr_busyFails :: "int gomap"
  vr_acts :: "vol_act list"

record vol_env =
  ve_node :: string
  ve_now :: gotime
  ve_get :: "api_error + MiroirVolume"
  ve_generation :: int
  ve_driver :: DriverEnv
  ve_pools :: "BackendType gomap"
  ve_backend :: "vr \<Rightarrow> string \<Rightarrow> backend_op \<Rightarrow> drv_error + string"
  ve_exists :: "vr \<Rightarrow> string \<Rightarrow> drv_error + bool"
  ve_backingPath :: "string \<Rightarrow> string"
  ve_getSnap :: "vr \<Rightarrow> string \<Rightarrow> api_error + MiroirSnapshot"
  ve_listSnaps :: "vr \<Rightarrow> api_error + MiroirSnapshot list"
  ve_write :: "vr \<Rightarrow> vol_act \<Rightarrow> api_error option"
  ve_patch :: "vr \<Rightarrow> vol_act \<Rightarrow> api_error + MiroirVolume"
  ve_pidAlive :: "int \<Rightarrow> bool"
  ve_procs :: "proc list option"

type_synonym 'a pass = "(vr, 'a) eff"

definition apiErr :: "api_error \<Rightarrow> drv_error" where
  "apiErr e = DrvError ErrPlain
     (case e of NotFound \<Rightarrow> ''not found'' | Conflict \<Rightarrow> ''conflict'' | AlreadyExists \<Rightarrow> ''already exists''
      | Invalid \<Rightarrow> ''invalid'' | OtherError \<Rightarrow> ''request failed'')"

definition act :: "vol_act \<Rightarrow> vr \<Rightarrow> vr" where
  "act a s = s\<lparr>vr_acts := vr_acts s @ [a]\<rparr>"

definition own :: "vol_env \<Rightarrow> vr \<Rightarrow> ReplicaStatus" where
  "own env s = status_of (vr_vol s) (ve_node env)"

text \<open>An operation of the driver on the driver's part of the state.\<close>

definition onDrbd :: "drbd_op \<Rightarrow> 'a step \<Rightarrow> 'a pass" where
  "onDrbd op m = (\<lambda>s. case m (vr_drv s) of (r, d) \<Rightarrow> (r, act (ActDrbd op (\<not> isl r)) (s\<lparr>vr_drv := d\<rparr>)))"

definition onBackend :: "vol_env \<Rightarrow> string \<Rightarrow> backend_op \<Rightarrow> string pass" where
  "onBackend env pool op = (\<lambda>s. let r = ve_backend env s pool op in (r, act (ActBackend pool op (\<not> isl r)) s))"

definition backendExists :: "vol_env \<Rightarrow> string \<Rightarrow> bool pass" where
  "backendExists env pool = (\<lambda>s. (ve_exists env s pool, s))"

definition event :: "string \<Rightarrow> unit pass" where
  "event reason = (\<lambda>s. (Inr (), act (ActEvent reason) s))"

text \<open>A write to the API server; the local copy is changed before it, whatever it answers.\<close>

definition writeApi :: "vol_env \<Rightarrow> vol_act \<Rightarrow> unit pass" where
  "writeApi env a = (\<lambda>s. (case ve_write env s a of None \<Rightarrow> Inr () | Some e \<Rightarrow> Inl (apiErr e), act a s))"

text \<open>A merge patch: the server answers with the object as it stands after it, which replaces the local
  copy.\<close>

definition mergePatch :: "vol_env \<Rightarrow> vol_act \<Rightarrow> (api_error \<Rightarrow> bool) \<Rightarrow> unit pass" where
  "mergePatch env a ignored =
     (\<lambda>s. case ve_patch env s a of
        Inr v \<Rightarrow> (Inr (), act a (s\<lparr>vr_vol := v\<rparr>))
      | Inl e \<Rightarrow> (if ignored e then Inr () else Inl (apiErr e), act a s))"

definition setSlot :: "vol_env \<Rightarrow> ReplicaStatus \<Rightarrow> MiroirVolume \<Rightarrow> MiroirVolume" where
  "setSlot env mine v =
     (let v = v\<lparr>status := (status v)\<lparr>perNode := AList.update (ve_node env) mine (perNode (status v))\<rparr>\<rparr>;
          (ph, ready) = computePhaseAt v (ve_now env)
      in v\<lparr>status := (status v)\<lparr>phase := ph, readyReplicas := ready\<rparr>\<rparr>)"

text \<open>The fields of the slot this agent applies: the verify record and the writeback error are other
  field managers'. A field left out of the apply reads as its zero value.\<close>

definition replicaStatusAC :: "ReplicaStatus \<Rightarrow> ReplicaStatus" where
  "replicaStatusAC st = st\<lparr>st_lastVerifyTime := None, st_lastVerifyOutOfSyncBytes := None, st_verifyStartedAt := None,
     st_writebackError := None\<rparr>"

definition patchStatus :: "vol_env \<Rightarrow> ReplicaStatus \<Rightarrow> unit pass" where
  "patchStatus env mine =
     (\<lambda>s. writeApi env (ActSlot (replicaStatusAC mine)) (s\<lparr>vr_vol := setSlot env mine (vr_vol s)\<rparr>))"

section \<open>Pools\<close>

definition poolGet :: "vol_env \<Rightarrow> string \<Rightarrow> BackendType pass" where
  "poolGet env name =
     (let resolved = PoolOrDefault name
      in case map_of (ve_pools env) resolved of
           Some t \<Rightarrow> ret t
         | None \<Rightarrow> fail (DrvError ErrPlain (''storage pool '' @ quote resolved @ '' is not configured on this node'')))"

fun sweepPools :: "vol_env \<Rightarrow> string list \<Rightarrow> drv_error option \<Rightarrow> unit pass" where
  "sweepPools env [] firstErr = (case firstErr of None \<Rightarrow> ret () | Some e \<Rightarrow> fail e)"
| "sweepPools env (p # ps) firstErr =
     bindS (attempt (onBackend env p BDelete)) (\<lambda>r.
       sweepPools env ps (case r of Inl e \<Rightarrow> (if firstErr = None then Some e else firstErr) | Inr _ \<Rightarrow> firstErr))"

definition SweepDelete :: "vol_env \<Rightarrow> unit pass" where
  "SweepDelete env = sweepPools env (sort (remdups (map fst (ve_pools env)))) None"

section \<open>Memory\<close>

definition storeRealized :: "vol_env \<Rightarrow> Status \<Rightarrow> bool \<Rightarrow> unit pass" where
  "storeRealized env st replicated = (\<lambda>s. (Inr (), s\<lparr>vr_realized := AList.update (vname (vr_vol s))
     \<lparr>rz_generation = ve_generation env, rz_status = st, rz_replicated = replicated, rz_fullPassAt = ve_now env\<rparr>
     (vr_realized s)\<rparr>))"

definition dropRealized :: "string \<Rightarrow> vr \<Rightarrow> vr" where
  "dropRealized name s = s\<lparr>vr_realized := AList.delete name (vr_realized s)\<rparr>"

definition dropRecovery :: "string \<Rightarrow> vr \<Rightarrow> vr" where
  "dropRecovery name s = s\<lparr>vr_lastRecovery := AList.delete name (vr_lastRecovery s),
     vr_stuckSince := AList.delete name (vr_stuckSince s)\<rparr>"

definition clearBusyFails :: "string \<Rightarrow> vr \<Rightarrow> vr" where
  "clearBusyFails name s = s\<lparr>vr_busyFails := AList.delete name (vr_busyFails s)\<rparr>"

definition busyFailCount :: "string \<Rightarrow> vr \<Rightarrow> int" where
  "busyFailCount name s = (case map_of (vr_busyFails s) name of Some n \<Rightarrow> n | None \<Rightarrow> 0)"

definition mem :: "(vr \<Rightarrow> vr) \<Rightarrow> unit pass" where
  "mem f = (\<lambda>s. (Inr (), f s))"

definition forget :: "string \<Rightarrow> vr \<Rightarrow> vr" where
  "forget name s = clearBusyFails name (dropRecovery name (dropRealized name s))"

definition volumeGone :: "string \<Rightarrow> api_error \<Rightarrow> duration pass" where
  "volumeGone name e = (if e \<noteq> NotFound then fail (apiErr e) else thenS (mem (forget name)) (ret 0))"

definition storeIfSettled :: "vol_env \<Rightarrow> Status \<Rightarrow> duration \<Rightarrow> int \<Rightarrow> bool \<Rightarrow> unit pass" where
  "storeIfSettled env st requeue reportSize recovering =
     (\<lambda>s. if requeue = drbdPollInterval \<and> reportSize = sizeBytes (spec (vr_vol s)) \<and> \<not> recovering
        then storeRealized env st True s else (Inr (), s))"

section \<open>Errors\<close>

definition reportError :: "vol_env \<Rightarrow> drv_error \<Rightarrow> 'a pass" where
  "reportError env cause = (\<lambda>s. thenS (patchStatus env ((own env s)\<lparr>st_message := e_text cause\<rparr>)) (fail cause) s)"

definition orReport :: "vol_env \<Rightarrow> 'a pass \<Rightarrow> 'a pass" where
  "orReport env m = bindS (attempt m) (\<lambda>r. case r of Inl e \<Rightarrow> reportError env e | Inr x \<Rightarrow> ret x)"

definition parkWithMessage :: "vol_env \<Rightarrow> drv_error \<Rightarrow> duration \<Rightarrow> duration pass" where
  "parkWithMessage env cause requeue =
     (\<lambda>s. thenS (patchStatus env ((own env s)\<lparr>st_message := e_text cause, st_lastProbedAt := Some (ve_now env)\<rparr>))
        (ret requeue) s)"

definition wedgedRequeue :: duration where
  "wedgedRequeue = 300 * 10 ^ 9"

definition reportWedged :: "vol_env \<Rightarrow> drv_error \<Rightarrow> duration pass" where
  "reportWedged env cause =
     (\<lambda>s. if st_message (own env s) = e_text cause then (Inr wedgedRequeue, s)
        else thenS (event ''TeardownWedged'') (parkWithMessage env cause wedgedRequeue) s)"

definition busyFailLimit :: int where
  "busyFailLimit = 30"

definition busyRetryAfter :: duration where
  "busyRetryAfter = 60 * 10 ^ 9"

definition reportBusy :: "vol_env \<Rightarrow> drv_error \<Rightarrow> duration pass" where
  "reportBusy env cause =
     (\<lambda>s. let name = vname (vr_vol s); fails = busyFailCount name s + 1;
            s1 = s\<lparr>vr_busyFails := AList.update name fails (vr_busyFails s)\<rparr>
        in if fails < busyFailLimit then (Inr (10 * 10 ^ 9), s1)
           else
             thenS
               (if busyFailLimit < fails then ret ()
                else
                  thenS (event ''TeardownBusy'')
                    (if contains (e_text cause) ''held open'' \<and> \<not> contains (st_message (own env s1)) ''live consumer''
                     then event ''TeardownLiveConsumer'' else ret ()))
               (if st_message (own env s1) = e_text cause then ret busyRetryAfter
                else parkWithMessage env cause busyRetryAfter) s1)"

definition handleTeardownError :: "vol_env \<Rightarrow> drv_error \<Rightarrow> duration pass" where
  "handleTeardownError env err =
     (\<lambda>s. let name = vname (vr_vol s)
        in if is_wedged err \<or> e_kind err = ErrNodeWedged
           then thenS (mem (clearBusyFails name)) (reportWedged env err) s
           else if e_kind err = ErrBusy then reportBusy env err s
           else thenS (mem (clearBusyFails name)) (fail err) s)"

section \<open>Teardown\<close>

definition Busy :: "drv_error \<Rightarrow> drv_error" where
  "Busy e =
     (if list_ex (contains (e_text e)) [''held open'', ''busy'', ''in use'', ''has children'', ''dependent clones'']
      then DrvError ErrBusy (''backend resource busy: '' @ e_text e) else e)"

definition orphanHold :: "vol_env \<Rightarrow> vr \<Rightarrow> ReplicaStatus \<Rightarrow> drv_error \<Rightarrow> bool" where
  "orphanHold env s slot cause \<longleftrightarrow>
     deletionTimestamp (vr_vol s) \<noteq> None \<and> 0 < st_drbdMinor slot \<and>
     busyFailLimit \<le> busyFailCount (vname (vr_vol s)) s \<and> contains (e_text cause) ''held open'' \<and>
     (let pids = openerPids (e_text cause) in pids \<noteq> [] \<and> list_all (\<lambda>p. \<not> ve_pidAlive env p) pids) \<and>
     deviceMountedAnywhere (ve_procs env) (st_drbdMinor slot) = Some False"

definition reclaimOrphanHold :: "vol_env \<Rightarrow> ReplicaStatus \<Rightarrow> drv_error \<Rightarrow> unit pass" where
  "reclaimOrphanHold env slot cause =
     (\<lambda>s. let name = vname (vr_vol s)
        in bindS (attempt (onDrbd OpForceDetach (ForceDetach (ve_driver env) name (st_drbdMinor slot)))) (\<lambda>d.
             case d of
               Inl _ \<Rightarrow> fail cause
             | Inr _ \<Rightarrow>
                 thenS (SweepDelete env)
                 (thenS (onDrbd OpRemoveConfig (RemoveConfig (ve_driver env) name)) (event ''TeardownReclaimed''))) s)"

text \<open>The wipe is best-effort: a pool that is gone or a failed wipe does not stop the teardown.\<close>

definition teardownWipe :: "vol_env \<Rightarrow> ReplicaStatus \<Rightarrow> unit pass" where
  "teardownWipe env slot =
     (\<lambda>s. if st_deviceCreated slot \<and> \<not> st_diskless slot \<and> has_key (ve_pools env) (volumePoolOn (vr_vol s) (ve_node env))
        then thenS (attempt (onDrbd OpWipeMetadata (WipeMetadata (ve_driver env) (vname (vr_vol s))
               (ve_backingPath env (volumePoolOn (vr_vol s) (ve_node env))) (st_drbdMinor slot)))) (ret ()) s
        else (Inr (), s))"

definition teardown :: "vol_env \<Rightarrow> unit pass" where
  "teardown env =
     (\<lambda>s. let slot = own env s; name = vname (vr_vol s)
        in if drbd (spec (vr_vol s)) = None then SweepDelete env s
           else
             bindS (attempt (onDrbd OpDown (Down (ve_driver env) name))) (\<lambda>d.
               case d of
                 Inr _ \<Rightarrow> thenS (teardownWipe env slot) (SweepDelete env)
               | Inl e \<Rightarrow>
                   if is_wedged e then fail e
                   else (\<lambda>t. if orphanHold env t slot (Busy e) then reclaimOrphanHold env slot (Busy e) t
                          else (Inl (Busy e), t))) s)"

definition releaseFinalizer :: "vol_env \<Rightarrow> unit pass" where
  "releaseFinalizer env =
     (\<lambda>s. case removeNodeFinalizer (finalizers (vr_vol s)) (ve_node env) of
        None \<Rightarrow> (Inr (), s)
      | Some fs \<Rightarrow>
          let a = ActFinalizers fs; s' = act a (s\<lparr>vr_vol := (vr_vol s)\<lparr>finalizers := fs\<rparr>\<rparr>)
          in (case ve_write env s a of
                None \<Rightarrow> Inr ()
              | Some e \<Rightarrow> if e = Conflict \<or> e = NotFound then Inr () else Inl (apiErr e), s'))"

definition reconcileDeletion :: "vol_env \<Rightarrow> bool \<Rightarrow> duration pass" where
  "reconcileDeletion env mine =
     (\<lambda>s. if \<not> mine \<and> FinalizerPrefix @ ve_node env \<notin> set (finalizers (vr_vol s)) then (Inr 0, s)
        else
          bindS (attempt (teardown env)) (\<lambda>t.
            case t of
              Inl e \<Rightarrow> handleTeardownError env e
            | Inr _ \<Rightarrow> thenS (mem (forget (vname (vr_vol s)))) (thenS (releaseFinalizer env) (ret 0))) s)"

definition removalBlocked :: "vol_env \<Rightarrow> vr \<Rightarrow> string" where
  "removalBlocked env s =
     (let v = vr_vol s;
          legs = (case find (\<lambda>rep. \<not> r_diskless rep \<and>
                     (case map_of (perNode (status v)) (r_node rep) of
                        None \<Rightarrow> True
                      | Some st \<Rightarrow> st_diskState st \<noteq> DiskUpToDate \<or> \<not> st_connected st)) (replicas (spec v)) of
                    Some rep \<Rightarrow> ''replica on '' @ r_node rep @ '' is not UpToDate and connected''
                  | None \<Rightarrow> '''')
      in if drbd (spec v) = None then ''volume has no replication layer; refusing to drop the only copy''
         else if st_diskless (own env s) then legs
         else
           (case ve_listSnaps env s of
              Inl e \<Rightarrow> ''cannot list snapshots: '' @ e_text (apiErr e)
            | Inr snaps \<Rightarrow>
                (case find (\<lambda>sn. sn_volumeName sn = vname v) snaps of
                   Some sn \<Rightarrow> ''snapshot '' @ sn_name sn @ '' exists; delete the volume's snapshots first''
                 | None \<Rightarrow> legs)))"

definition dropSlot :: "vol_env \<Rightarrow> unit pass" where
  "dropSlot env = mergePatch env ActDropSlot (\<lambda>e. e = NotFound)"

definition reconcileRemoval :: "vol_env \<Rightarrow> duration pass" where
  "reconcileRemoval env =
     (\<lambda>s. let name = vname (vr_vol s)
        in if FinalizerPrefix @ ve_node env \<notin> set (finalizers (vr_vol s)) then (Inr 0, s)
           else if removalBlocked env s \<noteq> '''' then
             thenS (mem (clearBusyFails name))
             (thenS (patchStatus env ((own env s)\<lparr>st_message := ''replica removal blocked: '' @ removalBlocked env s,
                st_lastProbedAt := Some (ve_now env)\<rparr>)) (ret (30 * 10 ^ 9))) s
           else
             bindS (attempt (teardown env)) (\<lambda>t.
               case t of
                 Inl e \<Rightarrow> handleTeardownError env e
               | Inr _ \<Rightarrow> thenS (mem (forget name)) (thenS (dropSlot env) (thenS (releaseFinalizer env) (ret 0)))) s)"

section \<open>The local leg\<close>

definition legState :: "MiroirVolume \<Rightarrow> string \<Rightarrow> Replica option \<times> bool \<times> bool \<times> bool" where
  "legState v node =
     (let mine = find (\<lambda>rep. r_node rep = node) (replicas (spec v)); client = ClientForNode (spec v) node
      in (mine,
          (case mine of Some rep \<Rightarrow> r_diskless rep | None \<Rightarrow> False) \<or> client \<noteq> None,
          mine \<noteq> None \<or> client \<noteq> None,
          (case mine of Some rep \<Rightarrow> r_address rep = '''' | None \<Rightarrow> False) \<or>
          (case client of Some c \<Rightarrow> c_address c = '''' | None \<Rightarrow> False)))"

definition sameMap :: "'v idmap \<Rightarrow> 'v idmap \<Rightarrow> bool" where
  "sameMap a b = list_all (\<lambda>k. map_of a k = map_of b k) (map fst a @ map fst b)"

definition statusEqual :: "Status \<Rightarrow> Status \<Rightarrow> bool" where
  "statusEqual a b \<longleftrightarrow> s_diskState a = s_diskState b \<and> s_primary a = s_primary b \<and> s_peerPrimary a = s_peerPrimary b \<and>
     s_suspended a = s_suspended b \<and> s_splitBrain a = s_splitBrain b \<and> s_resyncing a = s_resyncing b \<and>
     s_resyncPercent a = s_resyncPercent b \<and> s_quorum a = s_quorum b \<and> s_outOfSyncKiB a = s_outOfSyncKiB b \<and>
     sameMap (s_stuckResyncPeers a) (s_stuckResyncPeers b) \<and> sameMap (s_staleBitmapPeers a) (s_staleBitmapPeers b) \<and>
     sameMap (s_unsettledResyncPeers a) (s_unsettledResyncPeers b) \<and>
     sameMap (s_peerConnected a) (s_peerConnected b) \<and> sameMap (s_peerDiskState a) (s_peerDiskState b)"

definition peerReportedSplitBrain :: "MiroirVolume \<Rightarrow> string \<Rightarrow> bool" where
  "peerReportedSplitBrain v self = list_ex (\<lambda>(node, _). node \<noteq> self \<and> st_splitBrain (status_of v node)) (perNode (status v))"

definition driverStatus :: "vol_env \<Rightarrow> Status pass" where
  "driverStatus env = (\<lambda>s. onDrbd OpStatus (StatusStep (ve_driver env) (vname (vr_vol s))) s)"

text \<open>\<^const>\<open>None\<close> sends the pass into the full pipeline.\<close>

definition fastPath :: "vol_env \<Rightarrow> bool \<Rightarrow> duration option pass" where
  "fastPath env localDiskless =
     (\<lambda>s. let v = vr_vol s
        in case map_of (vr_realized s) (vname v) of
             None \<Rightarrow> (Inr None, s)
           | Some entry \<Rightarrow>
               if rz_generation entry \<noteq> ve_generation env \<or> deepCheckInterval \<le> ve_now env - rz_fullPassAt entry \<or>
                  (\<not> localDiskless \<and> st_sizeBytes (own env s) \<noteq> sizeBytes (spec v)) then (Inr None, s)
               else if computePhaseAt v (ve_now env) \<noteq> (phase (status v), readyReplicas (status v)) then (Inr None, s)
               else if \<not> rz_replicated entry then (Inr (Some deepCheckInterval), s)
               else
                 bindS (attempt (driverStatus env)) (\<lambda>r.
                   case r of
                     Inl _ \<Rightarrow> ret None
                   | Inr st \<Rightarrow>
                       if \<not> statusEqual st (rz_status entry) then ret None
                       else if \<not> diskfulPeersConnected st v (ve_node env) \<and> peerReportedSplitBrain v (ve_node env) then ret None
                       else if s_primary st \<and> \<not> activated (status v) then ret None
                       else ret (Some drbdPollInterval)) s)"

section \<open>The backing device\<close>

definition backingBytes :: "MiroirVolume \<Rightarrow> int" where
  "backingBytes v =
     (if drbd (spec v) \<noteq> None \<and> (case source (spec v) of Some src \<Rightarrow> src_padForMetadata src | None \<Rightarrow> False)
      then int64 (sizeBytes (spec v) + InternalMetaOverhead (sizeBytes (spec v))) else sizeBytes (spec v))"

definition clearStaleBacking :: "vol_env \<Rightarrow> string \<Rightarrow> unit pass" where
  "clearStaleBacking env pool =
     (\<lambda>s. if \<not> st_deviceCreated (own env s) then (Inr (), s)
        else
          bindS (backendExists env pool) (\<lambda>exists.
            if exists then ret ()
            else patchStatus env (zero_status\<lparr>st_pool := pool, st_lastProbedAt := Some (ve_now env)\<rparr>)) s)"

definition peerCloneRealized :: "MiroirVolume \<Rightarrow> string \<Rightarrow> bool" where
  "peerCloneRealized v self =
     list_ex (\<lambda>rep. r_node rep \<noteq> self \<and> \<not> r_fullSync rep \<and> st_deviceCreated (status_of v (r_node rep))) (DiskfulReplicas (spec v))"

definition finishClone :: "vol_env \<Rightarrow> string \<Rightarrow> string pass" where
  "finishClone env pool =
     (\<lambda>s. let v = vr_vol s
        in bindS (onBackend env pool (BCreate (sizeBytes (spec v)))) (\<lambda>dev.
             if drbd (spec v) = None then
               thenS (onDrbd OpWipeForeign (WipeForeignMetadata (ve_driver env) (vname v) dev)) (ret dev)
             else if (case source (spec v) of Some src \<Rightarrow> src_padForMetadata src | None \<Rightarrow> False) then
               thenS (onBackend env pool (BResize (backingBytes v))) (ret dev)
             else ret dev) s)"

definition realizeBacking :: "vol_env \<Rightarrow> string \<Rightarrow> bool \<Rightarrow> string pass" where
  "realizeBacking env pool fullSync =
     (\<lambda>s. let v = vr_vol s
        in case source (spec v) of
             None \<Rightarrow> onBackend env pool (BCreate (backingBytes v)) s
           | Some src \<Rightarrow>
               if fullSync then onBackend env pool (BCreate (backingBytes v)) s
               else
                 bindS (backendExists env pool) (\<lambda>exists.
                   if exists then finishClone env pool
                   else (\<lambda>t.
                     case ve_getSnap env t (src_snapshotName src) of
                       Inl e \<Rightarrow>
                         if e = NotFound then
                           (if drbd (spec v) \<noteq> None \<and> peerCloneRealized v (ve_node env)
                            then onBackend env pool (BCreate (backingBytes v)) t
                            else (Inl (DrvError ErrRestoreSourceGone
                                   (''snapshot '' @ quote (src_snapshotName src) @ '': restore source snapshot no longer exists'')), t))
                         else (Inl (apiErr e), t)
                     | Inr snap \<Rightarrow>
                         thenS (if drbd (spec v) = None
                                then onDrbd OpInvalidateWipe (InvalidateForeignMetadataWipe (ve_driver env) (vname v))
                                else ret ())
                         (thenS (onBackend env pool (BCreateFromSnapshot (sn_volumeName snap) (sn_name snap)))
                           (finishClone env pool)) t)) s)"

definition restoreOrphanRequeue :: duration where
  "restoreOrphanRequeue = 300 * 10 ^ 9"

definition reportRealizeError :: "vol_env \<Rightarrow> drv_error \<Rightarrow> duration pass" where
  "reportRealizeError env cause =
     (if e_kind cause = ErrRestoreSourceGone
      then thenS (event ''RestoreSourceMissing'') (parkWithMessage env cause restoreOrphanRequeue)
      else reportError env cause)"

definition stampDeviceCreated :: "vol_env \<Rightarrow> string \<Rightarrow> string \<Rightarrow> unit pass" where
  "stampDeviceCreated env dev pool =
     (\<lambda>s. if st_deviceCreated (own env s) then (Inr (), s)
        else patchStatus env (zero_status\<lparr>st_deviceCreated := True, st_devicePath := dev, st_pool := pool,
               st_lastProbedAt := Some (ve_now env)\<rparr>) s)"

section \<open>The replicated leg\<close>

definition drbdResource :: "MiroirVolume \<Rightarrow> DRBDSpec \<Rightarrow> string \<Rightarrow> string \<Rightarrow> int \<Rightarrow> bool \<Rightarrow> int \<Rightarrow> Resource" where
  "drbdResource v d localNode localDisk minor localDiskless discard =
     \<lparr>res_name = vname v, res_minor = minor, res_port = d_port d, res_quorum = quorumPolicy (spec v),
      res_localNode = localNode, res_localDisk = localDisk, res_localDiskless = localDiskless, res_secret = d_sharedSecret d,
      res_skipDiskAttach = (\<not> localDiskless \<and> st_diskFailed (status_of v localNode)),
      res_discardGranularity = discard,
      res_clientDiscardGranularity =
        (if ClientForNode (spec v) localNode \<noteq> None
         then foldl (\<lambda>m rep. max m (st_discardGranularityBytes (status_of v (r_node rep)))) 0 (DiskfulReplicas (spec v)) else 0),
      res_bitmapGranularity = d_bitmapGranularityBytes d,
      res_peers =
        map (\<lambda>rep. \<lparr>p_node = r_node rep, p_nodeID = r_nodeID rep, p_address = r_address rep,
               p_diskless = r_diskless rep, p_client = False\<rparr>) (filter (\<lambda>rep. r_address rep \<noteq> '''') (replicas (spec v))) @
        map (\<lambda>c. \<lparr>p_node = c_node c, p_nodeID = c_nodeID c, p_address = c_address c, p_diskless = True, p_client = True\<rparr>)
          (filter (\<lambda>c. c_address c \<noteq> '''') (clients (spec v)))\<rparr>"

definition assignMinor :: "vol_env \<Rightarrow> int pass" where
  "assignMinor env =
     (\<lambda>s. if 0 < st_drbdMinor (own env s) then (Inr (st_drbdMinor (own env s)), s)
        else onDrbd OpAllocateMinor (AllocateMinor (ve_driver env) (vname (vr_vol s))) s)"

definition birthInitPending :: "MiroirVolume \<Rightarrow> Status \<Rightarrow> string \<Rightarrow> bool \<Rightarrow> bool" where
  "birthInitPending v st self localDiskless \<longleftrightarrow>
     drbd (spec v) \<noteq> None \<and> source (spec v) = None \<and> \<not> localDiskless \<and>
     \<not> activated (status v) \<and> \<not> formatted (status v) \<and> s_diskState st = DiskInconsistent \<and>
     list_all (\<lambda>rep. \<not> r_fullSync rep \<and>
       (peer_leg self rep \<longrightarrow> peer_connected st (r_nodeID rep) \<and> peer_disk st (r_nodeID rep) = DiskInconsistent)) (replicas (spec v))"

definition mintBirthUUID :: "vol_env \<Rightarrow> Resource \<Rightarrow> Status \<Rightarrow> bool \<Rightarrow> Status pass" where
  "mintBirthUUID env r st localDiskless =
     (\<lambda>s. if \<not> birthInitPending (vr_vol s) st (ve_node env) localDiskless \<or> \<not> IsWinner r then (Inr st, s)
        else thenS (onDrbd OpInitialUUID (InitialUUID (ve_driver env) (vname (vr_vol s)))) (driverStatus env) s)"

text \<open>The seed of a restore across the replication boundary: the first diskful leg, a clone.\<close>

definition restoreSeed :: "MiroirVolume \<Rightarrow> string \<Rightarrow> bool \<Rightarrow> bool" where
  "restoreSeed v self localDiskless \<longleftrightarrow> \<not> localDiskless \<and> drbd (spec v) \<noteq> None \<and>
     (case source (spec v) of Some src \<Rightarrow> src_padForMetadata src | None \<Rightarrow> False) \<and>
     (case FirstDiskfulReplica (spec v) of Some seed \<Rightarrow> r_node seed = self \<and> \<not> r_fullSync seed | None \<Rightarrow> False)"

definition restoreSeedStuckPrimary :: "MiroirVolume \<Rightarrow> Status \<Rightarrow> string \<Rightarrow> bool \<Rightarrow> bool" where
  "restoreSeedStuckPrimary v st self localDiskless \<longleftrightarrow> restoreSeed v self localDiskless \<and>
     s_primary st \<and> s_diskState st = DiskUpToDate \<and> \<not> activated (status v)"

definition restoreSeedPending :: "vol_env \<Rightarrow> vr \<Rightarrow> Status \<Rightarrow> bool \<Rightarrow> bool" where
  "restoreSeedPending env s st localDiskless \<longleftrightarrow>
     (let v = vr_vol s
      in restoreSeed v (ve_node env) localDiskless \<and> s_diskState st = DiskInconsistent \<and>
         \<not> MetadataAdopted (ve_driver env) (vname v) (vr_drv s) \<and>
         list_all (\<lambda>(i, _). peer_disk st i \<noteq> DiskUpToDate) (s_peerDiskState st) \<and>
         list_all (\<lambda>(node, _). node = ve_node env \<or> st_diskState (status_of v node) \<noteq> DiskUpToDate) (perNode (status v)))"

definition mintRestoreSeedUUID :: "vol_env \<Rightarrow> Status \<Rightarrow> bool \<Rightarrow> Status pass" where
  "mintRestoreSeedUUID env st localDiskless =
     (\<lambda>s. let name = vname (vr_vol s)
        in if restoreSeedStuckPrimary (vr_vol s) st (ve_node env) localDiskless then
             bindS (attempt (onDrbd OpDemote (Demote (ve_driver env) name))) (\<lambda>d.
               case d of Inl _ \<Rightarrow> ret st | Inr _ \<Rightarrow> driverStatus env) s
           else if \<not> restoreSeedPending env s st localDiskless then (Inr st, s)
           else thenS (onDrbd OpForceFullSyncSource (ForceFullSyncSource (ve_driver env) name)) (driverStatus env) s)"

definition mintGenerations :: "vol_env \<Rightarrow> Resource \<Rightarrow> Status \<Rightarrow> bool \<Rightarrow> Status pass" where
  "mintGenerations env r st localDiskless =
     bindS (mintBirthUUID env r st localDiskless) (\<lambda>st. mintRestoreSeedUUID env st localDiskless)"

definition latchActivated :: "vol_env \<Rightarrow> Status \<Rightarrow> unit pass" where
  "latchActivated env st =
     (\<lambda>s. if \<not> s_primary st \<or> activated (status (vr_vol s)) then (Inr (), s)
        else mergePatch env ActActivated (\<lambda>_. False)
          (s\<lparr>vr_vol := (vr_vol s)\<lparr>status := (status (vr_vol s))\<lparr>activated := True\<rparr>\<rparr>\<rparr>))"

definition peerBackingsGrown :: "MiroirVolume \<Rightarrow> string \<Rightarrow> bool" where
  "peerBackingsGrown v self =
     list_all (\<lambda>rep. r_node rep = self \<or> r_diskless rep \<or> sizeBytes (spec v) \<le> st_sizeBytes (status_of v (r_node rep)))
       (replicas (spec v))"

definition growIfCoordinator :: "vol_env \<Rightarrow> Status \<Rightarrow> (int \<times> duration) pass" where
  "growIfCoordinator env st =
     (\<lambda>s. let v = vr_vol s; mine = st_sizeBytes (own env s); withheld = (mine, 5 * 10 ^ 9);
            grown = (sizeBytes (spec v), drbdPollInterval)
        in if \<not> mine < sizeBytes (spec v) \<or>
              (case FirstDiskfulReplica (spec v) of None \<Rightarrow> True | Some coord \<Rightarrow> r_node coord \<noteq> ve_node env) then (Inr grown, s)
           else if s_diskState st = DiskDiskless then (Inr withheld, s)
           else if \<not> peerBackingsGrown v (ve_node env) \<or> s_resyncing st then (Inr withheld, s)
           else
             bindS (attempt (onDrbd OpResize (Resize (ve_driver env) (vname v) True))) (\<lambda>r.
               case r of
                 Inr _ \<Rightarrow> ret grown
               | Inl e \<Rightarrow> if IsResizeDuringResync (Some e) then ret withheld else fail e) s)"

definition growLeg :: "vol_env \<Rightarrow> string \<Rightarrow> Status \<Rightarrow> bool \<Rightarrow> (int \<times> duration) pass" where
  "growLeg env pool st localDiskless =
     (\<lambda>s. thenS (if localDiskless then ret '''' else onBackend env pool (BResize (backingBytes (vr_vol s))))
        (growIfCoordinator env st) s)"

section \<open>Recoveries\<close>

definition recoverSplitBrain :: "vol_env \<Rightarrow> Resource \<Rightarrow> unit pass" where
  "recoverSplitBrain env r =
     (\<lambda>s. let v = vr_vol s
        in if (case map_of (vr_lastRecovery s) (vname v) of Some t \<Rightarrow> ve_now env - t < drbdPollInterval | None \<Rightarrow> False)
           then (Inr (), s)
           else
             (let s1 = s\<lparr>vr_lastRecovery := AList.update (vname v) (ve_now env) (vr_lastRecovery s)\<rparr>
              in if activated (status v) \<or> formatted (status v) then (Inr (), s1)
                 else thenS (attempt (onDrbd (OpResolveSplitBrain r) (ResolveSplitBrain (ve_driver env) r))) (ret ()) s1))"

definition handleSplitBrain :: "vol_env \<Rightarrow> Resource \<Rightarrow> Status \<Rightarrow> bool \<Rightarrow> bool pass" where
  "handleSplitBrain env r st connected =
     (\<lambda>s. if s_splitBrain st \<or> \<not> connected \<and> peerReportedSplitBrain (vr_vol s) (ve_node env)
        then thenS (recoverSplitBrain env r) (ret True) s else (Inr False, s))"

definition mergePeers :: "bool idmap \<Rightarrow> bool idmap \<Rightarrow> bool idmap" where
  "mergePeers a b = foldl (\<lambda>m (k, x). AList.update k x m) a b"

definition staleBitmapActionable :: "vol_env \<Rightarrow> MiroirVolume \<Rightarrow> Status \<Rightarrow> bool" where
  "staleBitmapActionable env v st \<longleftrightarrow>
     s_staleBitmapPeers st \<noteq> [] \<and> s_diskState st = DiskUpToDate \<and> s_quorum st \<and> \<not> s_resyncing st \<and> \<not> s_splitBrain st \<and>
     (s_primary st \<or> s_peerPrimary st) \<and>
     diskfulPeersConnected st v (ve_node env) \<and> diskfulPeersUpToDate st v (ve_node env) \<and>
     (case FirstDiskfulReplica (spec v) of
        None \<Rightarrow> True
      | Some coord \<Rightarrow>
          (let slot = status_of v (r_node coord)
           in st_verifyStartedAt slot = None \<and>
              (case st_lastVerifyOutOfSyncBytes slot of Some n \<Rightarrow> n \<le> 0 | None \<Rightarrow> True)))"

definition slotRulesOutPrimary :: "vol_env \<Rightarrow> MiroirVolume \<Rightarrow> string \<Rightarrow> bool" where
  "slotRulesOutPrimary env v node =
     (case map_of (perNode (status v)) node of
        None \<Rightarrow> False
      | Some slot \<Rightarrow> st_primarySince slot = None \<and>
          (case st_lastProbedAt slot of None \<Rightarrow> False | Some t \<Rightarrow> ve_now env - t \<le> StaleProbeThreshold))"

definition unsettledResyncActionable :: "vol_env \<Rightarrow> MiroirVolume \<Rightarrow> Status \<Rightarrow> bool" where
  "unsettledResyncActionable env v st \<longleftrightarrow>
     s_unsettledResyncPeers st \<noteq> [] \<and> \<not> s_splitBrain st \<and>
     (s_peerPrimary st \<or>
      list_all (\<lambda>rep. r_node rep \<noteq> ve_node env \<and> r_address rep \<noteq> '''' \<longrightarrow> slotRulesOutPrimary env v (r_node rep)) (replicas (spec v)) \<and>
      list_all (\<lambda>c. c_address c \<noteq> '''' \<longrightarrow> slotRulesOutPrimary env v (c_node c)) (clients (spec v)))"

text \<open>The peers are cycled in the order of the list, where the code takes the order of a map; a failed
  cycle does not stop the others.\<close>

fun cyclePeers :: "vol_env \<Rightarrow> bool idmap \<Rightarrow> int list \<Rightarrow> unit pass" where
  "cyclePeers env stalled [] = ret ()"
| "cyclePeers env stalled (i # is) =
     bindS (attempt (\<lambda>s. (if map_of stalled i = Some True
         then onDrbd (OpCycleStalled i) (CycleStalledTargetConnection (ve_driver env) (vname (vr_vol s)) i)
         else onDrbd (OpCycle i) (CyclePeerConnection (ve_driver env) (vname (vr_vol s)) i)) s)) (\<lambda>r.
       thenS (case r of Inl _ \<Rightarrow> ret () | Inr _ \<Rightarrow> event ''StuckResyncRecovered'') (cyclePeers env stalled is))"

definition recoverStuckResync :: "vol_env \<Rightarrow> Status \<Rightarrow> bool \<Rightarrow> bool pass" where
  "recoverStuckResync env st localDiskless =
     (\<lambda>s. let v = vr_vol s;
            peers = s_stuckResyncPeers st;
            peers = (if staleBitmapActionable env v st then mergePeers peers (s_staleBitmapPeers st) else peers);
            stalled = (if unsettledResyncActionable env v st then s_unsettledResyncPeers st else []);
            peers = mergePeers peers stalled;
            key = sort (remdups (map fst peers));
            stamp = (\<lambda>s. s\<lparr>vr_stuckSince := AList.update (vname v) (ve_now env, key) (vr_stuckSince s)\<rparr>)
        in if localDiskless \<or> peers = [] then
             (Inr (s_unsettledResyncPeers st \<noteq> []), s\<lparr>vr_stuckSince := AList.delete (vname v) (vr_stuckSince s)\<rparr>)
           else
             (case map_of (vr_stuckSince s) (vname v) of
                None \<Rightarrow> (Inr True, stamp s)
              | Some (since, ids) \<Rightarrow>
                  if ids \<noteq> key then (Inr True, stamp s)
                  else if ve_now env - since < drbdPollInterval then (Inr True, s)
                  else thenS (cyclePeers env stalled key) (ret True) (stamp s)))"

definition diskFailedLatch :: "MiroirVolume \<Rightarrow> string \<Rightarrow> Status \<Rightarrow> bool \<Rightarrow> bool" where
  "diskFailedLatch v self st localDiskless \<longleftrightarrow> \<not> localDiskless \<and> s_diskState st = DiskDiskless \<and>
     (let prev = status_of v self
      in st_diskFailed prev \<or> st_diskState prev \<noteq> '''' \<and> st_diskState prev \<noteq> DiskDiskless)"

definition detachedDiskMessage :: "bool \<Rightarrow> string" where
  "detachedDiskMessage diskFailed =
     (if \<not> diskFailed then ''''
      else ''backing device detached after an I/O error; serving via the peer '' @ [CHR 0xE2, CHR 0x80, CHR 0x94] @
        '' replace the disk, then remove and re-add this replica'')"

definition primarySince :: "MiroirVolume \<Rightarrow> string \<Rightarrow> bool \<Rightarrow> gotime \<Rightarrow> gotime option" where
  "primarySince v node primary now =
     (if \<not> primary then None
      else case st_primarySince (status_of v node) of Some t \<Rightarrow> Some t | None \<Rightarrow> Some now)"

section \<open>The pass\<close>

text \<open>The diskful leg's device: its pool, the stale flag, the backing and its stamp. A failed backing
  ends the pass with its own requeue.\<close>

definition realizeDiskful :: "vol_env \<Rightarrow> string \<Rightarrow> bool \<Rightarrow> (duration + BackendType \<times> string) pass" where
  "realizeDiskful env pool fullSync =
     bindS (orReport env (poolGet env pool)) (\<lambda>type.
     thenS (orReport env (clearStaleBacking env pool))
     (bindS (attempt (realizeBacking env pool fullSync)) (\<lambda>r.
        case r of
          Inl e \<Rightarrow> bindS (reportRealizeError env e) (\<lambda>d. ret (Inl d))
        | Inr dev \<Rightarrow> thenS (stampDeviceCreated env dev pool) (ret (Inr (type, dev))))))"

definition finishUnreplicated :: "vol_env \<Rightarrow> string \<Rightarrow> string \<Rightarrow> duration pass" where
  "finishUnreplicated env pool dev =
     (\<lambda>s. let bytes = sizeBytes (spec (vr_vol s))
        in thenS (orReport env (onBackend env pool (BResize bytes)))
           (thenS (patchStatus env (zero_status\<lparr>st_deviceCreated := True, st_devicePath := dev, st_sizeBytes := bytes,
               st_connected := True, st_pool := pool, st_lastProbedAt := Some (ve_now env)\<rparr>))
           (thenS (storeRealized env zero_drbd_status False) (ret deepCheckInterval))) s)"

definition probeDiscard :: "vol_env \<Rightarrow> bool \<Rightarrow> BackendType \<Rightarrow> string \<Rightarrow> int pass" where
  "probeDiscard env localDiskless type dev =
     (if localDiskless \<or> type = BackendLoopfile then ret 0
      else bindS (attempt (onDrbd OpDiscard (DiscardGranularity (ve_driver env) dev))) (\<lambda>r.
             ret (case r of Inl _ \<Rightarrow> 0 | Inr g \<Rightarrow> g)))"

definition legStatus :: "vol_env \<Rightarrow> vr \<Rightarrow> Status \<Rightarrow> bool \<Rightarrow> string \<Rightarrow> int \<Rightarrow> int \<Rightarrow> int \<Rightarrow> ReplicaStatus" where
  "legStatus env s st localDiskless pool minor bytes discard =
     (let v = vr_vol s; failed = diskFailedLatch v (ve_node env) st localDiskless
      in zero_status\<lparr>st_deviceCreated := \<not> localDiskless, st_devicePath := DevicePath minor, st_drbdMinor := minor,
           st_sizeBytes := bytes, st_diskState := s_diskState st,
           st_connected := diskfulPeersConnected st v (ve_node env), st_splitBrain := s_splitBrain st,
           st_diskless := localDiskless, st_diskFailed := failed, st_discardGranularityBytes := discard,
           st_pool := (if localDiskless then '''' else pool), st_message := detachedDiskMessage failed,
           st_primarySince := primarySince v (ve_node env) (s_primary st) (ve_now env),
           st_lastProbedAt := Some (ve_now env)\<rparr>)"

text \<open>What follows the minting: the latch, the growth, the recoveries and the report of the leg.\<close>

definition settleLeg :: "vol_env \<Rightarrow> Resource \<Rightarrow> Status \<Rightarrow> bool \<Rightarrow> string \<Rightarrow> int \<Rightarrow> int \<Rightarrow> duration pass" where
  "settleLeg env r st localDiskless pool minor discard =
     thenS (latchActivated env st)
     (bindS (orReport env (growLeg env pool st localDiskless)) (\<lambda>(bytes, requeue).
      bindS (\<lambda>s. handleSplitBrain env r st (diskfulPeersConnected st (vr_vol s) (ve_node env)) s) (\<lambda>split.
      bindS (recoverStuckResync env st localDiskless) (\<lambda>stuck.
      thenS (\<lambda>s. patchStatus env (legStatus env s st localDiskless pool minor bytes discard) s)
      (thenS (storeIfSettled env st requeue bytes (split \<or> stuck)) (ret requeue))))))"

text \<open>A leg of a volume without a replication layer cannot get here past admission: the code would read
  through a null pointer, which the controller turns into an error.\<close>

definition replicateLeg :: "vol_env \<Rightarrow> bool \<Rightarrow> string \<Rightarrow> BackendType \<Rightarrow> string \<Rightarrow> duration pass" where
  "replicateLeg env localDiskless pool type dev =
     bindS (orReport env (assignMinor env)) (\<lambda>minor.
     bindS (probeDiscard env localDiskless type dev) (\<lambda>discard s.
       case drbd (spec (vr_vol s)) of
         None \<Rightarrow> (Inl (DrvError ErrPlain ''nil pointer dereference''), s)
       | Some d \<Rightarrow>
           (let r = drbdResource (vr_vol s) d (ve_node env) dev minor localDiskless discard
            in thenS (orReport env (onDrbd (OpApply r) (Apply (ve_driver env) r)))
               (bindS (orReport env (driverStatus env)) (\<lambda>st0.
                bindS (orReport env (mintGenerations env r st0 localDiskless)) (\<lambda>st.
                settleLeg env r st localDiskless pool minor discard))) s)))"

definition realize :: "vol_env \<Rightarrow> Replica option \<Rightarrow> bool \<Rightarrow> duration pass" where
  "realize env mine localDiskless =
     (\<lambda>s. let v = vr_vol s; pool = volumePoolOn v (ve_node env)
        in if localDiskless then replicateLeg env True pool BackendUnset '''' s
           else
             bindS (realizeDiskful env pool (case mine of Some rep \<Rightarrow> r_fullSync rep | None \<Rightarrow> False)) (\<lambda>b.
               case b of
                 Inl requeue \<Rightarrow> ret requeue
               | Inr (type, dev) \<Rightarrow>
                   if drbd (spec v) = None then finishUnreplicated env pool dev
                   else replicateLeg env False pool type dev) s)"

definition reconcileLeg :: "vol_env \<Rightarrow> duration pass" where
  "reconcileLeg env =
     (\<lambda>s. let v = vr_vol s; (mine, localDiskless, present, incomplete) = legState v (ve_node env)
        in if deletionTimestamp v \<noteq> None then reconcileDeletion env present s
           else if \<not> present then reconcileRemoval env s
           else
             thenS (mem (clearBusyFails (vname v)))
             (if drbd (spec v) \<noteq> None \<and> incomplete then ret (5 * 10 ^ 9)
              else
                bindS (fastPath env localDiskless) (\<lambda>done.
                  case done of
                    Some requeue \<Rightarrow> ret requeue
                  | None \<Rightarrow> thenS (mem (dropRealized (vname v))) (realize env mine localDiskless))) s)"

definition volume_Reconcile :: "vol_env \<Rightarrow> string \<Rightarrow> duration pass" where
  "volume_Reconcile env name =
     (case ve_get env of
        Inl e \<Rightarrow> volumeGone name e
      | Inr v \<Rightarrow> (\<lambda>s. reconcileLeg env (s\<lparr>vr_vol := v\<rparr>)))"

section \<open>What a pass does\<close>

text \<open>A step is quiet about a kind of action if it adds none of that kind to the record.\<close>

definition quiet :: "(vol_act \<Rightarrow> bool) \<Rightarrow> vr \<Rightarrow> vr \<Rightarrow> bool" where
  "quiet C s t \<longleftrightarrow> (\<exists>new. vr_acts t = vr_acts s @ new \<and> list_all (\<lambda>a. \<not> C a) new)"

interpretation quiet: step_relation "quiet C" for C
proof
  show "quiet C s s" for s by (simp add: quiet_def)
  show "quiet C s t \<Longrightarrow> quiet C t u \<Longrightarrow> quiet C s u" for s t u by (auto simp: quiet_def)
qed

lemma quiet_same: "vr_acts t = vr_acts s \<Longrightarrow> quiet C s t"
  by (simp add: quiet_def)

text \<open>The releases of a pass and the actions by which a leg's data is thrown away or declared.\<close>

fun release :: "vol_act \<Rightarrow> bool" where
  "release (ActFinalizers fs) = True"
| "release ActDropSlot = True"
| "release a = False"

fun destroy :: "vol_act \<Rightarrow> bool" where
  "destroy (ActBackend p BDelete ok) = True"
| "destroy a = False"

fun declare_data :: "vol_act \<Rightarrow> bool" where
  "declare_data (ActDrbd OpInitialUUID ok) = True"
| "declare_data (ActDrbd OpForceFullSyncSource ok) = True"
| "declare_data (ActDrbd (OpResolveSplitBrain r) ok) = True"
| "declare_data a = False"


fun plain_op :: "drbd_op \<Rightarrow> bool" where
  "plain_op OpInitialUUID = False"
| "plain_op OpForceFullSyncSource = False"
| "plain_op (OpResolveSplitBrain r) = False"
| "plain_op op = True"

lemma forget_vol [simp]:
  "vr_acts (clearBusyFails n s) = vr_acts s" "vr_acts (dropRealized n s) = vr_acts s" "vr_acts (forget n s) = vr_acts s"
  "vr_vol (clearBusyFails n s) = vr_vol s" "vr_vol (dropRealized n s) = vr_vol s" "vr_vol (forget n s) = vr_vol s"
  by (simp_all add: forget_def clearBusyFails_def dropRecovery_def dropRealized_def)

text \<open>The parts of a pass relate the states before and after as their single actions do. A plain
  operation of the driver neither mints a generation nor discards one.\<close>

locale pass_relation = step_relation R for R :: "vr \<Rightarrow> vr \<Rightarrow> bool" +
  fixes env :: vol_env
  assumes R_drbd: "plain_op op \<Longrightarrow> R s (act (ActDrbd op b) (s\<lparr>vr_drv := d\<rparr>))"
    and R_grow: "R s (act (ActBackend p (BResize n) b) s)"
    and R_event: "R s (act (ActEvent e) s)"
    and R_slot: "R s (act (ActSlot x) (s\<lparr>vr_vol := setSlot env y (vr_vol s)\<rparr>))"
    and R_memory: "vr_acts t = vr_acts s \<Longrightarrow> vr_vol t = vr_vol s \<Longrightarrow> R s t"
begin

lemma q_onDrbd: "plain_op op \<Longrightarrow> R s (snd (onDrbd op m s))"
  by (cases "m (vr_drv s)") (simp add: onDrbd_def R_drbd)

lemma q_resize: "R s (snd (onBackend env p (BResize n) s))"
  by (simp add: onBackend_def Let_def R_grow)

lemma q_event: "R s (snd (event e s))"
  by (simp add: event_def R_event)

lemma q_exists: "R s (snd (backendExists env p s))"
  by (simp add: backendExists_def refl)

lemma q_mem: "vr_acts (f s) = vr_acts s \<Longrightarrow> vr_vol (f s) = vr_vol s \<Longrightarrow> R s (snd (mem f s))"
  by (simp add: mem_def R_memory)

lemma q_store: "R s (snd (storeRealized env st b s))"
  by (simp add: storeRealized_def R_memory)

lemma q_patchStatus: "R s (snd (patchStatus env st s))"
  by (simp add: patchStatus_def writeApi_def R_slot)

lemmas q_rules = at_core refl q_onDrbd q_resize q_event q_exists q_mem q_store q_patchStatus

lemma q_reportError: "R s (snd (reportError env e s))"
  unfolding reportError_def by (intro q_rules)

lemma q_orReport: "R s (snd (m s)) \<Longrightarrow> R s (snd (orReport env m s))"
  unfolding orReport_def by (intro q_rules) (auto intro: q_reportError at_ret split: sum.splits)

lemma q_park: "R s (snd (parkWithMessage env e d s))"
  unfolding parkWithMessage_def by (intro q_rules)

lemma q_reportBusy: "R s (snd (reportBusy env e s))"
proof -
  define name where "name = vname (vr_vol s)"
  define t where "t = s\<lparr>vr_busyFails := AList.update name (busyFailCount name s + 1) (vr_busyFails s)\<rparr>"
  have "R t (snd (reportBusy env e s))"
    unfolding reportBusy_def Let_def name_def [symmetric] t_def [symmetric]
    by (auto intro!: q_rules q_park)
  moreover have "R s t" by (simp add: t_def R_memory)
  ultimately show ?thesis using trans by blast
qed

lemma q_teardownError: "R s (snd (handleTeardownError env e s))"
  by (auto simp: handleTeardownError_def reportWedged_def Let_def intro!: q_rules q_park q_reportBusy)

lemma q_status: "R s (snd (driverStatus env s))"
  unfolding driverStatus_def by (intro q_rules) simp_all

lemma q_fastPath: "R s (snd (fastPath env b s))"
  by (auto simp: fastPath_def Let_def intro!: q_rules q_status split: option.splits sum.splits)


lemma q_poolGet: "R s (snd (poolGet env p s))"
  by (auto simp: poolGet_def Let_def intro!: q_rules split: option.splits)

lemma q_stale: "R s (snd (clearStaleBacking env p s))"
  by (auto simp: clearStaleBacking_def intro!: q_rules)

lemma q_realizeError: "R s (snd (reportRealizeError env e s))"
  by (auto simp: reportRealizeError_def intro!: q_rules q_park q_reportError)

lemma q_stamp: "R s (snd (stampDeviceCreated env d p s))"
  by (auto simp: stampDeviceCreated_def intro!: q_rules)

lemma q_unreplicated: "R s (snd (finishUnreplicated env p d s))"
  by (auto simp: finishUnreplicated_def Let_def intro!: q_rules q_orReport)

lemma q_minor: "R s (snd (assignMinor env s))"
  by (auto simp: assignMinor_def intro!: q_rules)

lemma q_discard: "R s (snd (probeDiscard env b t d s))"
  by (auto simp: probeDiscard_def intro!: q_rules)

lemma q_grow: "R s (snd (growLeg env p st b s))"
proof -
  have "R t (snd (growIfCoordinator env st t))" for t
    by (auto simp: growIfCoordinator_def Let_def intro!: q_rules split: sum.splits option.splits)
  then show ?thesis by (auto simp: growLeg_def intro!: q_rules)
qed

lemma q_cycle: "R s (snd (cyclePeers env x is s))"
proof (induction "is" arbitrary: s)
  case (Cons i "is")
  then show ?case by (auto intro!: q_rules split: sum.splits)
qed (simp add: at_ret)

lemma q_stuck: "R s (snd (recoverStuckResync env st b s))"
proof -
  have mark: "R s (snd (thenS (cyclePeers env x is) (ret y) (s\<lparr>vr_stuckSince := m\<rparr>)))" for x "is" y m
    by (rule trans [of s "s\<lparr>vr_stuckSince := m\<rparr>"]) (simp add: R_memory, intro q_rules q_cycle)
  show ?thesis
    by (auto simp: recoverStuckResync_def Let_def R_memory intro!: mark split: option.splits)
qed

lemma q_settled: "R s (snd (storeIfSettled env st d n b s))"
  by (auto simp: storeIfSettled_def intro!: q_rules)

end

text \<open>Where the creation of a backing device does.\<close>

locale pass_create = pass_relation +
  assumes R_create: "bop \<noteq> BDelete \<Longrightarrow> R s (act (ActBackend p bop b) s)"
begin

lemma q_create: "op \<noteq> BDelete \<Longrightarrow> R s (snd (onBackend env p op s))"
  by (simp add: onBackend_def Let_def R_create)

lemma q_finishClone: "R s (snd (finishClone env p s))"
  by (auto simp: finishClone_def Let_def intro!: q_rules q_create)

lemma q_backing: "R s (snd (realizeBacking env p f s))"
  by (auto simp: realizeBacking_def Let_def intro!: q_rules q_create q_finishClone split: option.splits sum.splits)

lemma q_diskful: "R s (snd (realizeDiskful env p f s))"
  unfolding realizeDiskful_def
  by (intro q_rules q_orReport q_poolGet q_stale q_backing)
    (auto intro!: q_rules q_realizeError q_stamp split: sum.splits)

end

text \<open>Where the latch and the other operations of the driver relate them too, so does the whole
  realization.\<close>

locale pass_latch = pass_relation R env for R and env :: vol_env +
  assumes R_latch: "R s (act ActActivated (s\<lparr>vr_vol := v\<rparr>))"
begin

lemma q_latch: "R s (snd (latchActivated env st s))"
proof -
  have "R s (act ActActivated (s\<lparr>vr_vol := v\<rparr>))" for v by (rule R_latch)
  then show ?thesis by (auto simp: latchActivated_def mergePatch_def refl split: sum.splits)
qed

end

locale pass_release = pass_latch +
  assumes R_ops: "R s (act (ActDrbd op b) (s\<lparr>vr_drv := d\<rparr>))"
begin

lemma q_op: "R s (snd (onDrbd op m s))"
  by (cases "m (vr_drv s)") (simp add: onDrbd_def R_ops)

lemma q_mint: "R s (snd (mintGenerations env r st b s))"
  unfolding mintGenerations_def
  by (intro q_rules) (auto simp: mintBirthUUID_def mintRestoreSeedUUID_def Let_def intro!: q_rules q_op q_status split: sum.splits)

lemma q_split: "R s (snd (handleSplitBrain env r st b s))"
proof -
  have mark: "R t (snd (thenS (attempt (onDrbd op m)) (ret y) (t\<lparr>vr_lastRecovery := l\<rparr>)))" for t op y l and m :: "unit step"
    by (rule trans [of t "t\<lparr>vr_lastRecovery := l\<rparr>"]) (simp add: R_memory, intro q_rules q_op)
  show ?thesis
    by (auto simp: handleSplitBrain_def recoverSplitBrain_def Let_def R_memory intro!: q_rules mark split: option.splits)
qed

lemma q_settleLeg: "R s (snd (settleLeg env r st b p m d s))"
  unfolding settleLeg_def
  by (intro q_rules q_latch q_orReport q_grow, clarsimp, intro q_rules q_split q_stuck q_settled)

lemma q_replicate: "R s (snd (replicateLeg env b p ty d s))"
  unfolding replicateLeg_def
  by (intro q_rules q_orReport q_minor q_discard)
    (auto simp: Let_def intro!: q_rules q_op q_orReport q_status q_mint q_settleLeg split: option.splits)

lemma q_realize: "(\<And>p f. R s (snd (realizeDiskful env p f s))) \<Longrightarrow> R s (snd (realize env mine b s))"
  by (auto simp: realize_def Let_def intro!: q_rules q_replicate q_unreplicated split: sum.splits)

end

definition teardown_act :: "vol_act \<Rightarrow> bool" where
  "teardown_act a \<longleftrightarrow> release a \<or> destroy a"

lemma quiet_act: "\<not> C a \<Longrightarrow> vr_acts t = vr_acts s \<Longrightarrow> quiet C s (act a t)"
  by (simp add: quiet_def act_def)

interpretation td: pass_release "quiet teardown_act" env for env
  by unfold_locales (simp_all add: teardown_act_def quiet_act quiet_same)

interpretation tdc: pass_create "quiet teardown_act" env for env
proof
  show "op \<noteq> BDelete \<Longrightarrow> quiet teardown_act s (act (ActBackend p op b) s)" for op p b s
    by (cases op) (simp_all add: teardown_act_def quiet_act)
qed

section \<open>Teardown before release\<close>

text \<open>What must have happened before a backing device is deleted: the resource is down, or the volume is
  being deleted and its disk was detached by force.\<close>

definition detached :: "MiroirVolume \<Rightarrow> vol_act list \<Rightarrow> bool" where
  "detached v acts \<longleftrightarrow> drbd (spec v) = None \<or> ActDrbd OpDown True \<in> set acts \<or>
     deletionTimestamp v \<noteq> None \<and> ActDrbd OpForceDetach True \<in> set acts"

definition swept :: "vol_env \<Rightarrow> vol_act list \<Rightarrow> bool" where
  "swept env acts \<longleftrightarrow> (\<forall>p\<in>fst ` set (ve_pools env). ActBackend p BDelete True \<in> set acts)"

definition orderly :: "MiroirVolume \<Rightarrow> vol_act list \<Rightarrow> bool" where
  "orderly v acts \<longleftrightarrow> (\<forall>pre a post. acts = pre @ a # post \<longrightarrow> destroy a \<longrightarrow> detached v pre)"

lemma orderly_quiet: "list_all (\<lambda>a. \<not> destroy a) xs \<Longrightarrow> orderly v xs"
  by (auto simp: orderly_def)

lemma orderly_after:
  assumes "list_all (\<lambda>a. \<not> destroy a) xs" "detached v xs"
  shows "orderly v (xs @ ys)"
  unfolding orderly_def
proof (intro allI impI)
  fix pre a post
  assume "xs @ ys = pre @ a # post" "destroy a"
  then have "set xs \<subseteq> set pre" using assms(1)
    by (auto simp: append_eq_append_conv2 append_eq_Cons_conv list_all_iff)
  then show "detached v pre" using assms(2) by (auto simp: detached_def)
qed

lemma sweepPools_acts:
  assumes "sweepPools env ps e s = (r, t)"
  shows "\<exists>new. vr_acts t = vr_acts s @ new \<and> list_all (\<lambda>a. \<not> release a) new \<and> vr_vol t = vr_vol s \<and>
    (r = Inr () \<longrightarrow> e = None \<and> (\<forall>p\<in>set ps. ActBackend p BDelete True \<in> set new))"
  using assms
proof (induction ps arbitrary: e s)
  case Nil
  then show ?case by (auto simp: ret_def fail_def split: option.splits)
next
  case (Cons p ps)
  define b where "b = ve_backend env s p BDelete"
  define e' where "e' = (case b of Inl x \<Rightarrow> if e = None then Some x else e | Inr _ \<Rightarrow> e)"
  let ?u = "act (ActBackend p BDelete (\<not> isl b)) s"
  have "sweepPools env ps e' ?u = (r, t)"
    using Cons.prems by (simp add: bindS_def attempt_def onBackend_def Let_def b_def e'_def)
  then obtain new where n: "vr_acts t = vr_acts ?u @ new" "list_all (\<lambda>a. \<not> release a) new" "vr_vol t = vr_vol ?u"
      "r = Inr () \<Longrightarrow> e' = None \<and> (\<forall>p\<in>set ps. ActBackend p BDelete True \<in> set new)"
    using Cons.IH by blast
  have "e' = None \<Longrightarrow> e = None \<and> \<not> isl b" by (auto simp: e'_def split: sum.splits if_splits)
  then show ?case using n by (intro exI [of _ "ActBackend p BDelete (\<not> isl b) # new"]) (auto simp: act_def)
qed

lemma SweepDelete_acts:
  assumes "SweepDelete env s = (r, t)"
  shows "\<exists>new. vr_acts t = vr_acts s @ new \<and> list_all (\<lambda>a. \<not> release a) new \<and> vr_vol t = vr_vol s \<and>
    (r = Inr () \<longrightarrow> swept env new)"
  using sweepPools_acts [OF assms [unfolded SweepDelete_def]] by (auto simp: swept_def)

lemma onDrbd_acts: "onDrbd op m s = (r, t) \<Longrightarrow> vr_acts t = vr_acts s @ [ActDrbd op (\<not> isl r)] \<and> vr_vol t = vr_vol s"
  by (auto simp: onDrbd_def act_def split: prod.splits)

lemma teardownWipe_acts:
  assumes "teardownWipe env slot s = (r, t)"
  shows "r = Inr () \<and> vr_vol t = vr_vol s \<and>
    (\<exists>new. vr_acts t = vr_acts s @ new \<and> list_all (\<lambda>a. \<not> release a \<and> \<not> destroy a) new)"
  using assms
  by (auto simp: teardownWipe_def step_defs split: if_splits prod.splits dest!: onDrbd_acts)

text \<open>What a teardown leaves: its actions in order, and where it succeeded, every pool swept.\<close>

definition torn :: "vol_env \<Rightarrow> vr \<Rightarrow> bool \<Rightarrow> vr \<Rightarrow> bool" where
  "torn env s ok t \<longleftrightarrow> vr_vol t = vr_vol s \<and>
     (\<exists>new. vr_acts t = vr_acts s @ new \<and> list_all (\<lambda>a. \<not> release a) new \<and> orderly (vr_vol s) new \<and> (ok \<longrightarrow> swept env new))"

lemma torn_plain:
  assumes "vr_vol t = vr_vol s" "vr_acts t = vr_acts s @ new" "list_all (\<lambda>a. \<not> release a \<and> \<not> destroy a) new"
  shows "torn env s False t"
  unfolding torn_def using assms orderly_quiet [of new] by (auto simp: list_all_iff)

lemma torn_sweep:
  assumes t: "vr_vol t = vr_vol s" "vr_acts t = vr_acts s @ pre" "list_all (\<lambda>a. \<not> release a \<and> \<not> destroy a) pre"
    and d: "detached (vr_vol s) pre" and u: "SweepDelete env t = (r, u)"
  shows "torn env s (r = Inr ()) u"
proof -
  obtain new where "vr_acts u = vr_acts t @ new" "list_all (\<lambda>a. \<not> release a) new" "vr_vol u = vr_vol t"
      "r = Inr () \<Longrightarrow> swept env new"
    using SweepDelete_acts [OF u] by blast
  moreover have "orderly (vr_vol s) (pre @ new)" by (rule orderly_after) (use t d in \<open>auto simp: list_all_iff\<close>)
  ultimately show ?thesis unfolding torn_def using t
    by (intro conjI exI [of _ "pre @ new"]) (auto simp: list_all_iff swept_def)
qed
lemma torn_fail: "torn env s ok t \<Longrightarrow> torn env s False t"
  by (auto simp: torn_def)

lemma torn_more:
  assumes "torn env s ok t" "vr_vol u = vr_vol t" "vr_acts u = vr_acts t @ new"
    "list_all (\<lambda>a. \<not> release a \<and> \<not> destroy a) new"
  shows "torn env s ok u"
proof -
  obtain old where o: "vr_acts t = vr_acts s @ old" "list_all (\<lambda>a. \<not> release a) old" "orderly (vr_vol s) old"
      "ok \<Longrightarrow> swept env old" "vr_vol t = vr_vol s"
    using assms(1) unfolding torn_def by blast
  have "orderly (vr_vol s) (old @ new)"
    using o(3) assms(4) unfolding orderly_def
    by (auto simp: append_eq_append_conv2 append_eq_Cons_conv list_all_iff)
  then show ?thesis unfolding torn_def using o assms
    by (intro conjI exI [of _ "old @ new"]) (auto simp: swept_def list_all_iff)
qed

lemma reclaim_torn:
  assumes s: "vr_vol s = vr_vol s0" "vr_acts s = vr_acts s0 @ pre" "list_all (\<lambda>a. \<not> release a \<and> \<not> destroy a) pre"
    and d: "deletionTimestamp (vr_vol s) \<noteq> None" and r: "reclaimOrphanHold env slot cause s = (r, t)"
  shows "torn env s0 (r = Inr ()) t"
proof -
  let ?drv = "ve_driver env" and ?name = "vname (vr_vol s)"
  obtain f u where f: "onDrbd OpForceDetach (ForceDetach ?drv ?name (st_drbdMinor slot)) s = (f, u)"
    by (cases "onDrbd OpForceDetach (ForceDetach ?drv ?name (st_drbdMinor slot)) s")
  then have u: "vr_acts u = vr_acts s @ [ActDrbd OpForceDetach (\<not> isl f)]" "vr_vol u = vr_vol s" using onDrbd_acts by blast+
  show ?thesis
  proof (cases f)
    case (Inl e)
    then have "r = Inl cause" "t = u" using r f by (simp_all add: reclaimOrphanHold_def step_defs Let_def)
    then show ?thesis using u s torn_plain [of u s0 "pre @ [ActDrbd OpForceDetach False]"] Inl by simp
  next
    case (Inr y)
    obtain q w where w: "SweepDelete env u = (q, w)" by (cases "SweepDelete env u")
    have sw: "torn env s0 (q = Inr ()) w"
      by (rule torn_sweep [of u _ "pre @ [ActDrbd OpForceDetach True]"]) (use u s d w Inr in \<open>auto simp: detached_def\<close>)
    obtain c x where x: "onDrbd OpRemoveConfig (RemoveConfig ?drv ?name) w = (c, x)"
      by (cases "onDrbd OpRemoveConfig (RemoveConfig ?drv ?name) w")
    then have xa: "vr_acts x = vr_acts w @ [ActDrbd OpRemoveConfig (\<not> isl c)]" "vr_vol x = vr_vol w" using onDrbd_acts by blast+
    have "torn env s0 (q = Inr ()) x" by (rule torn_more [OF sw xa(2,1)]) simp
    moreover from torn_more [OF this, of "act (ActEvent ''TeardownReclaimed'') x" "[ActEvent ''TeardownReclaimed'']"]
    have "torn env s0 (q = Inr ()) (act (ActEvent ''TeardownReclaimed'') x)" by (simp add: act_def)
    ultimately show ?thesis using r f w x sw Inr
      by (auto simp: reclaimOrphanHold_def step_defs Let_def event_def intro: torn_fail split: sum.splits)
  qed
qed

lemma teardown_torn:
  assumes "teardown env s = (r, t)"
  shows "torn env s (r = Inr ()) t"
proof (cases "drbd (spec (vr_vol s))")
  case None
  then show ?thesis using assms torn_sweep [of s s "[]" env r t] by (simp add: teardown_def detached_def)
next
  case (Some d)
  let ?down = "onDrbd OpDown (Down (ve_driver env) (vname (vr_vol s)))"
  obtain f u where f: "?down s = (f, u)" by (cases "?down s")
  then have u: "vr_acts u = vr_acts s @ [ActDrbd OpDown (\<not> isl f)]" "vr_vol u = vr_vol s" using onDrbd_acts by blast+
  show ?thesis
  proof (cases f)
    case (Inr y)
    obtain q w where w: "teardownWipe env (own env s) u = (q, w)" by (cases "teardownWipe env (own env s) u")
    then obtain new where n: "q = Inr ()" "vr_vol w = vr_vol u" "vr_acts w = vr_acts u @ new"
        "list_all (\<lambda>a. \<not> release a \<and> \<not> destroy a) new"
      using teardownWipe_acts by blast
    have "SweepDelete env w = (r, t)"
      using assms f w n(1) Inr Some by (simp add: teardown_def step_defs Let_def)
    then show ?thesis
      by (rule torn_sweep [of w _ "ActDrbd OpDown True # new", rotated 4]) (use u n Inr in \<open>auto simp: detached_def\<close>)
  next
    case (Inl e)
    show ?thesis
    proof (cases "\<not> is_wedged e \<and> orphanHold env u (own env s) (Busy e)")
      case True
      then have "reclaimOrphanHold env (own env s) (Busy e) u = (r, t)"
        using assms f Inl Some by (simp add: teardown_def step_defs Let_def)
      moreover have "deletionTimestamp (vr_vol u) \<noteq> None" using True by (simp add: orphanHold_def)
      ultimately show ?thesis using reclaim_torn [of u s "[ActDrbd OpDown False]" env] u Inl by simp
    next
      case False
      then have "t = u \<and> r \<noteq> Inr ()"
        using assms f Inl Some by (auto simp: teardown_def step_defs Let_def split: if_splits)
      then show ?thesis using u Inl torn_plain [of u s "[ActDrbd OpDown False]"] by simp
    qed
  qed
qed
text \<open>The record of a pass: no backing deleted under a live resource, no release before the sweep.\<close>

definition lawful :: "vol_env \<Rightarrow> MiroirVolume \<Rightarrow> vr \<Rightarrow> vr \<Rightarrow> bool" where
  "lawful env v s t \<longleftrightarrow> (\<exists>new. vr_acts t = vr_acts s @ new \<and> orderly v new \<and>
     (\<forall>pre a post. new = pre @ a # post \<longrightarrow> release a \<longrightarrow> swept env pre))"

lemma lawful_quiet: "quiet teardown_act s t \<Longrightarrow> lawful env v s t"
  unfolding lawful_def quiet_def by (auto simp: teardown_act_def orderly_def)

lemma lawful_torn:
  assumes t: "torn env s ok t" and u: "vr_acts u = vr_acts t @ new" "list_all (\<lambda>a. \<not> destroy a \<and> (ok \<or> \<not> release a)) new"
  shows "lawful env (vr_vol s) s u"
proof -
  obtain old where o: "vr_acts t = vr_acts s @ old" "list_all (\<lambda>a. \<not> release a) old" "orderly (vr_vol s) old"
      "ok \<Longrightarrow> swept env old" "vr_vol t = vr_vol s"
    using t unfolding torn_def by blast
  have "orderly (vr_vol s) (old @ new)"
    using o(3) u(2) unfolding orderly_def by (auto simp: append_eq_append_conv2 append_eq_Cons_conv list_all_iff)
  moreover have "swept env pre" if eq: "old @ new = pre @ a # post" and a: "release a" for pre a post
  proof -
    have "set old \<subseteq> set pre" "ok" using eq a o(2) u(2)
      by (auto simp: append_eq_append_conv2 append_eq_Cons_conv list_all_iff)
    then show ?thesis using o(4) by (auto simp: swept_def)
  qed
  ultimately show ?thesis unfolding lawful_def using o(1) u(1) by (intro exI [of _ "old @ new"]) auto
qed

lemma lawful_same: "lawful env v s u \<Longrightarrow> vr_acts t = vr_acts s \<Longrightarrow> lawful env v t u"
  by (simp add: lawful_def)

lemma releaseFinalizer_acts:
  "\<exists>new. vr_acts (snd (releaseFinalizer env s)) = vr_acts s @ new \<and> list_all (\<lambda>a. \<not> destroy a) new"
  by (auto simp: releaseFinalizer_def act_def Let_def split: option.splits)

lemma dropSlot_acts: "vr_acts (snd (dropSlot env s)) = vr_acts s @ [ActDropSlot]"
  by (auto simp: dropSlot_def mergePatch_def act_def split: sum.splits)

text \<open>A pass that tears down: the actions of the teardown, then the releases if it succeeded.\<close>

lemma lawful_teardown:
  assumes rest: "\<And>t. \<exists>new. vr_acts (snd (done t)) = vr_acts t @ new \<and> list_all (\<lambda>a. \<not> destroy a) new"
  shows "lawful env (vr_vol s) s (snd (bindS (attempt (teardown env))
    (\<lambda>x. case x of Inl e \<Rightarrow> handleTeardownError env e | Inr _ \<Rightarrow> done) s))"
proof -
  obtain r t where td: "teardown env s = (r, t)" by (cases "teardown env s")
  note torn = teardown_torn [OF td]
  show ?thesis
  proof (cases r)
    case (Inl e)
    obtain new where "vr_acts (snd (handleTeardownError env e t)) = vr_acts t @ new" "list_all (\<lambda>a. \<not> teardown_act a) new"
      using td.q_teardownError [of t env e] unfolding quiet_def by blast
    then show ?thesis using lawful_torn [OF torn, of _ new] td Inl
      by (auto simp: step_defs teardown_act_def list_all_iff)
  next
    case (Inr x)
    obtain new where "vr_acts (snd (done t)) = vr_acts t @ new" "list_all (\<lambda>a. \<not> destroy a) new"
      using rest by blast
    then show ?thesis using lawful_torn [OF torn, of _ new] td Inr
      by (auto simp: step_defs list_all_iff)
  qed
qed

lemma deletion_rest:
  "\<exists>new. vr_acts (snd (thenS (mem (forget n)) (thenS (releaseFinalizer env) (ret d)) t)) = vr_acts t @ new \<and>
    list_all (\<lambda>a. \<not> destroy a) new"
  using releaseFinalizer_acts [of env "forget n t"] by (auto simp: step_defs mem_def split: prod.splits sum.splits)

lemma removal_rest:
  "\<exists>new. vr_acts (snd (thenS (mem (forget n)) (thenS (dropSlot env) (thenS (releaseFinalizer env) (ret d))) t)) =
    vr_acts t @ new \<and> list_all (\<lambda>a. \<not> destroy a) new"
proof -
  obtain r u where d: "dropSlot env (forget n t) = (r, u)" by (cases "dropSlot env (forget n t)")
  then have u: "vr_acts u = vr_acts t @ [ActDropSlot]" using dropSlot_acts [of env "forget n t"] by simp
  show ?thesis
    using releaseFinalizer_acts [of env u] d u
    by (cases r) (auto simp: step_defs mem_def split: prod.splits sum.splits)
qed

text \<open>What the gate of a removal lets through.\<close>

lemma removalBlocked_clear:
  assumes "removalBlocked env s = ''''"
  defines "v \<equiv> vr_vol s"
  shows "drbd (spec v) \<noteq> None"
    and "rep \<in> set (replicas (spec v)) \<Longrightarrow> \<not> r_diskless rep \<Longrightarrow>
      st_diskState (status_of v (r_node rep)) = DiskUpToDate \<and> st_connected (status_of v (r_node rep))"
    and "st_diskless (status_of v (ve_node env)) \<or>
      (\<exists>snaps. ve_listSnaps env s = Inr snaps \<and> (\<forall>sn\<in>set snaps. sn_volumeName sn \<noteq> vname v))"
  using assms(1) unfolding removalBlocked_def Let_def v_def own_def
  by (auto simp: find_None_iff status_of_def split: if_splits sum.splits option.splits)
text \<open>When this node's leg may go from a volume that lives on: it is in the spec no more, the others are
  whole and linked, and no snapshot rests on it.\<close>

definition expendable :: "vol_env \<Rightarrow> vr \<Rightarrow> MiroirVolume \<Rightarrow> bool" where
  "expendable env s v \<longleftrightarrow> drbd (spec v) \<noteq> None \<and> (\<forall>rep\<in>set (replicas (spec v)). r_node rep \<noteq> ve_node env \<and>
       (r_diskless rep \<or> st_diskState (status_of v (r_node rep)) = DiskUpToDate \<and> st_connected (status_of v (r_node rep)))) \<and>
     (st_diskless (status_of v (ve_node env)) \<or>
      (\<exists>snaps. ve_listSnaps env (s\<lparr>vr_vol := v\<rparr>) = Inr snaps \<and> (\<forall>sn\<in>set snaps. sn_volumeName sn \<noteq> vname v)))"

lemma removal_lawful:
  assumes "vr_vol s = v" "\<forall>rep\<in>set (replicas (spec v)). r_node rep \<noteq> ve_node env"
  shows "quiet teardown_act s (snd (reconcileRemoval env s)) \<or>
    expendable env s v \<and> lawful env v s (snd (reconcileRemoval env s))"
proof (cases "FinalizerPrefix @ ve_node env \<notin> set (finalizers v) \<or> removalBlocked env s \<noteq> ''''")
  case True
  then have "quiet teardown_act s (snd (reconcileRemoval env s))"
    using assms(1) by (auto simp: reconcileRemoval_def Let_def intro!: td.q_rules)
  then show ?thesis by simp
next
  case False
  then have "lawful env v s (snd (reconcileRemoval env s))"
    using lawful_teardown [OF removal_rest [of "vname v" env 0], of env s] assms(1) by (simp add: reconcileRemoval_def Let_def)
  moreover have "s\<lparr>vr_vol := v\<rparr> = s" using assms(1) by simp
  moreover from False have "removalBlocked env s = ''''" by simp
  note removalBlocked_clear [OF this]
  ultimately show ?thesis using assms by (auto simp: expendable_def)
qed

lemma leg_lawful:
  assumes "vr_vol s = v"
  shows "quiet teardown_act s (snd (reconcileLeg env s)) \<or>
    (deletionTimestamp v \<noteq> None \<or> expendable env s v) \<and> lawful env v s (snd (reconcileLeg env s))"
proof -
  obtain mine diskless present incomplete where leg: "legState v (ve_node env) = (mine, diskless, present, incomplete)"
    by (cases "legState v (ve_node env)") auto
  show ?thesis
  proof (cases "deletionTimestamp v")
    case (Some d)
    have "lawful env v s (snd (reconcileDeletion env present s))"
      using lawful_teardown [OF deletion_rest [of "vname v" env 0], of env s] assms
      by (auto simp: reconcileDeletion_def intro: lawful_quiet quiet.refl)
    then show ?thesis using leg Some assms by (simp add: reconcileLeg_def)
  next
    case None
    show ?thesis
    proof (cases present)
      case True
      have "quiet teardown_act s (snd (reconcileLeg env s))"
        using leg None True assms
        by (auto simp: reconcileLeg_def intro!: td.q_rules td.q_fastPath td.q_realize tdc.q_diskful split: option.splits)
      then show ?thesis by simp
    next
      case False
      then have "\<forall>rep\<in>set (replicas (spec v)). r_node rep \<noteq> ve_node env"
        using leg by (auto simp: legState_def Let_def find_None_iff)
      then show ?thesis using removal_lawful [of s v env] leg None False assms by (simp add: reconcileLeg_def)
    qed
  qed
qed

text \<open>
  C6. No leg is destroyed and no claim to it released but by an orderly teardown. In the actions of a
  pass of the volume reconciler, in their order: a backing device is deleted only on an unreplicated
  volume, after the DRBD resource went down, or, on a volume being deleted, after its disk was detached
  by force; this node's finalizer and its status slot go only after every pool of the node was swept
  without an error. And both happen only on a volume that is being deleted or whose leg here is
  expendable: no replica of the spec, every remaining diskful replica up to date and connected, and no
  snapshot of the volume listed unless the leg held no data.
\<close>

theorem teardown_before_release:
  assumes "ve_get env = Inr v"
  shows "\<exists>new. vr_acts (snd (volume_Reconcile env name s)) = vr_acts s @ new \<and>
    (\<forall>pre a post. new = pre @ a # post \<longrightarrow>
      (destroy a \<longrightarrow> drbd (spec v) = None \<or> ActDrbd OpDown True \<in> set pre \<or>
        deletionTimestamp v \<noteq> None \<and> ActDrbd OpForceDetach True \<in> set pre) \<and>
      (release a \<longrightarrow> (\<forall>p\<in>fst ` set (ve_pools env). ActBackend p BDelete True \<in> set pre)) \<and>
      (destroy a \<or> release a \<longrightarrow> deletionTimestamp v \<noteq> None \<or> expendable env s v))"
proof -
  let ?s = "s\<lparr>vr_vol := v\<rparr>"
  have pass: "volume_Reconcile env name s = reconcileLeg env ?s" using assms by (simp add: volume_Reconcile_def)
  have ex: "expendable env ?s v = expendable env s v" by (simp add: expendable_def)
  consider (quiet) "quiet teardown_act ?s (snd (reconcileLeg env ?s))"
    | (torn) "deletionTimestamp v \<noteq> None \<or> expendable env s v" "lawful env v ?s (snd (reconcileLeg env ?s))"
    using leg_lawful [of ?s v env] ex by auto
  then show ?thesis
  proof cases
    case quiet
    then show ?thesis unfolding pass quiet_def by (auto simp: teardown_act_def)
  next
    case torn
    then show ?thesis unfolding pass lawful_def orderly_def detached_def swept_def by auto
  qed
qed
text \<open>A node of one pool whose backend, driver and API server always answer well.\<close>

definition quiet_node :: "MiroirVolume \<Rightarrow> vol_env" where
  "quiet_node v = \<lparr>ve_node = ''a'', ve_now = 0, ve_get = Inr v, ve_generation = 1, ve_driver = calm,
     ve_pools = [(''default'', BackendZFS)], ve_backend = (\<lambda>_ _ _. Inr ''dev''), ve_exists = (\<lambda>_ _. Inr True),
     ve_backingPath = (\<lambda>_. ''dev''), ve_getSnap = (\<lambda>_ _. Inl NotFound), ve_listSnaps = (\<lambda>_. Inr []),
     ve_write = (\<lambda>_ _. None), ve_patch = (\<lambda>s _. Inr (vr_vol s)), ve_pidAlive = (\<lambda>_. False), ve_procs = Some []\<rparr>"

definition idle :: vr where
  "idle = \<lparr>vr_vol = example_volume (example_spec [] []) [], vr_drv = no_volume, vr_realized = [], vr_lastRecovery = [],
     vr_stuckSince = [], vr_busyFails = [], vr_acts = []\<rparr>"

definition deleted_volume :: MiroirVolume where
  "deleted_volume = (example_volume (example_spec
     [example_replica ''a'' 0 ''10.0.0.1'', example_replica ''b'' 1 ''10.0.0.2''] [])
     [FinalizerPrefix @ ''a'', FinalizerPrefix @ ''b''])\<lparr>deletionTimestamp := Some 0\<rparr>"

theorem teardown_before_release_witness:
  "let acts = vr_acts (snd (volume_Reconcile (quiet_node deleted_volume) ''pvc-1'' idle))
   in acts = [ActDrbd OpDown True, ActBackend ''default'' BDelete True, ActFinalizers [FinalizerPrefix @ ''b'']] \<and>
     ActBackend ''default'' BDelete True \<in> set (take 2 acts)"
proof -
  let ?env = "quiet_node deleted_volume"
  let ?acts = "vr_acts (snd (volume_Reconcile ?env ''pvc-1'' idle))"
  have a: "?acts = [ActDrbd OpDown True, ActBackend ''default'' BDelete True, ActFinalizers [FinalizerPrefix @ ''b'']]"
    by code_simp
  have "ve_get ?env = Inr deleted_volume" "(''default'', BackendZFS) \<in> set (ve_pools ?env)" "vr_acts idle = []"
    by (simp_all add: quiet_node_def idle_def)
  then have "ActBackend ''default'' BDelete True \<in> set pre"
    if "?acts = pre @ ActFinalizers fs # post" for pre fs post
    using teardown_before_release [of ?env deleted_volume "''pvc-1''" idle] that by force
  from this [of "take 2 ?acts" "[FinalizerPrefix @ ''b'']" "[]"] show ?thesis using a by simp
qed

end
