(* ===== verification/Agent_Data.thy ===== *)
theory Agent_Data
  imports Agent_Volume
begin

text \<open>
  What the passes of the volume reconciler (\<open>Agent_Volume\<close>) do to the data of a volume: when a leg's
  disk is declared the data of the volume or discarded, what a restore may create, and that the retries
  of a teardown held up by a dead consumer end.
\<close>

section \<open>Teardowns\<close>

locale pass_teardown = pass_relation +
  assumes R_sweep: "R s (act (ActBackend p BDelete b) s)"
    and R_finalizers: "R s (act (ActFinalizers fs) (s\<lparr>vr_vol := (vr_vol s)\<lparr>finalizers := fs\<rparr>\<rparr>))"
    and R_drop: "R s (act ActDropSlot (s\<lparr>vr_vol := v\<rparr>))"
begin

lemma q_release: "R s (snd (releaseFinalizer env s))" "R s (snd (dropSlot env s))"
  using R_drop [of s "vr_vol s"]
  by (auto simp: releaseFinalizer_def dropSlot_def mergePatch_def Let_def R_finalizers R_drop refl split: option.splits sum.splits)

lemma q_sweep: "R s (snd (SweepDelete env s))"
proof -
  have "R t (snd (sweepPools env ps e t))" for ps e t
  proof (induction ps arbitrary: e t)
    case (Cons p ps)
    have "R t (snd (onBackend env p BDelete t))" by (simp add: onBackend_def Let_def R_sweep)
    then show ?case using Cons by (auto intro!: at_bind at_attempt)
  qed (auto simp: at_ret at_fail split: option.splits)
  then show ?thesis by (simp add: SweepDelete_def)
qed

lemma q_teardown: "R s (snd (teardown env s))"
proof -
  have wipe: "R t (snd (teardownWipe env slot t))" for slot t
    by (auto simp: teardownWipe_def intro!: q_rules)
  have reclaim: "R t (snd (reclaimOrphanHold env slot e t))" for slot e t
    by (auto simp: reclaimOrphanHold_def Let_def intro!: q_rules q_sweep split: sum.splits)
  show ?thesis
    by (auto simp: teardown_def Let_def intro!: q_rules q_sweep wipe reclaim split: sum.splits)
qed

lemma q_deletion: "R s (snd (reconcileDeletion env b s))"
  by (auto simp: reconcileDeletion_def intro!: q_rules q_teardown q_release q_teardownError split: sum.splits)

lemma q_removal: "R s (snd (reconcileRemoval env s))"
  by (auto simp: reconcileRemoval_def Let_def intro!: q_rules q_teardown q_release q_teardownError split: sum.splits)

end

interpretation dec: pass_teardown "quiet declare_data" env for env
proof
  show "plain_op op \<Longrightarrow> quiet declare_data s (act (ActDrbd op b) (s\<lparr>vr_drv := d\<rparr>))" for op b s d
    by (cases op) (simp_all add: quiet_act)
qed (simp_all add: quiet_act quiet_same)

section \<open>Data generations\<close>

text \<open>A volume that never held data, and when a leg's disk may be declared the data of the volume: at its
  birth, or as the clone that seeds a restore.\<close>

definition unheld :: "MiroirVolume \<Rightarrow> bool" where
  "unheld v \<longleftrightarrow> \<not> activated (status v) \<and> \<not> formatted (status v)"

definition may_birth :: "MiroirVolume \<Rightarrow> bool" where
  "may_birth v \<longleftrightarrow> unheld v \<and> source (spec v) = None \<and> (\<forall>rep\<in>set (replicas (spec v)). \<not> r_fullSync rep)"

definition may_seed :: "vol_env \<Rightarrow> MiroirVolume \<Rightarrow> bool" where
  "may_seed env v \<longleftrightarrow> (\<exists>src seed. source (spec v) = Some src \<and> src_padForMetadata src \<and>
     FirstDiskfulReplica (spec v) = Some seed \<and> r_node seed = ve_node env \<and> \<not> r_fullSync seed) \<and>
     (\<forall>n. n \<noteq> ve_node env \<longrightarrow> st_diskState (status_of v n) \<noteq> DiskUpToDate)"

text \<open>Up to the latch a pass keeps its view of the volume but for this node's slot, and mints only what the
  view allows.\<close>

definition view_kept :: "vol_env \<Rightarrow> MiroirVolume \<Rightarrow> MiroirVolume \<Rightarrow> bool" where
  "view_kept env v w \<longleftrightarrow> spec w = spec v \<and> activated (status w) = activated (status v) \<and>
     formatted (status w) = formatted (status v) \<and> (\<forall>n. n \<noteq> ve_node env \<longrightarrow> status_of w n = status_of v n)"

fun minted :: "vol_env \<Rightarrow> MiroirVolume \<Rightarrow> vol_act \<Rightarrow> bool" where
  "minted env v (ActDrbd OpInitialUUID ok) = may_birth v"
| "minted env v (ActDrbd OpForceFullSyncSource ok) = may_seed env v"
| "minted env v a = (\<not> declare_data a \<and> a \<noteq> ActActivated)"

definition minting :: "vol_env \<Rightarrow> vr \<Rightarrow> vr \<Rightarrow> bool" where
  "minting env s t \<longleftrightarrow> view_kept env (vr_vol s) (vr_vol t) \<and>
     (\<exists>new. vr_acts t = vr_acts s @ new \<and> list_all (minted env (vr_vol s)) new)"

text \<open>From the latch on it only discards, and only while no data is known of; the latch ends that.\<close>

definition discarding :: "vr \<Rightarrow> vr \<Rightarrow> bool" where
  "discarding s t \<longleftrightarrow> (unheld (vr_vol t) \<longrightarrow> unheld (vr_vol s)) \<and>
     (\<exists>new. vr_acts t = vr_acts s @ new \<and> (ActActivated \<in> set new \<longrightarrow> \<not> unheld (vr_vol t)) \<and>
       (\<forall>pre a post. new = pre @ a # post \<longrightarrow> declare_data a \<longrightarrow>
         (\<exists>r ok. a = ActDrbd (OpResolveSplitBrain r) ok) \<and> unheld (vr_vol s) \<and> ActActivated \<notin> set pre))"

lemma minted_view: "view_kept env v w \<Longrightarrow> minted env w a = minted env v a"
  by (cases "(env, w, a)" rule: minted.cases) (auto simp: view_kept_def may_birth_def may_seed_def unheld_def)

lemma view_refl: "view_kept env v v" and view_trans: "view_kept env u v \<Longrightarrow> view_kept env v w \<Longrightarrow> view_kept env u w"
  by (auto simp: view_kept_def)

lemma view_setSlot: "view_kept env v (setSlot env x v)"
  by (auto simp: view_kept_def setSlot_def Let_def status_of_def update_conv' split: prod.splits)

lemma minting_act:
  "minted env (vr_vol s) a \<Longrightarrow> vr_acts t = vr_acts s \<Longrightarrow> view_kept env (vr_vol s) (vr_vol t) \<Longrightarrow> minting env s (act a t)"
  by (simp add: minting_def act_def)

interpretation mint: pass_create "minting env" env for env
proof
  show "minting env s s" for s by (simp add: minting_def view_refl)
  show "minting env s u" if "minting env s t" "minting env t u" for s t u
    using that minted_view [of env "vr_vol s" "vr_vol t"] view_trans [of env "vr_vol s" "vr_vol t"]
    by (auto simp: minting_def list_all_iff)
  show "plain_op op \<Longrightarrow> minting env s (act (ActDrbd op b) (s\<lparr>vr_drv := d\<rparr>))" for op s b d
    by (cases op) (simp_all add: minting_act view_refl)
qed (simp_all add: minting_act view_refl view_setSlot, simp add: minting_def view_refl)

lemma discarding_append:
  assumes "discarding s t" "discarding t u"
  shows "discarding s u"
proof -
  obtain xs ys where x: "vr_acts t = vr_acts s @ xs" "ActActivated \<in> set xs \<Longrightarrow> \<not> unheld (vr_vol t)"
      "\<And>pre a post. xs = pre @ a # post \<Longrightarrow> declare_data a \<Longrightarrow>
        (\<exists>r ok. a = ActDrbd (OpResolveSplitBrain r) ok) \<and> unheld (vr_vol s) \<and> ActActivated \<notin> set pre"
    and y: "vr_acts u = vr_acts t @ ys" "ActActivated \<in> set ys \<Longrightarrow> \<not> unheld (vr_vol u)"
      "\<And>pre a post. ys = pre @ a # post \<Longrightarrow> declare_data a \<Longrightarrow>
        (\<exists>r ok. a = ActDrbd (OpResolveSplitBrain r) ok) \<and> unheld (vr_vol t) \<and> ActActivated \<notin> set pre"
    using assms unfolding discarding_def by blast
  have u: "unheld (vr_vol u) \<Longrightarrow> unheld (vr_vol t)" "unheld (vr_vol t) \<Longrightarrow> unheld (vr_vol s)"
    using assms unfolding discarding_def by blast+
  have "(\<exists>r ok. a = ActDrbd (OpResolveSplitBrain r) ok) \<and> unheld (vr_vol s) \<and> ActActivated \<notin> set pre"
    if eq: "xs @ ys = pre @ a # post" and d: "declare_data a" for pre a post
  proof -
    consider us where "xs = pre @ a # us" | vs where "pre = xs @ vs" "ys = vs @ a # post"
      using eq unfolding append_eq_append_conv2 append_eq_Cons_conv by (metis append_Nil append_Nil2)
    then show ?thesis using x y u d by cases auto
  qed
  then show ?thesis unfolding discarding_def using x y u by (intro conjI exI [of _ "xs @ ys"]) auto
qed

lemma discarding_act:
  assumes "\<not> declare_data a" "vr_acts t = vr_acts s" "unheld (vr_vol t) \<Longrightarrow> unheld (vr_vol s)"
    "a = ActActivated \<Longrightarrow> \<not> unheld (vr_vol t)"
  shows "discarding s (act a t)"
  unfolding discarding_def using assms by (auto simp: act_def Cons_eq_append_conv)

lemma unheld_setSlot: "unheld (setSlot env x v) = unheld v"
  by (simp add: unheld_def setSlot_def Let_def split: prod.splits)

interpretation disc: pass_relation discarding env for env
proof
  show "discarding s s" for s by (simp add: discarding_def)
  show "discarding s t \<Longrightarrow> discarding t u \<Longrightarrow> discarding s u" for s t u by (rule discarding_append)
  show "plain_op op \<Longrightarrow> discarding s (act (ActDrbd op b) (s\<lparr>vr_drv := d\<rparr>))" for op s b d
    by (cases op) (auto intro: discarding_act)
  show "vr_acts t = vr_acts s \<Longrightarrow> vr_vol t = vr_vol s \<Longrightarrow> discarding s t" for s t by (simp add: discarding_def)
qed (auto intro!: discarding_act simp: unheld_setSlot)

interpretation gen: two_phases "minting env" discarding for env
  by unfold_locales
lemma zero_up: "st_diskState zero_status \<noteq> DiskUpToDate"
  by (simp add: zero_status_def DiskUpToDate_def)

lemma mint_generations:
  "minting env s (snd (mintGenerations env r st b s))"
proof -
  have birth: "minting env s (snd (mintBirthUUID env r st b s))" for s
  proof (cases "birthInitPending (vr_vol s) st (ve_node env) b \<and> IsWinner r")
    case True
    then have "may_birth (vr_vol s)"
      by (auto simp: birthInitPending_def may_birth_def unheld_def list_all_iff)
    then have "minting env s (snd (onDrbd OpInitialUUID m s))" for m :: "unit step"
      by (cases "m (vr_drv s)") (auto simp: onDrbd_def intro!: minting_act view_refl)
    then show ?thesis using True by (auto simp: mintBirthUUID_def intro!: mint.at_then mint.q_status)
  qed (auto simp: mintBirthUUID_def mint.refl)
  have seed: "minting env s (snd (mintRestoreSeedUUID env st b s))" for s st
  proof (cases "restoreSeedStuckPrimary (vr_vol s) st (ve_node env) b \<or> \<not> restoreSeedPending env s st b")
    case True
    then show ?thesis
      by (auto simp: mintRestoreSeedUUID_def Let_def intro!: mint.q_rules mint.q_status split: sum.splits)
  next
    case False
    then have "may_seed env (vr_vol s)"
      by (auto simp: restoreSeedPending_def restoreSeed_def may_seed_def Let_def list_all_iff status_of_def zero_up
          split: option.splits dest: map_of_SomeD)
    then have "minting env s (snd (onDrbd OpForceFullSyncSource m s))" for m :: "unit step"
      by (cases "m (vr_drv s)") (auto simp: onDrbd_def intro!: minting_act view_refl)
    then show ?thesis using False by (auto simp: mintRestoreSeedUUID_def Let_def intro!: mint.at_then mint.q_status)
  qed
  show ?thesis unfolding mintGenerations_def by (intro mint.at_bind birth seed)
qed
text \<open>What a merge patch of the latch answers carries the latch.\<close>

definition latch_sticks :: "vol_env \<Rightarrow> bool" where
  "latch_sticks env \<longleftrightarrow> (\<forall>s v. ve_patch env s ActActivated = Inr v \<longrightarrow> activated (status v))"

lemma discarding_latch: "latch_sticks env \<Longrightarrow> discarding s (snd (latchActivated env st s))"
  by (auto simp: latchActivated_def mergePatch_def latch_sticks_def unheld_def intro!: discarding_act disc.refl split: sum.splits)

lemma discarding_split: "discarding s (snd (handleSplitBrain env r st c s))"
proof -
  have "discarding s (snd (onDrbd (OpResolveSplitBrain r) m t))"
    if "vr_acts t = vr_acts s" "vr_vol t = vr_vol s" "unheld (vr_vol s)" for t and m :: "unit step"
    using that by (cases "m (vr_drv t)") (auto simp: discarding_def onDrbd_def act_def Cons_eq_append_conv)
  then have mark: "discarding s (snd (thenS (attempt (onDrbd (OpResolveSplitBrain r) m)) (ret y) t))"
    if "vr_acts t = vr_acts s" "vr_vol t = vr_vol s" "unheld (vr_vol s)" for t y and m :: "unit step"
    using that by (auto simp: step_defs split: prod.splits) (metis snd_conv)+
  have "discarding s (snd (recoverSplitBrain env r s))"
    by (auto simp: recoverSplitBrain_def Let_def disc.R_memory disc.refl unheld_def intro!: mark split: option.splits)
  then show ?thesis by (auto simp: handleSplitBrain_def intro!: disc.at_then disc.at_ret disc.refl)
qed

lemma discarding_settle: "latch_sticks env \<Longrightarrow> discarding s (snd (settleLeg env r st b p m d s))"
  unfolding settleLeg_def
  by (intro disc.q_rules discarding_latch disc.q_orReport disc.q_grow, assumption, clarsimp,
      intro disc.q_rules discarding_split disc.q_stuck disc.q_settled)

lemma gen_replicate:
  assumes "latch_sticks env"
  shows "(minting env OO discarding) s (snd (replicateLeg env b p ty d s))"
proof -
  have settle: "(minting env OO discarding) t (snd (settleLeg env r st b p m g t))" for t r st m g
    by (rule gen.ph_second [OF discarding_settle [OF assms]])
  have tail: "(minting env OO discarding) t (snd (thenS (orReport env (onDrbd (OpApply r) (Apply (ve_driver env) r)))
       (bindS (orReport env (driverStatus env)) (\<lambda>st0.
        bindS (orReport env (mintGenerations env r st0 b)) (\<lambda>st. settleLeg env r st b p m g))) t))" for t r m g
    by (intro gen.ph_then gen.ph_bind mint.q_orReport mint.q_onDrbd mint.q_status mint_generations settle) simp
  show ?thesis unfolding replicateLeg_def
    by (intro gen.ph_bind mint.q_orReport mint.q_minor mint.q_discard)
      (auto simp: Let_def intro!: tail gen.ph_first mint.refl split: option.splits)
qed

lemma gen_realize:
  assumes "latch_sticks env"
  shows "(minting env OO discarding) s (snd (realize env mine b s))"
proof (cases b)
  case False
  show ?thesis unfolding realize_def Let_def if_not_P [OF False]
    by (rule gen.ph_bind [OF mint.q_diskful])
      (auto intro!: gen_replicate [OF assms] intro: gen.ph_first mint.at_ret mint.q_unreplicated split: sum.splits)
qed (simp add: realize_def Let_def gen_replicate [OF assms])

lemma leg_generations:
  assumes "latch_sticks env"
  shows "quiet declare_data s (snd (reconcileLeg env s)) \<or> (minting env OO discarding) s (snd (reconcileLeg env s))"
proof -
  obtain mine diskless present incomplete where leg: "legState (vr_vol s) (ve_node env) = (mine, diskless, present, incomplete)"
    by (cases "legState (vr_vol s) (ve_node env)") auto
  show ?thesis
  proof (cases "deletionTimestamp (vr_vol s) = None \<and> present")
    case True
    have go: "(minting env OO discarding) t (snd (thenS (mem (dropRealized n)) (realize env mine diskless) t))" for n t
      by (intro gen.ph_then mint.q_mem gen_realize [OF assms]) simp_all
    have fast: "(minting env OO discarding) t (snd (bindS (fastPath env diskless) (\<lambda>x. case x of
        Some requeue \<Rightarrow> ret requeue | None \<Rightarrow> thenS (mem (dropRealized n)) (realize env mine diskless)) t))" for n t
      by (rule gen.ph_bind [OF mint.q_fastPath]) (auto intro!: go intro: gen.ph_first mint.at_ret split: option.splits)
    have "(minting env OO discarding) s (snd (reconcileLeg env s))"
      unfolding reconcileLeg_def leg Let_def using True
      by (auto intro!: gen.ph_then mint.q_mem fast intro: gen.ph_first mint.at_ret)
    then show ?thesis by simp
  next
    case False
    then have "quiet declare_data s (snd (reconcileLeg env s))"
      unfolding reconcileLeg_def leg Let_def using dec.q_deletion dec.q_removal by auto
    then show ?thesis by simp
  qed
qed
text \<open>
  C7. Data a volume has held is never declared void. In the actions of a pass of the volume reconciler:
  the birth generation, which declares every leg in sync without looking, is minted only on a volume
  that was neither activated nor formatted, was not restored and has no leg joining by full sync; the
  seed generation, which makes this leg the source of a full sync to every other, only on the node
  whose leg is the clone a padded restore starts from, and not while another leg is up to date; and a
  split brain is resolved by discarding only on a volume neither activated nor formatted, never after
  the same pass has latched the volume as activated. The API server's answer to the merge patch of the
  latch is assumed to carry the latch.
\<close>

theorem held_data_kept:
  assumes "ve_get env = Inr v" and "\<forall>s w. ve_patch env s ActActivated = Inr w \<longrightarrow> activated (status w)"
  shows "\<exists>new. vr_acts (snd (volume_Reconcile env name s)) = vr_acts s @ new \<and>
    (\<forall>pre a post ok. new = pre @ a # post \<longrightarrow>
      (a = ActDrbd OpInitialUUID ok \<longrightarrow> unheld v \<and> source (spec v) = None \<and>
        (\<forall>rep\<in>set (replicas (spec v)). \<not> r_fullSync rep)) \<and>
      (a = ActDrbd OpForceFullSyncSource ok \<longrightarrow> may_seed env v) \<and>
      (\<forall>r. a = ActDrbd (OpResolveSplitBrain r) ok \<longrightarrow> unheld v \<and> ActActivated \<notin> set pre))"
proof -
  let ?s = "s\<lparr>vr_vol := v\<rparr>"
  let ?t = "snd (reconcileLeg env ?s)"
  have pass: "volume_Reconcile env name s = reconcileLeg env ?s" using assms(1) by (simp add: volume_Reconcile_def)
  have "latch_sticks env" using assms(2) by (simp add: latch_sticks_def)
  then consider (quiet) "quiet declare_data ?s ?t" | (declared) u where "minting env ?s u" "discarding u ?t"
    using leg_generations [of env ?s] by blast
  then show ?thesis
  proof cases
    case quiet
    then show ?thesis unfolding pass quiet_def by auto
  next
    case declared
    obtain xs where x: "vr_acts u = vr_acts s @ xs" "\<forall>a\<in>set xs. minted env v a" "view_kept env v (vr_vol u)"
      using declared(1) by (auto simp: minting_def list_all_iff)
    have held: "unheld (vr_vol u) = unheld v" using x(3) by (simp add: view_kept_def unheld_def)
    obtain ys where y: "vr_acts ?t = vr_acts u @ ys"
        "\<And>pre a post. ys = pre @ a # post \<Longrightarrow> declare_data a \<Longrightarrow>
          (\<exists>r ok. a = ActDrbd (OpResolveSplitBrain r) ok) \<and> unheld v \<and> ActActivated \<notin> set pre"
      using declared(2) held unfolding discarding_def by auto
    have latch: "ActActivated \<notin> set xs" using x(2) by auto
    have "(a = ActDrbd OpInitialUUID ok \<longrightarrow> may_birth v) \<and> (a = ActDrbd OpForceFullSyncSource ok \<longrightarrow> may_seed env v) \<and>
        (\<forall>r. a = ActDrbd (OpResolveSplitBrain r) ok \<longrightarrow> unheld v \<and> ActActivated \<notin> set pre)"
      if eq: "xs @ ys = pre @ a # post" for pre a post ok
    proof -
      consider us where "xs = pre @ a # us" | vs where "pre = xs @ vs" "ys = vs @ a # post"
        using eq unfolding append_eq_append_conv2 append_eq_Cons_conv by (metis append_Nil append_Nil2)
      then show ?thesis
      proof cases
        case 1
        then show ?thesis using x(2) by auto
      next
        case 2
        then show ?thesis using y(2) [of vs a post] latch by auto
      qed
    qed
    then show ?thesis unfolding pass y(1) x(1) may_birth_def by (intro exI [of _ "xs @ ys"]) simp
  qed
qed

text \<open>A pair of legs in use whose links broke on a split brain: the pass declares nothing.\<close>

definition split_volume :: MiroirVolume where
  "split_volume = example_volume (example_spec
     [example_replica ''a'' 0 ''10.0.0.1'', example_replica ''b'' 1 ''10.0.0.2''] []) []"

definition split_json :: jsonStatus where
  "split_json = \<lparr>js_name = ''pvc-1'', js_role = ''Secondary'', js_suspendedUser = False, js_devices = [(DiskUpToDate, True)],
     js_connections = [\<lparr>jc_peerNodeID = 1, jc_connectionState = ''StandAlone'', jc_peerRole = ''Unknown'', jc_peerDevices = []\<rparr>]\<rparr>"

definition split_node :: vol_env where
  "split_node = (quiet_node split_volume)
     \<lparr>ve_driver := calm\<lparr>x_list := (\<lambda>_ _. Listed [split_json])\<rparr>,
      ve_patch := (\<lambda>s _. Inr ((vr_vol s)\<lparr>status := (status (vr_vol s))\<lparr>activated := True\<rparr>\<rparr>))\<rparr>"

theorem held_data_kept_witness:
  "filter declare_data (vr_acts (snd (volume_Reconcile split_node ''pvc-1'' idle))) = []"
proof -
  let ?acts = "vr_acts (snd (volume_Reconcile split_node ''pvc-1'' idle))"
  have h: "ve_get split_node = Inr split_volume"
    "\<forall>s w. ve_patch split_node s ActActivated = Inr w \<longrightarrow> activated (status w)" and i: "vr_acts idle = []"
    by (auto simp: split_node_def quiet_node_def idle_def)
  have v: "\<not> unheld split_volume" "\<not> may_seed split_node split_volume"
    by (simp_all add: unheld_def may_seed_def split_volume_def example_volume_def example_spec_def)
  have "\<not> declare_data a" if a: "a \<in> set ?acts" for a
  proof -
    obtain pre post where "?acts = pre @ a # post" using a split_list by fastforce
    then show ?thesis using held_data_kept [OF h, of "''pvc-1''" idle] i v
      by (cases a rule: declare_data.cases) auto
  qed
  then show ?thesis by (simp add: filter_empty_conv)
qed

section \<open>Restores\<close>

fun creation :: "vol_act \<Rightarrow> bool" where
  "creation (ActBackend p (BCreate n) ok) = True"
| "creation (ActBackend p (BCreateFromSnapshot u n) ok) = True"
| "creation a = False"

text \<open>Another leg of the volume that was cloned from the same snapshot and has its device.\<close>

definition peer_holds :: "vol_env \<Rightarrow> MiroirVolume \<Rightarrow> bool" where
  "peer_holds env v \<longleftrightarrow> drbd (spec v) \<noteq> None \<and> (\<exists>rep\<in>set (replicas (spec v)). \<not> r_diskless rep \<and> \<not> r_fullSync rep \<and>
     r_node rep \<noteq> ve_node env \<and> st_deviceCreated (status_of v (r_node rep)))"

definition cloned :: "vol_act list \<Rightarrow> bool" where
  "cloned acts \<longleftrightarrow> (\<exists>p u n. ActBackend p (BCreateFromSnapshot u n) True \<in> set acts)"

definition from_source :: "vol_env \<Rightarrow> MiroirVolume \<Rightarrow> string \<Rightarrow> string \<Rightarrow> bool" where
  "from_source env v u n \<longleftrightarrow> (\<exists>src t snap. source (spec v) = Some src \<and> ve_getSnap env t (src_snapshotName src) = Inr snap \<and>
     u = sn_volumeName snap \<and> n = sn_name snap)"

fun filled :: "vol_env \<Rightarrow> MiroirVolume \<Rightarrow> vol_act list \<Rightarrow> vol_act \<Rightarrow> bool" where
  "filled env v pre (ActBackend p (BCreate n) ok) = (cloned pre \<or> peer_holds env v)"
| "filled env v pre (ActBackend p (BCreateFromSnapshot u n) ok) = from_source env v u n"
| "filled env v pre a = True"

definition restoring :: "vol_env \<Rightarrow> vr \<Rightarrow> vr \<Rightarrow> bool" where
  "restoring env s t \<longleftrightarrow> view_kept env (vr_vol s) (vr_vol t) \<and>
     (\<exists>new. vr_acts t = vr_acts s @ new \<and> (\<forall>pre a post. new = pre @ a # post \<longrightarrow> filled env (vr_vol s) pre a))"

lemma filled_view: "view_kept env v w \<Longrightarrow> filled env w pre a = filled env v pre a"
  by (cases "(env, w, pre, a)" rule: filled.cases) (auto simp: view_kept_def peer_holds_def from_source_def)

lemma filled_more: "filled env v pre a \<Longrightarrow> filled env v (xs @ pre) a"
  by (cases "(env, v, pre, a)" rule: filled.cases) (auto simp: cloned_def)

lemma filled_quiet: "\<not> creation a \<Longrightarrow> filled env v pre a"
  by (cases a rule: creation.cases) auto

lemma append_middle:
  assumes "xs @ ys = pre @ a # post"
  obtains us where "xs = pre @ a # us" | vs where "pre = xs @ vs" "ys = vs @ a # post"
  using assms unfolding append_eq_append_conv2 append_eq_Cons_conv by (metis append_Nil append_Nil2)

lemma restoring_trans:
  assumes "restoring env s t" "restoring env t u"
  shows "restoring env s u"
proof -
  obtain xs ys where x: "vr_acts t = vr_acts s @ xs" "\<And>pre a post. xs = pre @ a # post \<Longrightarrow> filled env (vr_vol s) pre a"
    and y: "vr_acts u = vr_acts t @ ys" "\<And>pre a post. ys = pre @ a # post \<Longrightarrow> filled env (vr_vol t) pre a"
    and v: "view_kept env (vr_vol s) (vr_vol t)" "view_kept env (vr_vol t) (vr_vol u)"
    using assms unfolding restoring_def by blast
  have "filled env (vr_vol s) pre a" if "xs @ ys = pre @ a # post" for pre a post
    using append_middle [OF that] x(2) y(2) filled_view [OF v(1)] filled_more by metis
  then show ?thesis unfolding restoring_def using x(1) y(1) view_trans [OF v] by (intro conjI exI [of _ "xs @ ys"]) auto
qed

lemma restoring_act:
  "filled env (vr_vol s) [] a \<Longrightarrow> vr_acts t = vr_acts s \<Longrightarrow> view_kept env (vr_vol s) (vr_vol t) \<Longrightarrow> restoring env s (act a t)"
  by (auto simp: restoring_def act_def Cons_eq_append_conv)

interpretation rst: pass_relation "restoring env" env for env
proof
  show "restoring env s s" for s by (simp add: restoring_def view_refl)
  show "restoring env s t \<Longrightarrow> restoring env t u \<Longrightarrow> restoring env s u" for s t u by (rule restoring_trans)
qed (auto simp: view_refl view_setSlot intro!: restoring_act, simp add: restoring_def view_refl)

interpretation crt: pass_release "quiet creation" env for env
  by unfold_locales (simp_all add: quiet_act quiet_same)

interpretation crd: pass_teardown "quiet creation" env for env
  by unfold_locales (simp_all add: quiet_act)

interpretation res: two_phases "restoring env" "quiet creation" for env
  by unfold_locales

lemma finishClone_acts:
  "view_kept env (vr_vol s) (vr_vol (snd (finishClone env p s))) \<and>
    (\<exists>new. vr_acts (snd (finishClone env p s)) = vr_acts s @ new \<and>
      (\<forall>q u n ok. ActBackend q (BCreateFromSnapshot u n) ok \<notin> set new))"
  by (auto simp: finishClone_def step_defs onBackend_def onDrbd_def act_def Let_def view_refl split: prod.splits sum.splits)

text \<open>A successful clone covers what follows it.\<close>

lemma restoring_clone:
  assumes "from_source env (vr_vol s) u n"
  shows "restoring env s (snd (thenS (onBackend env p (BCreateFromSnapshot u n)) (finishClone env q) s))"
proof (cases "ve_backend env s p (BCreateFromSnapshot u n)")
  case (Inl e)
  then show ?thesis using assms by (auto simp: step_defs onBackend_def Let_def intro!: restoring_act view_refl)
next
  case (Inr d)
  let ?a = "ActBackend p (BCreateFromSnapshot u n) True"
  let ?t = "snd (finishClone env q (act ?a s))"
  obtain new where new: "vr_acts ?t = vr_acts (act ?a s) @ new" "\<And>q u n ok. ActBackend q (BCreateFromSnapshot u n) ok \<notin> set new"
    and v: "view_kept env (vr_vol (act ?a s)) (vr_vol ?t)"
    using finishClone_acts [of env "act ?a s" q] by blast
  have "filled env (vr_vol s) pre b" if b: "?a # new = pre @ b # post" for pre b post
  proof (cases pre)
    case Nil
    then show ?thesis using b assms by auto
  next
    case (Cons x xs)
    then have "cloned pre" "b \<in> set new" using b by (auto simp: cloned_def)
    then show ?thesis using new(2) by (cases b rule: creation.cases) auto
  qed
  then have "restoring env s ?t" using new(1) v by (auto simp: restoring_def act_def)
  then show ?thesis using Inr by (simp add: step_defs onBackend_def Let_def)
qed

lemma restoring_backing:
  assumes src: "source (spec (vr_vol s)) = Some src" and absent: "ve_exists env s p = Inr False"
  shows "restoring env s (snd (realizeBacking env p False s))"
proof (cases "ve_getSnap env s (src_snapshotName src)")
  case (Inl e)
  have "restoring env s (snd (onBackend env p (BCreate n) s))" if "peer_holds env (vr_vol s)" for n
    using that by (simp add: onBackend_def Let_def restoring_act view_refl)
  moreover have "peer_holds env (vr_vol s)" if "drbd (spec (vr_vol s)) \<noteq> None" "peerCloneRealized (vr_vol s) (ve_node env)"
    using that by (auto simp: peer_holds_def peerCloneRealized_def list_ex_iff DiskfulReplicas_def)
  ultimately show ?thesis using Inl src absent
    by (auto simp: realizeBacking_def bindS_def backendExists_def Let_def rst.refl)
next
  case (Inr snap)
  have fs: "from_source env (vr_vol t) (sn_volumeName snap) (sn_name snap)" if "spec (vr_vol t) = spec (vr_vol s)" for t
    using that src Inr by (auto simp: from_source_def)
  have "restoring env s (snd (thenS (if drbd (spec (vr_vol s)) = None
       then onDrbd OpInvalidateWipe (InvalidateForeignMetadataWipe (ve_driver env) (vname (vr_vol s))) else ret ())
     (thenS (onBackend env p (BCreateFromSnapshot (sn_volumeName snap) (sn_name snap))) (finishClone env p)) s))"
    by (rule rst.at_then)
      (auto intro!: rst.q_rules restoring_clone fs simp: ret_def dest: onDrbd_acts split: if_splits)
  then show ?thesis using Inr src absent by (simp add: realizeBacking_def bindS_def backendExists_def Let_def)
qed

lemma restoring_diskful:
  assumes src: "source (spec (vr_vol s)) = Some src" and absent: "\<And>t p. ve_exists env t p = Inr False"
  shows "restoring env s (snd (realizeDiskful env p False s))"
  unfolding realizeDiskful_def
proof (rule rst.at_bind, intro rst.q_orReport rst.q_poolGet)
  fix ty t
  assume t: "orReport env (poolGet env p) s = (Inr ty, t)"
  have "restoring env s (snd (orReport env (poolGet env p) s))" by (intro rst.q_orReport rst.q_poolGet)
  then have st: "restoring env s t" using t by simp
  have stale: "restoring env t (snd (orReport env (clearStaleBacking env p) t))"
    by (intro rst.q_orReport rst.q_stale)
  show "restoring env t (snd (thenS (orReport env (clearStaleBacking env p)) (bindS (attempt (realizeBacking env p False))
     (\<lambda>r. case r of Inl e \<Rightarrow> bindS (reportRealizeError env e) (\<lambda>d. ret (Inl d))
       | Inr dev \<Rightarrow> thenS (stampDeviceCreated env dev p) (ret (Inr (ty, dev))))) t))"
  proof (rule rst.at_then, rule stale)
    fix x u
    assume "orReport env (clearStaleBacking env p) t = (Inr x, u)"
    then have "restoring env s u" using stale restoring_trans [OF st] by simp
    then have "source (spec (vr_vol u)) = Some src" using src by (simp add: restoring_def view_kept_def)
    from restoring_backing [OF this absent]
    show "restoring env u (snd (bindS (attempt (realizeBacking env p False))
       (\<lambda>r. case r of Inl e \<Rightarrow> bindS (reportRealizeError env e) (\<lambda>d. ret (Inl d))
         | Inr dev \<Rightarrow> thenS (stampDeviceCreated env dev p) (ret (Inr (ty, dev)))) u))"
      by (rule rst.at_bind [OF rst.at_attempt])
        (auto intro!: rst.q_rules rst.q_realizeError rst.q_stamp split: sum.splits)
  qed
qed

lemma res_realize:
  assumes "source (spec (vr_vol s)) = Some src" and "\<And>t p. ve_exists env t p = Inr False"
    and leg: "\<not> (case mine of Some rep \<Rightarrow> r_fullSync rep | None \<Rightarrow> False)"
  shows "(restoring env OO quiet creation) s (snd (realize env mine b s))"
proof (cases b)
  case False
  show ?thesis unfolding realize_def Let_def if_not_P [OF False] using leg restoring_diskful [OF assms(1,2)]
    by (intro res.ph_bind)
      (auto intro: res.ph_second crt.q_replicate crt.q_unreplicated quiet.at_ret split: sum.splits)
qed (auto simp: realize_def intro!: res.ph_second crt.q_replicate)

lemma res_leg:
  assumes src: "source (spec (vr_vol s)) = Some src" and absent: "\<And>t p. ve_exists env t p = Inr False"
    and leg: "\<forall>rep\<in>set (replicas (spec (vr_vol s))). r_node rep = ve_node env \<longrightarrow> \<not> r_fullSync rep"
  shows "(restoring env OO quiet creation) s (snd (reconcileLeg env s))"
proof -
  obtain mine diskless present incomplete where l: "legState (vr_vol s) (ve_node env) = (mine, diskless, present, incomplete)"
    by (cases "legState (vr_vol s) (ve_node env)") auto
  have full: "\<not> (case mine of Some rep \<Rightarrow> r_fullSync rep | None \<Rightarrow> False)"
    using l leg by (auto simp: legState_def Let_def find_Some_iff split: option.splits)
  have go: "(restoring env OO quiet creation) t (snd (thenS (mem (dropRealized n)) (realize env mine diskless) t))"
    if "restoring env s t" for n t
  proof (rule res.ph_then [OF rst.q_mem])
    fix x u
    assume "mem (dropRealized n) t = (Inr x, u)"
    then have "vr_vol u = vr_vol t" by (auto simp: mem_def)
    then show "(restoring env OO quiet creation) u (snd (realize env mine diskless u))"
      using res_realize [OF _ absent full, of u src] that src by (simp add: restoring_def view_kept_def)
  qed simp_all
  have fast: "(restoring env OO quiet creation) t (snd (bindS (fastPath env diskless) (\<lambda>x. case x of
      Some requeue \<Rightarrow> ret requeue | None \<Rightarrow> thenS (mem (dropRealized n)) (realize env mine diskless)) t))"
    if t: "restoring env s t" for n t
  proof (rule res.ph_bind [OF rst.q_fastPath])
    fix x u
    assume u: "fastPath env diskless t = (Inr x, u)"
    then have "restoring env s u" using restoring_trans [OF t rst.q_fastPath [of env t diskless]] by simp
    then show "(restoring env OO quiet creation) u (snd ((case x of Some requeue \<Rightarrow> ret requeue
        | None \<Rightarrow> thenS (mem (dropRealized n)) (realize env mine diskless)) u))"
      using go by (auto intro: res.ph_second quiet.at_ret split: option.splits)
  qed
  show ?thesis
  proof (cases "deletionTimestamp (vr_vol s) = None \<and> present")
    case True
    have "restoring env s t" if "mem (clearBusyFails n) s = (Inr x, t)" for n x t
      using that by (auto simp: mem_def intro: rst.R_memory)
    then show ?thesis unfolding reconcileLeg_def l Let_def using True fast
      by (auto intro!: res.ph_then rst.q_mem intro: res.ph_second quiet.at_ret)
  next
    case False
    then show ?thesis unfolding reconcileLeg_def l Let_def
      by (auto intro!: res.ph_second crd.q_deletion crd.q_removal)
  qed
qed

text \<open>
  C8. A restore never passes a blank device for the snapshot's data. Take a pass of the volume reconciler
  on a restored volume, on a node whose leg does not join by full sync and whose backends hold no device
  of the volume yet: a fresh device is created only after a clone succeeded in the same pass, or on a
  replicated volume of which another leg's clone has been realized, to be filled from that leg. What is
  cloned is the snapshot that the volume's source names, as the API server answered it.
\<close>

theorem restore_never_blank:
  assumes "ve_get env = Inr v" and "source (spec v) = Some src" and "\<forall>t p. ve_exists env t p = Inr False"
    and "\<forall>rep\<in>set (replicas (spec v)). r_node rep = ve_node env \<longrightarrow> \<not> r_fullSync rep"
  shows "\<exists>new. vr_acts (snd (volume_Reconcile env name s)) = vr_acts s @ new \<and>
    (\<forall>pre a post p ok. new = pre @ a # post \<longrightarrow>
      (\<forall>n. a = ActBackend p (BCreate n) ok \<longrightarrow>
        (\<exists>q u k. ActBackend q (BCreateFromSnapshot u k) True \<in> set pre) \<or> peer_holds env v) \<and>
      (\<forall>u k. a = ActBackend p (BCreateFromSnapshot u k) ok \<longrightarrow>
        (\<exists>t snap. ve_getSnap env t (src_snapshotName src) = Inr snap \<and> u = sn_volumeName snap \<and> k = sn_name snap)))"
proof -
  let ?s = "s\<lparr>vr_vol := v\<rparr>"
  let ?t = "snd (reconcileLeg env ?s)"
  have pass: "volume_Reconcile env name s = reconcileLeg env ?s" using assms(1) by (simp add: volume_Reconcile_def)
  obtain u where u: "restoring env ?s u" "quiet creation u ?t" using res_leg [of ?s src env] assms by auto
  obtain xs where x: "vr_acts u = vr_acts s @ xs" "\<And>pre a post. xs = pre @ a # post \<Longrightarrow> filled env v pre a"
    using u(1) by (auto simp: restoring_def)
  obtain ys where y: "vr_acts ?t = vr_acts u @ ys" "\<forall>a\<in>set ys. \<not> creation a" using u(2) by (auto simp: quiet_def list_all_iff)
  have "filled env v pre a" if "xs @ ys = pre @ a # post" for pre a post
    using append_middle [OF that] x(2) y(2) filled_quiet [of a env v pre] by (metis in_set_conv_decomp)
  then show ?thesis unfolding pass y(1) x(1) using assms(2)
    by (intro exI [of _ "xs @ ys"]) (fastforce simp: cloned_def from_source_def)
qed

text \<open>A restore whose snapshot is gone and that no other leg has realized creates nothing.\<close>

definition orphan_volume :: MiroirVolume where
  "orphan_volume = example_volume ((example_spec
     [example_replica ''a'' 0 ''10.0.0.1'', (example_replica ''b'' 1 ''10.0.0.2'')\<lparr>r_fullSync := True\<rparr>] [])
     \<lparr>source := Some \<lparr>src_snapshotName = ''snap-1'', src_padForMetadata = True\<rparr>\<rparr>) []"

definition orphan_node :: vol_env where
  "orphan_node = (quiet_node orphan_volume)\<lparr>ve_exists := (\<lambda>_ _. Inr False)\<rparr>"

theorem restore_never_blank_witness:
  "filter creation (vr_acts (snd (volume_Reconcile orphan_node ''pvc-1'' idle))) = []"
proof -
  let ?acts = "vr_acts (snd (volume_Reconcile orphan_node ''pvc-1'' idle))"
  have h: "ve_get orphan_node = Inr orphan_volume"
    "source (spec orphan_volume) = Some \<lparr>src_snapshotName = ''snap-1'', src_padForMetadata = True\<rparr>"
    "\<forall>t p. ve_exists orphan_node t p = Inr False"
    "\<forall>rep\<in>set (replicas (spec orphan_volume)). r_node rep = ve_node orphan_node \<longrightarrow> \<not> r_fullSync rep"
    and i: "vr_acts idle = []" "\<not> peer_holds orphan_node orphan_volume" "\<And>t n. ve_getSnap orphan_node t n = Inl NotFound"
    by (simp_all add: orphan_node_def orphan_volume_def quiet_node_def idle_def peer_holds_def example_volume_def
        example_spec_def example_replica_def bare_replica_def)
  have rule: "(\<forall>n. a = ActBackend p (BCreate n) ok \<longrightarrow> (\<exists>q u k. ActBackend q (BCreateFromSnapshot u k) True \<in> set pre)) \<and>
      (\<forall>u k. a \<noteq> ActBackend p (BCreateFromSnapshot u k) ok)" if "?acts = pre @ a # post" for pre a post p ok
  proof -
    obtain new where n: "?acts = new" "new = pre @ a # post \<Longrightarrow>
        (\<forall>n. a = ActBackend p (BCreate n) ok \<longrightarrow>
          (\<exists>q u k. ActBackend q (BCreateFromSnapshot u k) True \<in> set pre) \<or> peer_holds orphan_node orphan_volume) \<and>
        (\<forall>u k. a = ActBackend p (BCreateFromSnapshot u k) ok \<longrightarrow> (\<exists>t snap. ve_getSnap orphan_node t ''snap-1'' = Inr snap))"
      using restore_never_blank [OF h, of "''pvc-1''" idle] i(1) by fastforce
    from n(2) show ?thesis using that i n(1) by simp
  qed
  have clone: "ActBackend p (BCreateFromSnapshot u k) ok \<notin> set ?acts" for p u k ok
    using rule by (metis split_list)
  have "\<not> creation a" if a: "a \<in> set ?acts" for a
  proof -
    obtain pre post where eq: "?acts = pre @ a # post" using a by (meson split_list)
    then show ?thesis using rule [OF eq] clone
      by (cases a rule: creation.cases) (auto simp del: split_paired_Ex)
  qed
  then show ?thesis by (simp add: filter_empty_conv)
qed

section \<open>The end of a teardown held up\<close>

lemma contains_append: "contains b x \<Longrightarrow> contains (a @ b) x"
proof -
  assume "contains b x"
  then obtain i where "i \<in> set [0..<length b + 1]" "has_prefix (drop i b) x" unfolding contains_def list_ex_iff by blast
  then show ?thesis unfolding contains_def list_ex_iff by (intro bexI [of _ "length a + i"]) auto
qed

text \<open>A volume being deleted whose device is held open by exited processes only, on a node where the rest
  of the reclaim works: every down fails with the busy answer, no opener is alive, no mount table lists
  the device, and the detach, the deletes and the writes go through. \<open>K\<close> is what the driver's state keeps
  meanwhile.\<close>

definition held_by_dead :: "(drv \<Rightarrow> bool) \<Rightarrow> string \<Rightarrow> vol_env \<Rightarrow> bool" where
  "held_by_dead K name env \<longleftrightarrow> (\<exists>v e. ve_get env = Inr v \<and> vname v = name \<and> deletionTimestamp v \<noteq> None \<and>
     drbd (spec v) \<noteq> None \<and> FinalizerPrefix @ ve_node env \<in> set (finalizers v) \<and>
     (let minor = st_drbdMinor (status_of v (ve_node env)); pids = openerPids (e_text (Busy e))
      in 0 < minor \<and> \<not> is_wedged e \<and> contains (e_text e) ''held open'' \<and>
         pids \<noteq> [] \<and> list_all (\<lambda>p. \<not> ve_pidAlive env p) pids \<and> deviceMountedAnywhere (ve_procs env) minor = Some False \<and>
         (\<forall>d. K d \<longrightarrow> (\<exists>d1 d2 d3. Down (ve_driver env) name d = (Inl e, d1) \<and> K d1 \<and>
            ForceDetach (ve_driver env) name minor d1 = (Inr (), d2) \<and> RemoveConfig (ve_driver env) name d2 = (Inr (), d3)))) \<and>
     (\<forall>t p. \<not> isl (ve_backend env t p BDelete)) \<and> (\<forall>t a. ve_write env t a = None))"

text \<open>One pass after the other, each on what it reads then.\<close>

definition passes :: "string \<Rightarrow> vol_env list \<Rightarrow> vr \<Rightarrow> vr" where
  "passes name envs s = fold (\<lambda>env t. snd (volume_Reconcile env name t)) envs s"

lemma passes_snoc: "passes name (xs @ [env]) s = snd (volume_Reconcile env name (passes name xs s))"
  by (simp add: passes_def)

lemma Busy_held: "contains (e_text e) ''held open'' \<Longrightarrow>
    Busy e = DrvError ErrBusy (''backend resource busy: '' @ e_text e) \<and> contains (e_text (Busy e)) ''held open''"
  using contains_append [of "e_text e" "''held open''" "''backend resource busy: ''"] by (simp add: Busy_def)

lemma busyFailCount_update: "busyFailCount n (s\<lparr>vr_busyFails := AList.update n k (vr_busyFails s)\<rparr>) = k"
  by (simp add: busyFailCount_def update_conv')

text \<open>A report leaves the driver and the busy streak alone.\<close>

definition steady :: "vr \<Rightarrow> vr \<Rightarrow> bool" where
  "steady s t \<longleftrightarrow> vr_drv t = vr_drv s \<and> vr_busyFails t = vr_busyFails s"

interpretation std: step_relation steady
  by unfold_locales (simp_all add: steady_def)

lemma steady_reports: "steady s (snd (event x s))" "steady s (snd (parkWithMessage env e d s))"
proof -
  show "steady s (snd (event x s))" by (simp add: event_def act_def steady_def)
  have "steady s (snd (patchStatus env st s))" for st by (simp add: patchStatus_def writeApi_def act_def steady_def)
  then show "steady s (snd (parkWithMessage env e d s))" unfolding parkWithMessage_def by (intro std.at_core)
qed

lemma reportBusy_memory:
  fixes s :: vr
  defines "name \<equiv> vname (vr_vol s)"
  shows "steady (s\<lparr>vr_busyFails := AList.update name (busyFailCount name s + 1) (vr_busyFails s)\<rparr>) (snd (reportBusy env e s))"
  unfolding reportBusy_def Let_def name_def [symmetric]
  by (auto intro!: std.at_core std.refl steady_reports)

lemma held_down:
  assumes "ve_get env = Inr v" "vname v = name" "deletionTimestamp v \<noteq> None" "drbd (spec v) \<noteq> None"
    "FinalizerPrefix @ ve_node env \<in> set (finalizers v)" "\<not> is_wedged e"
    "Down (ve_driver env) name (vr_drv s) = (Inl e, d)"
  defines "t \<equiv> act (ActDrbd OpDown False) (s\<lparr>vr_vol := v, vr_drv := d\<rparr>)" and "slot \<equiv> status_of v (ve_node env)"
  shows "volume_Reconcile env name s =
    bindS (attempt (\<lambda>u. if orphanHold env u slot (Busy e) then reclaimOrphanHold env slot (Busy e) u else (Inl (Busy e), u)))
      (\<lambda>x. case x of Inl e \<Rightarrow> handleTeardownError env e
        | Inr _ \<Rightarrow> thenS (mem (forget name)) (thenS (releaseFinalizer env) (ret 0))) t"
proof -
  let ?s = "s\<lparr>vr_vol := v\<rparr>"
  obtain mine a b c where leg: "legState v (ve_node env) = (mine, a, b, c)" by (cases "legState v (ve_node env)") auto
  have down: "onDrbd OpDown (Down (ve_driver env) name) ?s = (Inl e, t)" using assms(7) by (simp add: onDrbd_def t_def)
  have "teardown env ?s = (\<lambda>u. if orphanHold env u slot (Busy e) then reclaimOrphanHold env slot (Busy e) u else (Inl (Busy e), u)) t"
    using assms(2,4,6) down by (auto simp: teardown_def Let_def bindS_def attempt_def slot_def own_def)
  then show ?thesis using assms(1-5) leg
    by (simp add: volume_Reconcile_def reconcileLeg_def reconcileDeletion_def bindS_def attempt_def)
qed

text \<open>Below the limit a pass counts one more failure.\<close>

lemma held_counts:
  assumes h: "held_by_dead K name env" and k: "K (vr_drv s)" "busyFailCount name s < busyFailLimit"
  defines "t \<equiv> snd (volume_Reconcile env name s)"
  shows "K (vr_drv t) \<and> busyFailCount name t = busyFailCount name s + 1 \<and> quiet teardown_act s t"
proof -
  obtain v e d where v: "ve_get env = Inr v" "vname v = name" "deletionTimestamp v \<noteq> None" "drbd (spec v) \<noteq> None"
      "FinalizerPrefix @ ve_node env \<in> set (finalizers v)" "\<not> is_wedged e"
      "Down (ve_driver env) name (vr_drv s) = (Inl e, d)" and e: "contains (e_text e) ''held open''" and d: "K d"
    using h k(1) unfolding held_by_dead_def Let_def by metis
  define u where "u = act (ActDrbd OpDown False) (s\<lparr>vr_vol := v, vr_drv := d\<rparr>)"
  have u: "busyFailCount name u = busyFailCount name s" "vname (vr_vol u) = name" "vr_drv u = d" "quiet teardown_act s u"
    using v(2) by (simp_all add: u_def act_def busyFailCount_def quiet_def teardown_act_def)
  have b: "e_kind (Busy e) = ErrBusy" "\<not> is_wedged (Busy e)" using Busy_held [OF e] by (simp_all add: is_wedged_def)
  have "\<not> orphanHold env u (status_of v (ve_node env)) (Busy e)" using u k(2) by (simp add: orphanHold_def)
  then have t: "t = snd (reportBusy env (Busy e) u)"
    using held_down [OF v] b unfolding t_def u_def by (simp add: bindS_def attempt_def handleTeardownError_def)
  have "quiet teardown_act s t" unfolding t by (rule quiet.trans [OF u(4) td.q_reportBusy])
  moreover have "vr_drv t = d" "vr_busyFails t = AList.update name (busyFailCount name s + 1) (vr_busyFails u)"
    using reportBusy_memory [of u env "Busy e"] u by (simp_all add: t steady_def)
  ultimately show ?thesis using d by (simp add: busyFailCount_def [of name t] update_conv')
qed

text \<open>At the limit a pass reclaims the leg and releases it.\<close>

lemma sweep_succeeds:
  assumes "\<And>t p. \<not> isl (ve_backend env t p BDelete)"
  shows "\<exists>u. SweepDelete env s = (Inr (), u) \<and> vr_drv u = vr_drv s \<and> vr_vol u = vr_vol s"
proof -
  have "\<exists>u. sweepPools env ps None t = (Inr (), u) \<and> vr_drv u = vr_drv t \<and> vr_vol u = vr_vol t" for ps t
  proof (induction ps arbitrary: t)
    case (Cons p ps)
    obtain x where "ve_backend env t p BDelete = Inr x" using assms [of t p] by (cases "ve_backend env t p BDelete") auto
    then show ?case using Cons [of "act (ActBackend p BDelete True) t"]
      by (simp add: bindS_def attempt_def onBackend_def Let_def act_def)
  qed (simp add: ret_def)
  then show ?thesis by (simp add: SweepDelete_def)
qed

lemma held_released:
  assumes h: "held_by_dead K name env" and k: "K (vr_drv s)" "busyFailLimit \<le> busyFailCount name s"
  shows "\<exists>fs acts. FinalizerPrefix @ ve_node env \<notin> set fs \<and>
    vr_acts (snd (volume_Reconcile env name s)) = acts @ [ActFinalizers fs]"
proof -
  obtain v e d d2 d3 where v: "ve_get env = Inr v" "vname v = name" "deletionTimestamp v \<noteq> None" "drbd (spec v) \<noteq> None"
      "FinalizerPrefix @ ve_node env \<in> set (finalizers v)" "\<not> is_wedged e"
      "Down (ve_driver env) name (vr_drv s) = (Inl e, d)" and e: "contains (e_text e) ''held open''"
    and w: "\<And>t p. \<not> isl (ve_backend env t p BDelete)" "\<And>t a. ve_write env t a = None"
    and o: "0 < st_drbdMinor (status_of v (ve_node env))" "openerPids (e_text (Busy e)) \<noteq> []"
      "list_all (\<lambda>p. \<not> ve_pidAlive env p) (openerPids (e_text (Busy e)))"
      "deviceMountedAnywhere (ve_procs env) (st_drbdMinor (status_of v (ve_node env))) = Some False"
    and d: "ForceDetach (ve_driver env) name (st_drbdMinor (status_of v (ve_node env))) d = (Inr (), d2)"
      "RemoveConfig (ve_driver env) name d2 = (Inr (), d3)"
    using h k(1) unfolding held_by_dead_def Let_def by metis
  let ?slot = "status_of v (ve_node env)"
  define u where "u = act (ActDrbd OpDown False) (s\<lparr>vr_vol := v, vr_drv := d\<rparr>)"
  have u: "vr_vol u = v" "vr_drv u = d" "busyFailCount name u = busyFailCount name s"
    by (simp_all add: u_def act_def busyFailCount_def)
  have "contains (e_text (Busy e)) ''held open''" using Busy_held [OF e] by blast
  then have orphan: "orphanHold env u ?slot (Busy e)"
    unfolding orphanHold_def Let_def u using k(2) v(2,3) o u(3) by simp
  define x where "x = act (ActDrbd OpForceDetach True) (u\<lparr>vr_drv := d2\<rparr>)"
  obtain y where y: "SweepDelete env x = (Inr (), y)" "vr_drv y = d2" "vr_vol y = v"
    using sweep_succeeds [OF w(1), of x] u by (auto simp: x_def act_def)
  obtain z where z: "reclaimOrphanHold env ?slot (Busy e) u = (Inr (), z)" "vr_vol z = v"
    using d y u v(2) by (simp add: reclaimOrphanHold_def Let_def step_defs onDrbd_def x_def event_def act_def)
  have "snd (volume_Reconcile env name s) = snd (releaseFinalizer env (forget name z))"
    using held_down [OF v] orphan z unfolding u_def
    by (simp add: step_defs mem_def split: prod.splits sum.splits)
  then show ?thesis using v(5) z(2)
    by (auto simp: releaseFinalizer_def removeNodeFinalizer_def Let_def act_def)
qed

lemma held_streak:
  assumes "\<forall>env\<in>set envs. held_by_dead K name env" "K (vr_drv s)" "busyFailCount name s = 0"
    and "n \<le> length envs" "int n \<le> busyFailLimit"
  shows "K (vr_drv (passes name (take n envs) s)) \<and> busyFailCount name (passes name (take n envs) s) = int n \<and>
    quiet teardown_act s (passes name (take n envs) s)"
  using assms(4,5)
proof (induction n)
  case 0
  then show ?case using assms(2,3) by (simp add: passes_def quiet.refl)
next
  case (Suc n)
  let ?t = "passes name (take n envs) s"
  have IH: "K (vr_drv ?t)" "busyFailCount name ?t = int n" "quiet teardown_act s ?t" using Suc by simp_all
  have "passes name (take (Suc n) envs) s = snd (volume_Reconcile (envs ! n) name ?t)"
    using Suc.prems(1) by (simp add: passes_def take_Suc_conv_app_nth)
  moreover have "held_by_dead K name (envs ! n)" using assms(1) Suc.prems(1) by simp
  ultimately show ?case using held_counts [of K name "envs ! n" ?t] IH Suc.prems(2) quiet.trans [OF IH(3)] by auto
qed

text \<open>A mount that exited but whose frozen filesystem pins the device.\<close>

definition pinned_volume :: MiroirVolume where
  "pinned_volume = deleted_volume\<lparr>status := (status deleted_volume)\<lparr>perNode := [(''a'', zero_status\<lparr>st_drbdMinor := 1000\<rparr>)]\<rparr>\<rparr>"

definition pinned_error :: drv_error where
  "pinned_error = DrvError ErrPlain ''held open by others: opened by mount (pid 4711)''"

definition pinned_node :: vol_env where
  "pinned_node = (quiet_node pinned_volume)
     \<lparr>ve_driver := calm\<lparr>x_exec := (\<lambda>_ cmd. if cmd = downCmd ''pvc-1'' then Inl pinned_error else Inr '''')\<rparr>\<rparr>"

definition configured :: "drv \<Rightarrow> bool" where
  "configured d \<longleftrightarrow> map_of (dr_files d) ''pvc-1.res'' \<noteq> None"

lemma pinned_down:
  assumes "configured d"
  shows "\<exists>d1. Down (ve_driver pinned_node) ''pvc-1'' d = (Inl (wrap ''down pvc-1: '' pinned_error), d1) \<and> configured d1"
  using assms unfolding configured_def
  by (auto simp: Down_def pinned_node_def quiet_node_def calm_def step_defs lockResource_def statFile_def readFile_def
      liveTeardownView_def downStranded_def listStatus_def clearWedgeSighting_def downResource_def execS_def downCmd_def Let_def)

lemma pinned_reclaim:
  "\<exists>d2 d3. ForceDetach (ve_driver pinned_node) ''pvc-1'' 1000 d = (Inr (), d2) \<and>
    RemoveConfig (ve_driver pinned_node) ''pvc-1'' d2 = (Inr (), d3)"
proof -
  have io: "x_io (ve_driver pinned_node) t p" for t p by (simp add: pinned_node_def quiet_node_def calm_def)
  have "\<exists>d3. RemoveConfig (ve_driver pinned_node) ''pvc-1'' t = (Inr (), d3)" for t
    using removeFiles_all [OF io] unfolding RemoveConfig_def removeStateFiles_def by (metis prod.collapse)
  moreover have "\<exists>d2. ForceDetach (ve_driver pinned_node) ''pvc-1'' 1000 d = (Inr (), d2)"
    by (auto simp: ForceDetach_def pinned_node_def quiet_node_def calm_def step_defs lockResource_def listStatus_def Let_def)
  ultimately show ?thesis by blast
qed


end
